(* ===== verification/Prelude.thy ===== *)
theory Prelude
  imports Main "HOL-Library.Word" "HOL-Library.Sublist" "HOL-Library.List_Lexorder"
begin

text \<open>
  Shared vocabulary of the development: the Go base types (bytes, machine integers, strings), the
  error values of the modelled functions, big-endian integer encodings, in-place writes into a byte
  buffer, and the generic facts about sorted lists, maps and prefixes that the component theories
  use. Facts that a group of proofs shares are collected under the names declared here.
\<close>

named_theorems codec_simps \<open>lengths and round trips of the byte encodings\<close>

section \<open>Go base types\<close>

type_synonym byte = "8 word"
type_synonym bytes = "byte list"
type_synonym u16 = "16 word"
type_synonym u32 = "32 word"
type_synonym u64 = "64 word"

text \<open>An \<open>int64\<close> is a 64-bit word read through \<^const>\<open>sint\<close>; the conversions
  \<open>int64(x)\<close> and \<open>uint64(x)\<close> keep the bits and are the identity here.\<close>

type_synonym i64 = "64 word"
type_synonym i32 = "32 word"

text \<open>A wall clock reading in unix seconds.\<close>

type_synonym time = int

section \<open>Error values\<close>

text \<open>
  Errors returned by the modelled functions. The first four are the package errors of
  pkg/server/error.go; \<open>Wrapped m e\<close> is \<open>xerrors.Errorf("m: %v", e)\<close>; \<open>NotLeader id addr endpoint\<close>
  is the typed error of pkg/server/replicator.go; \<open>Panic\<close> is a Go run-time panic (an out-of-range
  slice or index), which a caller of the function never sees as an error value.
\<close>

datatype go_error =
    ErrorIndexOutOfBounds
  | ErrorEmptyKey
  | ErrorWrongSize
  | ErrorUnsupportedOperation
  | ErrKeyNotFound
  | Msg string
  | Wrapped string go_error
  | NotLeader string string string
  | PermissionDenied string string string string
  | InvalidArgument string
  | Unavailable string
  | Panic

type_synonym 'a result = "go_error + 'a"

text \<open>Sequencing: \<open>if err != nil { return nil, err }\<close>.\<close>

definition bindE :: "'a result \<Rightarrow> ('a \<Rightarrow> 'b result) \<Rightarrow> 'b result" where
  "bindE m f = (case m of Inl e \<Rightarrow> Inl e | Inr a \<Rightarrow> f a)"

lemma bindE_simps [simp]:
  "bindE (Inl e) f = Inl e"
  "bindE (Inr a) f = f a"
  by (simp_all add: bindE_def)

text \<open>\<open>isOk r\<close>: the call returned a nil error.\<close>

definition isOk :: "'a result \<Rightarrow> bool" where
  "isOk r = (case r of Inl _ \<Rightarrow> False | Inr _ \<Rightarrow> True)"

lemma isOk_simps [simp]: "isOk (Inr a)" "\<not> isOk (Inl e)"
  by (simp_all add: isOk_def)

section \<open>Strings and bytes\<close>

lemma unat_byte_less: "unat (w :: byte) < 256"
  by (rule order.strict_trans2 [OF unsigned_less]) simp

lemma unat_u64_less: "unat (w :: u64) < 256 ^ 8"
  by (rule order.strict_trans2 [OF unsigned_less]) simp

text \<open>A Go string is a byte sequence; \<open>[]byte(s)\<close> and \<open>string(b)\<close> convert without loss.\<close>

definition bytes_of :: "string \<Rightarrow> bytes" where
  "bytes_of s = map (\<lambda>c. word_of_nat (of_char c)) s"

definition string_of :: "bytes \<Rightarrow> string" where
  "string_of b = map (\<lambda>w. char_of (unat w)) b"

lemma of_char_less_256: "of_char c < (256 :: nat)"
proof -
  have "(of_char c :: nat) = of_char c mod 256"
    by (metis char_of_char of_char_of)
  then show ?thesis
    by (metis mod_less_divisor zero_less_numeral)
qed

lemma string_of_bytes_of [simp]: "string_of (bytes_of s) = s"
proof -
  have "char_of (unat (word_of_nat (of_char c) :: byte)) = c" for c :: char
    using of_char_less_256 [of c] by (simp add: unat_of_nat)
  then show ?thesis
    by (simp add: string_of_def bytes_of_def comp_def)
qed

lemma bytes_of_string_of [simp]: "bytes_of (string_of b) = b"
proof -
  have "unat w mod 256 = unat w" for w :: byte
    using unat_byte_less [of w] by simp
  then show ?thesis
    by (simp add: string_of_def bytes_of_def comp_def)
qed

lemma bytes_of_inject [simp]: "bytes_of s = bytes_of t \<longleftrightarrow> s = t"
  by (metis string_of_bytes_of)

lemma string_of_inject [simp]: "string_of a = string_of b \<longleftrightarrow> a = b"
  by (metis bytes_of_string_of)

lemma length_bytes_of [simp]: "length (bytes_of s) = length s"
  by (simp add: bytes_of_def)

lemma length_string_of [simp]: "length (string_of b) = length b"
  by (simp add: string_of_def)

lemma bytes_of_Nil [simp]: "bytes_of [] = []" "bytes_of s = [] \<longleftrightarrow> s = []"
  by (simp_all add: bytes_of_def)

lemma string_of_Nil [simp]: "string_of [] = []" "string_of b = [] \<longleftrightarrow> b = []"
  by (simp_all add: string_of_def)

lemma bytes_of_append: "bytes_of (s @ t) = bytes_of s @ bytes_of t"
  by (simp add: bytes_of_def)

lemma bytes_of_eq_iff: "bytes_of s = b \<longleftrightarrow> s = string_of b"
  by auto

section \<open>Big-endian integers\<close>

text \<open>\<open>be_bytes k n\<close> is the \<open>k\<close>-byte big-endian encoding of \<open>n\<close> (\<open>binary.BigEndian.PutUint16/32/64\<close>),
  \<open>be_nat\<close> reads one back.\<close>

fun be_bytes :: "nat \<Rightarrow> nat \<Rightarrow> bytes" where
  "be_bytes 0 n = []"
| "be_bytes (Suc k) n = be_bytes k (n div 256) @ [word_of_nat (n mod 256)]"

definition be_nat :: "bytes \<Rightarrow> nat" where
  "be_nat b = foldl (\<lambda>a w. 256 * a + unat w) 0 b"

lemma length_be_bytes [simp, codec_simps]: "length (be_bytes k n) = k"
  by (induction k arbitrary: n) auto

lemma be_nat_snoc: "be_nat (b @ [w]) = 256 * be_nat b + unat w"
  by (simp add: be_nat_def)

lemma be_nat_Nil [simp]: "be_nat [] = 0"
  by (simp add: be_nat_def)

lemma be_nat_be_bytes [codec_simps]: "be_nat (be_bytes k n) = n mod 256 ^ k"
proof (induction k arbitrary: n)
  case 0
  then show ?case by simp
next
  case (Suc k)
  have w: "unat (word_of_nat (n mod 256) :: byte) = n mod 256"
    by (simp add: unat_of_nat)
  have "be_nat (be_bytes (Suc k) n) = 256 * (n div 256 mod 256 ^ k) + n mod 256"
    by (simp only: be_bytes.simps be_nat_snoc Suc.IH w)
  also have "\<dots> = n mod (256 * 256 ^ k)"
    using mod_mult2_eq [of n 256 "256 ^ k"] by linarith
  finally show ?case
    by (simp only: power_Suc)
qed

lemma be_nat_be_bytes_small [simp]: "n < 256 ^ k \<Longrightarrow> be_nat (be_bytes k n) = n"
  by (simp add: be_nat_be_bytes)

lemma be_nat_bound: "be_nat b < 256 ^ length b"
proof (induction b rule: rev_induct)
  case Nil
  then show ?case by simp
next
  case (snoc w b)
  have "unat w < 256" by (rule unat_byte_less)
  moreover have "256 * be_nat b + 256 \<le> 256 * 256 ^ length b"
    using snoc.IH by (metis Suc_leI add.commute mult_Suc_right mult_le_mono2)
  ultimately show ?case
    by (simp add: be_nat_snoc)
qed

lemma be_bytes_be_nat [simp]: "be_bytes (length b) (be_nat b) = b"
proof (induction b rule: rev_induct)
  case Nil
  then show ?case by simp
next
  case (snoc w b)
  have u: "unat w < 256" by (rule unat_byte_less)
  then have "(256 * be_nat b + unat w) div 256 = be_nat b"
    and "(256 * be_nat b + unat w) mod 256 = unat w"
    by simp_all
  then show ?case
    by (simp add: be_nat_snoc snoc.IH)
qed

lemma be_bytes_inject:
  assumes "m < 256 ^ k" "n < 256 ^ k"
  shows "be_bytes k m = be_bytes k n \<longleftrightarrow> m = n"
  using assms by (metis be_nat_be_bytes_small)

text \<open>The 64-bit form used for log indices, versions, expiries and counters.\<close>

definition be64 :: "u64 \<Rightarrow> bytes" where
  "be64 w = be_bytes 8 (unat w)"

definition unbe64 :: "bytes \<Rightarrow> u64" where
  "unbe64 b = word_of_nat (be_nat (take 8 b))"

lemma length_be64 [simp, codec_simps]: "length (be64 w) = 8"
  by (simp add: be64_def)

lemma unbe64_be64 [simp, codec_simps]: "unbe64 (be64 w @ r) = w"
proof -
  have "unat w < 256 ^ 8"
    by (rule unat_u64_less)
  then have "be_nat (be_bytes 8 (unat w)) = unat w"
    by (rule be_nat_be_bytes_small)
  then show ?thesis
    by (simp add: unbe64_def be64_def)
qed

lemma unbe64_be64_exact [simp]: "unbe64 (be64 w) = w"
  using unbe64_be64 [of w "[]"] by simp

lemma be64_inject [simp]: "be64 v = be64 w \<longleftrightarrow> v = w"
  by (metis unbe64_be64_exact)

section \<open>Writing into a byte buffer\<close>

text \<open>\<open>put_at i b out\<close> writes all of \<open>b\<close> at offset \<open>i\<close> (the \<open>PutUint16(out[i:], _)\<close> and
  \<open>MarshalSortableBinaryTo(out[i:])\<close> calls, whose caller sized the buffer); \<open>copy_at\<close> is Go's
  \<open>copy(out[i:], src)\<close>, which copies \<open>min(len(src), len(out) - i)\<close> bytes.\<close>

definition put_at :: "nat \<Rightarrow> bytes \<Rightarrow> bytes \<Rightarrow> bytes" where
  "put_at i b out = take i out @ b @ drop (i + length b) out"

definition copy_at :: "nat \<Rightarrow> bytes \<Rightarrow> bytes \<Rightarrow> bytes" where
  "copy_at i src out = put_at i (take (length out - i) src) out"

lemma length_put_at: "i + length b \<le> length out \<Longrightarrow> length (put_at i b out) = length out"
  by (simp add: put_at_def)

lemma length_copy_at: "i \<le> length out \<Longrightarrow> length (copy_at i src out) = length out"
  by (simp add: copy_at_def length_put_at)

lemma take_put_at:
  "i \<le> length out \<Longrightarrow> take (i + length b) (put_at i b out) = take i out @ b"
  by (simp add: put_at_def)

lemma take_copy_at:
  assumes "i + n \<le> length out" "n \<le> length src"
  shows "take (i + n) (copy_at i src out) = take i out @ take n src"
  using assms by (simp add: copy_at_def put_at_def min_absorb1 min_absorb2 le_diff_conv2)

lemma take_put_at_before: "j \<le> i \<Longrightarrow> i \<le> length out \<Longrightarrow> take j (put_at i b out) = take j out"
  by (simp add: put_at_def min_def)

section \<open>Sorted association lists\<close>

text \<open>Key-value contents in strictly ascending key order.\<close>

abbreviation ordered_keys :: "('k::linorder \<times> 'v) list \<Rightarrow> bool" where
  "ordered_keys ps \<equiv> sorted_wrt (<) (map fst ps)"

lemma ordered_keys_distinct: "ordered_keys ps \<Longrightarrow> distinct (map fst ps)"
  by (metis strict_sorted_iff)

lemma ordered_map_of_set:
  "ordered_keys ps \<Longrightarrow> map_of ps k = Some v \<longleftrightarrow> (k, v) \<in> set ps"
  by (meson map_of_eq_Some_iff ordered_keys_distinct)

lemma ordered_map_of_inject:
  assumes "ordered_keys ps" "ordered_keys qs" "map_of ps = map_of qs"
  shows "ps = qs"
proof (rule map_sorted_distinct_set_unique [where f = fst])
  show eq: "set ps = set qs"
    using assms by (simp add: map_of_inject_set ordered_keys_distinct)
  show "inj_on fst (set ps \<union> set qs)"
    using assms(1) eq by (simp add: ordered_keys_distinct distinct_map [symmetric])
       (metis distinct_map ordered_keys_distinct)
qed (use assms in \<open>auto simp: strict_sorted_iff\<close>)

end
