(* ===== verification/Pb.thy ===== *)
theory Pb
  imports Prelude
begin

text \<open>
  The shared data model of pkg/pb/cdb.go: keys, requests, replies and change events exchanged by the
  server, the replication layer and their clients. A struct is a record whose fields carry the
  struct's initials where several structs use one field name; a pointer that may be nil is an
  option; a nil byte slice is the empty list.
\<close>

datatype ChangeType = WATCH_SET | WATCH_DELETE | OtherChange i32

text \<open>The direction is an open integer type of which the server knows one value.\<close>

datatype RangeType = LESS_OR_EQUAL | OtherRange i32

record TimeUUID =
  MostSigBits :: i64
  LeastSigBits :: i64

record Key =
  MajorKey :: bytes
  RegionName :: bytes
  MinorKey :: bytes
  Timestamp :: "TimeUUID option"

record KeyRequest =
  kr_Key :: "Key option"
  kr_HeadOnly :: bool
  kr_Timeout :: i32

record RecordRequest =
  rr_Key :: "Key option"
  rr_Value :: bytes
  rr_Metadata :: i32
  rr_TtlSeconds :: i64
  rr_CompareAndSet :: bool
  rr_Version :: u64
  rr_Timeout :: i32
  rr_ExpiresAt :: i64

record IncrementRequest =
  ir_Key :: "Key option"
  ir_Initial :: i64
  ir_Delta :: i64
  ir_TtlSeconds :: i64
  ir_Timeout :: i32
  ir_ExpiresAt :: i64

record IncrementResponse =
  Previous :: i64
  Current :: i64
  ir_Version :: u64

record BatchRequest =
  Records :: "RecordRequest list"
  br_Timeout :: i32

record ReclaimEntry =
  EntryKey :: bytes
  re_Version :: u64

record ReclaimRequest =
  Entries :: "ReclaimEntry list"

record WatchRequest =
  wr_Prefix :: "Key option"
  wr_Timeout :: i32

record WatchEvent =
  we_Key :: "Key option"
  we_Value :: bytes
  we_Version :: u64
  we_Type :: ChangeType

record RangeRequest =
  rg_Key :: "Key option"
  rg_HeadOnly :: bool
  rg_Type :: RangeType
  rg_NumRecords :: i32
  rg_Timeout :: i32

record ScanRequest =
  sr_HeadOnly :: bool

record EnumerateRequest =
  er_Prefix :: "Key option"
  er_Ordered :: bool
  er_Reverse :: bool
  er_Timeout :: i32

record Status =
  Updated :: bool

record Head =
  hd_Version :: u64
  hd_ExpiresAt :: u64
  hd_DiskSize :: i64
  hd_Metadata :: i32

record Record =
  rec_Key :: "Key option"
  rec_Head :: "Head option"
  rec_Value :: bytes

type_synonym Block = "Record list"

end
