(* ===== verification/Keys.thy ===== *)
theory Keys
  imports Pb
begin

text \<open>
  The storage key codec of pkg/server/key.go. \<open>EncodeKey\<close> and \<open>EncodeKeyPrefix\<close> are translated with
  their output buffer and write positions; \<open>entry_key\<close> and \<open>row_key\<close> are the reference layout (three
  length-prefixed fields and an optional 16-byte time UUID) they are proved equal to. The lemmas give
  the decode/encode round trip, injectivity, and the fact every prefix scan of the server rests on:
  an encoded field prefix matches exactly the keys that agree on those fields.

  The uuid package is a parameter: \<open>MarshalSortable\<close> is \<open>uuid.Create(most, least)\<close> followed by
  \<open>MarshalSortableBinaryTo\<close>, \<open>UnmarshalSortable\<close> is \<open>UnmarshalSortableBinary\<close> followed by the two
  accessors. What the code relies on for one timestamp is \<open>uuid_ok\<close>.
\<close>

record uuid_api =
  MarshalSortable :: "TimeUUID \<Rightarrow> bytes"
  UnmarshalSortable :: "bytes \<Rightarrow> TimeUUID"

definition MaxKeyLength :: nat where
  "MaxKeyLength = 65535"

definition SizeOfUUID :: nat where
  "SizeOfUUID = 16"

datatype Field = MajorKeyField | RegionNameField | MinorKeyField | TimestampField

definition SanitizeKeyLen :: "nat \<Rightarrow> nat" where
  "SanitizeKeyLen len = (if len > MaxKeyLength then MaxKeyLength else len)"

section \<open>Decoding\<close>

text \<open>\<open>binary.BigEndian.Uint16\<close> panics on a slice shorter than two bytes.\<close>

definition BigEndian_Uint16 :: "bytes \<Rightarrow> nat result" where
  "BigEndian_Uint16 b = (if length b < 2 then Inl Panic else Inr (be_nat (take 2 b)))"

text \<open>One length-prefixed field of \<open>DecodeKey\<close> at position \<open>j\<close>: the field and the next position.\<close>

definition decode_field :: "bytes \<Rightarrow> nat \<Rightarrow> (bytes \<times> nat) result" where
  "decode_field b j =
     bindE (BigEndian_Uint16 (drop j b)) (\<lambda>n.
       let i = j + 2; j' = i + n in
       if j' > length b then Inl ErrorIndexOutOfBounds
       else Inr (take n (drop i b), j'))"

definition DecodeKey :: "uuid_api \<Rightarrow> bytes \<Rightarrow> Key result" where
  "DecodeKey U b =
     (if length b < 6 then Inl ErrorIndexOutOfBounds
      else bindE (decode_field b 0) (\<lambda>(majorKey, j).
           bindE (decode_field b j) (\<lambda>(regionName, j).
           bindE (decode_field b j) (\<lambda>(minorKey, j).
             if int j \<le> int (length b) - int SizeOfUUID
             then Inr \<lparr>MajorKey = majorKey, RegionName = regionName, MinorKey = minorKey,
                       Timestamp = Some (UnmarshalSortable U (drop j b))\<rparr>
             else Inr \<lparr>MajorKey = majorKey, RegionName = regionName, MinorKey = minorKey,
                       Timestamp = None\<rparr>))))"

section \<open>Encoding\<close>

text \<open>\<open>PutUint16(out[i:], uint16(n))\<close> followed by \<open>copy(out[i+2:], f)\<close>.\<close>

definition put_field :: "nat \<Rightarrow> nat \<Rightarrow> bytes \<Rightarrow> bytes \<Rightarrow> bytes" where
  "put_field i n f out = copy_at (i + 2) f (put_at i (be_bytes 2 n) out)"

definition EncodeKey :: "uuid_api \<Rightarrow> Key \<Rightarrow> bytes \<times> bytes" where
  "EncodeKey U key =
     (let majorKeyLen = SanitizeKeyLen (length (MajorKey key));
          regionNameLen = SanitizeKeyLen (length (RegionName key));
          minorKeyLen = SanitizeKeyLen (length (MinorKey key));
          out = replicate (2 + majorKeyLen + 2 + regionNameLen + 2 + minorKeyLen + SizeOfUUID) 0;
          out = put_field 0 majorKeyLen (MajorKey key) out;
          i = 2 + majorKeyLen;
          out = put_field i regionNameLen (RegionName key) out;
          i = i + 2 + regionNameLen;
          out = put_field i minorKeyLen (MinorKey key) out;
          i = i + 2 + minorKeyLen
      in case Timestamp key of
           Some ts \<Rightarrow> let out = put_at i (MarshalSortable U ts) out in (out, take i out)
         | None \<Rightarrow> (take i out, take i out))"

definition EncodeKeyPrefix :: "uuid_api \<Rightarrow> Key \<Rightarrow> Field \<Rightarrow> bytes result" where
  "EncodeKeyPrefix U key lastField =
     (let majorKeyLen = SanitizeKeyLen (length (MajorKey key));
          regionNameLen = SanitizeKeyLen (length (RegionName key));
          minorKeyLen = SanitizeKeyLen (length (MinorKey key));
          out = replicate (2 + majorKeyLen + 2 + regionNameLen + 2 + minorKeyLen + SizeOfUUID) 0;
          out = put_field 0 majorKeyLen (MajorKey key) out;
          i = 2 + majorKeyLen
      in if lastField = MajorKeyField then Inr (take i out) else
      let out = put_field i regionNameLen (RegionName key) out;
          i = i + 2 + regionNameLen
      in if lastField = RegionNameField then Inr (take i out) else
      let out = put_field i minorKeyLen (MinorKey key) out;
          i = i + 2 + minorKeyLen
      in if lastField = MinorKeyField then Inr (take i out) else
      case Timestamp key of
        Some ts \<Rightarrow> let out = put_at i (MarshalSortable U ts) out; i = i + 16 in
                   if lastField = TimestampField then Inr (take i out)
                   else Inl (Msg ''key does not have the lastField'')
      | None \<Rightarrow> Inl (Msg ''key does not have the lastField''))"

definition Equal :: "Key \<Rightarrow> Key \<Rightarrow> bool" where
  "Equal left right =
     (if MajorKey left \<noteq> MajorKey right then False
      else if RegionName left \<noteq> RegionName right then False
      else if MinorKey left \<noteq> MinorKey right then False
      else case Timestamp left of
        Some l \<Rightarrow> (case Timestamp right of
            None \<Rightarrow> False
          | Some r \<Rightarrow> if MostSigBits l \<noteq> MostSigBits r then False
                     else if LeastSigBits l \<noteq> LeastSigBits r then False
                     else True)
      | None \<Rightarrow> Timestamp right = None)"

section \<open>Reference layout\<close>

definition field_bytes :: "bytes \<Rightarrow> bytes" where
  "field_bytes f = be_bytes 2 (SanitizeKeyLen (length f)) @ take MaxKeyLength f"

definition row_key :: "Key \<Rightarrow> bytes" where
  "row_key k = field_bytes (MajorKey k) @ field_bytes (RegionName k) @ field_bytes (MinorKey k)"

definition entry_key :: "uuid_api \<Rightarrow> Key \<Rightarrow> bytes" where
  "entry_key U k =
     row_key k @ (case Timestamp k of None \<Rightarrow> [] | Some ts \<Rightarrow> MarshalSortable U ts)"

text \<open>Keys whose fields need no truncation, and the key a truncating encode stores.\<close>

definition key_fits :: "Key \<Rightarrow> bool" where
  "key_fits k \<longleftrightarrow> length (MajorKey k) \<le> MaxKeyLength \<and> length (RegionName k) \<le> MaxKeyLength
                \<and> length (MinorKey k) \<le> MaxKeyLength"

definition sanitize_key :: "Key \<Rightarrow> Key" where
  "sanitize_key k = \<lparr>MajorKey = take MaxKeyLength (MajorKey k),
                    RegionName = take MaxKeyLength (RegionName k),
                    MinorKey = take MaxKeyLength (MinorKey k), Timestamp = Timestamp k\<rparr>"

text \<open>What is relied on of the uuid package at the key's timestamp: sixteen bytes that read back.\<close>

definition uuid_ok :: "uuid_api \<Rightarrow> Key \<Rightarrow> bool" where
  "uuid_ok U k \<longleftrightarrow> (case Timestamp k of None \<Rightarrow> True
     | Some ts \<Rightarrow> length (MarshalSortable U ts) = SizeOfUUID
                \<and> UnmarshalSortable U (MarshalSortable U ts) = ts)"

text \<open>The first fields of a key, up to and including \<open>f\<close>.\<close>

fun key_fields :: "Key \<Rightarrow> Field \<Rightarrow> bytes list" where
  "key_fields k MajorKeyField = [MajorKey k]"
| "key_fields k RegionNameField = [MajorKey k, RegionName k]"
| "key_fields k MinorKeyField = [MajorKey k, RegionName k, MinorKey k]"
| "key_fields k TimestampField = [MajorKey k, RegionName k, MinorKey k]"

section \<open>The buffer code equals the reference layout\<close>

lemma SanitizeKeyLen_le: "SanitizeKeyLen n \<le> n" "SanitizeKeyLen n \<le> MaxKeyLength"
  by (simp_all add: SanitizeKeyLen_def)

lemma SanitizeKeyLen_min: "SanitizeKeyLen n = min n MaxKeyLength"
  by (simp add: SanitizeKeyLen_def)

lemma take_SanitizeKeyLen: "take (SanitizeKeyLen (length f)) f = take MaxKeyLength f"
  by (simp add: SanitizeKeyLen_def)

lemma SanitizeKeyLen_less: "SanitizeKeyLen n < 256 ^ 2"
  by (simp add: SanitizeKeyLen_def MaxKeyLength_def)

lemma length_field_bytes [codec_simps]:
  "length (field_bytes f) = 2 + SanitizeKeyLen (length f)"
  by (simp add: field_bytes_def SanitizeKeyLen_min)

lemma length_put_field:
  assumes "i + 2 + n \<le> length out"
  shows "length (put_field i n f out) = length out"
proof -
  have "length (put_at i (be_bytes 2 n) out) = length out"
    using assms by (simp add: length_put_at)
  then show ?thesis
    using assms by (simp add: put_field_def length_copy_at)
qed

lemma take_put_field:
  assumes "i + 2 + n \<le> length out" "n = SanitizeKeyLen (length f)"
  shows "take (i + 2 + n) (put_field i n f out) = take i out @ field_bytes f"
proof -
  let ?o = "put_at i (be_bytes 2 n) out"
  have l: "length ?o = length out"
    using assms by (simp add: length_put_at)
  have "take (i + 2 + n) (copy_at (i + 2) f ?o) = take (i + 2) ?o @ take n f"
    by (rule take_copy_at) (use assms l SanitizeKeyLen_le(1) [of "length f"] in simp_all)
  moreover have "take (i + 2) ?o = take i out @ be_bytes 2 n"
    using take_put_at [of i out "be_bytes 2 n"] assms by simp
  ultimately show ?thesis
    using assms(2) by (simp add: put_field_def field_bytes_def take_SanitizeKeyLen)
qed

lemma encode_three:
  assumes "n1 = SanitizeKeyLen (length f1)" "n2 = SanitizeKeyLen (length f2)"
    and "n3 = SanitizeKeyLen (length f3)"
    and "length out = 2 + n1 + 2 + n2 + 2 + n3 + SizeOfUUID"
    and "o1 = put_field 0 n1 f1 out" "o2 = put_field (2 + n1) n2 f2 o1"
    and "o3 = put_field (2 + n1 + 2 + n2) n3 f3 o2"
  shows "take (2 + n1) o1 = field_bytes f1"
    and "take (2 + n1 + 2 + n2) o2 = field_bytes f1 @ field_bytes f2"
    and "take (2 + n1 + 2 + n2 + 2 + n3) o3 = field_bytes f1 @ field_bytes f2 @ field_bytes f3"
    and "length o3 = length out"
proof -
  have l1: "length o1 = length out"
    unfolding assms(5) by (rule length_put_field) (use assms(4) in simp)
  have l2: "length o2 = length out"
    unfolding assms(6) using assms(4) l1 by (subst length_put_field) simp_all
  show "length o3 = length out"
    unfolding assms(7) using assms(4) l2 by (subst length_put_field) simp_all
  show t1: "take (2 + n1) o1 = field_bytes f1"
    using take_put_field [of 0 n1 out f1] assms(1,4,5) by simp
  show t2: "take (2 + n1 + 2 + n2) o2 = field_bytes f1 @ field_bytes f2"
    using take_put_field [of "2 + n1" n2 o1 f2] assms(2,4,6) l1 t1 by simp
  show "take (2 + n1 + 2 + n2 + 2 + n3) o3 = field_bytes f1 @ field_bytes f2 @ field_bytes f3"
    using take_put_field [of "2 + n1 + 2 + n2" n3 o2 f3] assms(3,4,7) l2 t2 by simp
qed

lemma EncodeKey_entry_key:
  assumes "uuid_ok U k"
  shows "EncodeKey U k = (entry_key U k, row_key k)"
proof -
  define n1 n2 n3 where
    n: "n1 = SanitizeKeyLen (length (MajorKey k))" "n2 = SanitizeKeyLen (length (RegionName k))"
       "n3 = SanitizeKeyLen (length (MinorKey k))"
  define out :: bytes where "out = replicate (2 + n1 + 2 + n2 + 2 + n3 + SizeOfUUID) 0"
  define o1 o2 o3 where
    o: "o1 = put_field 0 n1 (MajorKey k) out" "o2 = put_field (2 + n1) n2 (RegionName k) o1"
       "o3 = put_field (2 + n1 + 2 + n2) n3 (MinorKey k) o2"
  let ?i = "2 + n1 + 2 + n2 + 2 + n3"
  have len: "length out = ?i + SizeOfUUID"
    by (simp add: out_def)
  have e: "EncodeKey U k = (case Timestamp k of
      Some ts \<Rightarrow> (put_at ?i (MarshalSortable U ts) o3, take ?i (put_at ?i (MarshalSortable U ts) o3))
    | None \<Rightarrow> (take ?i o3, take ?i o3))"
    unfolding EncodeKey_def Let_def o n out_def by (rule refl)
  note three = encode_three [OF n len [unfolded add.assoc [symmetric]] o]
  have row: "take ?i o3 = row_key k"
    using three(3) by (simp only: row_key_def)
  show ?thesis
  proof (cases "Timestamp k")
    case None
    then show ?thesis unfolding e None option.case row entry_key_def by simp
  next
    case (Some ts)
    then have m: "length (MarshalSortable U ts) = SizeOfUUID"
      using assms by (simp add: uuid_ok_def)
    have "put_at ?i (MarshalSortable U ts) o3 = row_key k @ MarshalSortable U ts"
      using three(4) len m by (simp add: put_at_def row [symmetric])
    moreover have "take ?i (put_at ?i (MarshalSortable U ts) o3) = row_key k"
      using three(4) len take_put_at_before [of ?i ?i o3] row by simp
    ultimately show ?thesis
      unfolding e Some option.case entry_key_def by simp
  qed
qed

lemma EncodeKeyPrefix_layout:
  "EncodeKeyPrefix U k MajorKeyField = Inr (field_bytes (MajorKey k))"
  "EncodeKeyPrefix U k RegionNameField = Inr (field_bytes (MajorKey k) @ field_bytes (RegionName k))"
  "EncodeKeyPrefix U k MinorKeyField = Inr (row_key k)"
proof -
  define n1 n2 n3 where
    n: "n1 = SanitizeKeyLen (length (MajorKey k))" "n2 = SanitizeKeyLen (length (RegionName k))"
       "n3 = SanitizeKeyLen (length (MinorKey k))"
  define out :: bytes where "out = replicate (2 + n1 + 2 + n2 + 2 + n3 + SizeOfUUID) 0"
  define o1 o2 o3 where
    o: "o1 = put_field 0 n1 (MajorKey k) out" "o2 = put_field (2 + n1) n2 (RegionName k) o1"
       "o3 = put_field (2 + n1 + 2 + n2) n3 (MinorKey k) o2"
  have len: "length out = 2 + n1 + 2 + n2 + 2 + n3 + SizeOfUUID"
    by (simp add: out_def)
  note three = encode_three [OF n len o]
  show "EncodeKeyPrefix U k MajorKeyField = Inr (field_bytes (MajorKey k))"
    unfolding three(1) [symmetric] EncodeKeyPrefix_def Let_def o n out_def by simp
  show "EncodeKeyPrefix U k RegionNameField = Inr (field_bytes (MajorKey k) @ field_bytes (RegionName k))"
    unfolding three(2) [symmetric] EncodeKeyPrefix_def Let_def o n out_def by simp
  show "EncodeKeyPrefix U k MinorKeyField = Inr (row_key k)"
    unfolding row_key_def three(3) [symmetric] EncodeKeyPrefix_def Let_def o n out_def by simp
qed

section \<open>Decoding what was encoded\<close>

lemma decode_field_bytes:
  assumes "b = pre @ field_bytes f @ rest" "j = length pre"
  shows "decode_field b j = Inr (take MaxKeyLength f, length (pre @ field_bytes f))"
proof -
  let ?n = "SanitizeKeyLen (length f)"
  have hd: "take 2 (drop j b) = be_bytes 2 ?n"
    using assms by (simp add: field_bytes_def)
  have l: "length (drop j b) = 2 + ?n + length rest"
    using assms by (simp add: length_field_bytes)
  have "BigEndian_Uint16 (drop j b) = Inr ?n"
    using l by (simp add: BigEndian_Uint16_def hd be_nat_be_bytes_small [OF SanitizeKeyLen_less])
  moreover have "take ?n (drop (j + 2) b) = take MaxKeyLength f"
    using assms by (simp add: field_bytes_def SanitizeKeyLen_def)
  ultimately show ?thesis
    using assms l by (simp only: decode_field_def bindE_simps Let_def) (simp add: length_field_bytes)
qed

lemma field_bytes_append_eq:
  "field_bytes f @ r = field_bytes g @ s \<longleftrightarrow> take MaxKeyLength f = take MaxKeyLength g \<and> r = s"
  (is "?l \<longleftrightarrow> ?r")
proof
  assume ?l
  then have "decode_field (field_bytes f @ r) 0 = decode_field (field_bytes g @ s) 0"
    by simp
  then have t: "take MaxKeyLength f = take MaxKeyLength g"
    by (simp add: decode_field_bytes [where pre = "[]"])
  then have "field_bytes f = field_bytes g"
    by (metis field_bytes_def length_take SanitizeKeyLen_min)
  with \<open>?l\<close> t show ?r by simp
next
  assume r: ?r
  then have "field_bytes f = field_bytes g"
    by (metis field_bytes_def length_take SanitizeKeyLen_min)
  with r show ?l by simp
qed

lemma DecodeKey_entry_key:
  assumes "uuid_ok U k"
  shows "DecodeKey U (entry_key U k) = Inr (sanitize_key k)"
proof -
  define t where "t = (case Timestamp k of None \<Rightarrow> [] | Some ts \<Rightarrow> MarshalSortable U ts)"
  let ?a = "field_bytes (MajorKey k)" and ?b = "field_bytes (RegionName k)"
  let ?c = "field_bytes (MinorKey k)" and ?e = "entry_key U k"
  have e: "?e = ?a @ ?b @ ?c @ t"
    by (simp add: entry_key_def row_key_def t_def)
  have f1: "decode_field ?e 0 = Inr (take MaxKeyLength (MajorKey k), length ?a)"
    using decode_field_bytes [of ?e "[]" "MajorKey k" "?b @ ?c @ t" 0] e by simp
  have f2: "decode_field ?e (length ?a) = Inr (take MaxKeyLength (RegionName k), length (?a @ ?b))"
    using decode_field_bytes [of ?e ?a "RegionName k" "?c @ t" "length ?a"] e by simp
  have f3: "decode_field ?e (length (?a @ ?b))
      = Inr (take MaxKeyLength (MinorKey k), length (?a @ ?b @ ?c))"
    using decode_field_bytes [of ?e "?a @ ?b" "MinorKey k" t "length (?a @ ?b)"] e by simp
  have l: "\<not> length ?e < 6"
    by (simp add: e length_field_bytes)
  have d: "drop (length (?a @ ?b @ ?c)) ?e = t"
    by (simp add: e)
  have j: "int (length (?a @ ?b @ ?c)) \<le> int (length ?e) - int SizeOfUUID \<longleftrightarrow> SizeOfUUID \<le> length t"
    by (simp add: e)
  show ?thesis
    using assms l d
    by (simp only: DecodeKey_def f1 f2 f3 bindE_simps prod.case j if_False)
       (auto simp: sanitize_key_def t_def uuid_ok_def SizeOfUUID_def split: option.splits)
qed

lemma sanitize_key_fits: "key_fits k \<Longrightarrow> sanitize_key k = k"
  by (simp add: sanitize_key_def key_fits_def)

lemma entry_key_inject:
  assumes "uuid_ok U k" "uuid_ok U k'" "key_fits k" "key_fits k'"
  shows "entry_key U k = entry_key U k' \<longleftrightarrow> k = k'"
  using assms by (metis DecodeKey_entry_key sanitize_key_fits sum.inject(2))

section \<open>Prefix scans\<close>

lemma row_key_append_eq:
  "row_key k @ r = row_key k' @ s
   \<longleftrightarrow> take MaxKeyLength (MajorKey k) = take MaxKeyLength (MajorKey k')
     \<and> take MaxKeyLength (RegionName k) = take MaxKeyLength (RegionName k')
     \<and> take MaxKeyLength (MinorKey k) = take MaxKeyLength (MinorKey k') \<and> r = s"
  by (simp add: row_key_def field_bytes_append_eq)

lemma prefix_entry_key:
  assumes "EncodeKeyPrefix U p f = Inr b" "f \<noteq> TimestampField"
  shows "prefix b (entry_key U k)
     \<longleftrightarrow> key_fields (sanitize_key p) f = key_fields (sanitize_key k) f"
proof (cases f)
  case MajorKeyField
  then show ?thesis
    using assms by (auto simp: EncodeKeyPrefix_layout prefix_def entry_key_def row_key_def
        sanitize_key_def field_bytes_append_eq)
next
  case RegionNameField
  then show ?thesis
    using assms by (auto simp: EncodeKeyPrefix_layout prefix_def entry_key_def row_key_def
        sanitize_key_def field_bytes_append_eq)
next
  case MinorKeyField
  then show ?thesis
    using assms by (auto simp: EncodeKeyPrefix_layout prefix_def entry_key_def row_key_append_eq
        sanitize_key_def)
next
  case TimestampField
  then show ?thesis using assms by simp
qed

lemma Equal_eq: "Equal a b \<longleftrightarrow> a = b"
  by (auto simp: Equal_def split: option.splits if_splits)

end
