(* ===== verification/Engine.thy ===== *)
theory Engine
  imports Keys
begin

text \<open>
  The two packages the storage layer is written against, as parameters. \<open>badger_api\<close> is the part of
  the badger engine that pkg/server/storage.go calls: point reads, writes and deletes inside a
  transaction, commit, ordered iteration with a prefix and a seek position, and the dump and load of
  a whole database. A value of type \<open>'db\<close> is the view of one transaction; \<open>contents\<close> is the ordered
  key space that view shows and is used in statements only. Every call may fail.

  \<open>badger_ok\<close> is the documented meaning of the calls that succeed, \<open>badger_up\<close> says that calls succeed
  for the entries the engine admits (it refuses oversized ones), \<open>store_ok\<close> is the contract of the
  value envelope of the store package. Theory Instances defines one instance of each, on which the
  hypotheses are shown to hold.
\<close>

section \<open>Packages as parameters\<close>

record item =
  ValueCopy :: "bytes result"
  UserMeta :: byte
  EstimatedSize :: i64

type_synonym entries = "(bytes \<times> bytes \<times> byte) list"

record 'db badger_api =
  contents :: "'db \<Rightarrow> entries"
  admits :: "bytes \<Rightarrow> bytes \<Rightarrow> bool"
  txn_Get :: "'db \<Rightarrow> bytes \<Rightarrow> item result"
  txn_SetEntry :: "'db \<Rightarrow> bytes \<Rightarrow> bytes \<Rightarrow> byte \<Rightarrow> 'db result"
  txn_Delete :: "'db \<Rightarrow> bytes \<Rightarrow> 'db result"
  txn_Commit :: "'db \<Rightarrow> 'db result"
  iterate :: "'db \<Rightarrow> bool \<Rightarrow> bytes \<Rightarrow> bytes \<Rightarrow> (bytes \<times> item) list"
  db_Backup :: "'db \<Rightarrow> u64 \<Rightarrow> (bytes \<times> u64) result"
  db_Load :: "'db \<Rightarrow> bytes \<Rightarrow> go_error option \<times> 'db"

record store_api =
  EncodeEnvelope :: "i64 \<Rightarrow> i64 \<Rightarrow> bytes \<Rightarrow> bytes"
  DecodeEnvelope :: "bytes \<Rightarrow> i64 \<times> i64 \<times> bytes"
  IsExpired :: "time \<Rightarrow> i64 \<Rightarrow> bool"
  ExpiryFromTtl :: "time \<Rightarrow> i64 \<Rightarrow> i64"

text \<open>The packages a node runs on.\<close>

record 'db runtime =
  badger :: "'db badger_api"
  store :: store_api
  uuid :: uuid_api

section \<open>What is relied on\<close>

text \<open>The logical key space of a view.\<close>

definition view :: "'db badger_api \<Rightarrow> 'db \<Rightarrow> bytes \<rightharpoonup> bytes \<times> byte" where
  "view B d = map_of (contents B d)"

text \<open>The entries an iterator visits: from the seek position on, in (reverse) key order, while the
  key carries the prefix.\<close>

definition scan_entries :: "entries \<Rightarrow> bool \<Rightarrow> bytes \<Rightarrow> bytes \<Rightarrow> entries" where
  "scan_entries ps reverse pre seek =
     takeWhile (\<lambda>(k, _). prefix pre k)
       (if reverse then dropWhile (\<lambda>(k, _). seek < k) (rev ps)
        else dropWhile (\<lambda>(k, _). k < seek) ps)"

definition item_shows :: "item \<Rightarrow> bytes \<times> byte \<Rightarrow> bool" where
  "item_shows it vm \<longleftrightarrow> UserMeta it = snd vm \<and> (ValueCopy it = Inr (fst vm) \<or> \<not> isOk (ValueCopy it))"

definition badger_ok :: "'db badger_api \<Rightarrow> bool" where
  "badger_ok B \<longleftrightarrow>
     (\<forall>d. ordered_keys (contents B d)) \<and>
     (\<forall>d k. txn_Get B d k = Inl ErrKeyNotFound \<longrightarrow> view B d k = None) \<and>
     (\<forall>d k it. txn_Get B d k = Inr it \<longrightarrow> (\<exists>vm. view B d k = Some vm \<and> item_shows it vm)) \<and>
     (\<forall>d k v m d'. txn_SetEntry B d k v m = Inr d' \<longrightarrow> view B d' = (view B d)(k \<mapsto> (v, m))) \<and>
     (\<forall>d k d'. txn_Delete B d k = Inr d' \<longrightarrow> view B d' = (view B d)(k := None)) \<and>
     (\<forall>d d'. txn_Commit B d = Inr d' \<longrightarrow> contents B d' = contents B d) \<and>
     (\<forall>d r p s. list_all2 (\<lambda>(k, it) (k', vm). k = k' \<and> item_shows it vm)
                 (iterate B d r p s) (scan_entries (contents B d) r p s))"

definition badger_up :: "'db badger_api \<Rightarrow> bool" where
  "badger_up B \<longleftrightarrow>
     (\<forall>d k. case txn_Get B d k of Inr it \<Rightarrow> isOk (ValueCopy it) | Inl e \<Rightarrow> e = ErrKeyNotFound) \<and>
     (\<forall>d k v m. admits B k v \<longrightarrow> isOk (txn_SetEntry B d k v m)) \<and>
     (\<forall>d k. isOk (txn_Delete B d k)) \<and>
     (\<forall>d. isOk (txn_Commit B d)) \<and>
     (\<forall>d r p s. \<forall>(k, it) \<in> set (iterate B d r p s). isOk (ValueCopy it))"

definition store_ok :: "store_api \<Rightarrow> bool" where
  "store_ok S \<longleftrightarrow>
     (\<forall>v e x. DecodeEnvelope S (EncodeEnvelope S v e x) = (v, e, x)) \<and> (\<forall>t. \<not> IsExpired S t 0)"

text \<open>What is relied on of a full dump: loaded into an empty database it reproduces the dumped
  contents, and loading it writes no key that the dump does not hold.\<close>

definition dump_ok :: "'db badger_api \<Rightarrow> bool" where
  "dump_ok B \<longleftrightarrow>
     (\<forall>d w ver d0 d'. db_Backup B d 0 = Inr (w, ver) \<longrightarrow> db_Load B d0 w = (None, d') \<longrightarrow>
        (contents B d0 = [] \<longrightarrow> contents B d' = contents B d) \<and>
        (\<forall>k. view B d k = None \<longrightarrow> view B d' k = view B d0 k))"

section \<open>Consequences in the form the storage proofs use\<close>

lemma badger_okD:
  assumes "badger_ok B"
  shows "ordered_keys (contents B d)"
    and "txn_Get B d k = Inl ErrKeyNotFound \<Longrightarrow> view B d k = None"
    and "txn_Get B d k = Inr it \<Longrightarrow> \<exists>vm. view B d k = Some vm \<and> item_shows it vm"
    and "txn_SetEntry B d k v m = Inr d' \<Longrightarrow> view B d' = (view B d)(k \<mapsto> (v, m))"
    and "txn_Delete B d k = Inr d' \<Longrightarrow> view B d' = (view B d)(k := None)"
    and "txn_Commit B d = Inr d' \<Longrightarrow> contents B d' = contents B d"
    and "list_all2 (\<lambda>(k, it) (k', vm). k = k' \<and> item_shows it vm)
           (iterate B d r p s) (scan_entries (contents B d) r p s)"
  using assms unfolding badger_ok_def by blast+

lemma commit_view:
  assumes "badger_ok B" "txn_Commit B d = Inr d'"
  shows "view B d' = view B d"
  using badger_okD(6) [OF assms] by (simp add: view_def)

lemma view_contents_eq:
  assumes "badger_ok B" "badger_ok B'"
  shows "view B d = view B' d' \<longleftrightarrow> contents B d = contents B' d'"
  using ordered_map_of_inject [of "contents B d" "contents B' d'"] badger_okD(1) [OF assms(1)]
    badger_okD(1) [OF assms(2)] by (auto simp: view_def)

text \<open>A point read followed by the copy of the value, as the view sees it.\<close>

lemma get_up:
  assumes "badger_ok B" "badger_up B"
  shows "txn_Get B d k = Inl ErrKeyNotFound \<and> view B d k = None
       \<or> (\<exists>it v m. txn_Get B d k = Inr it \<and> ValueCopy it = Inr v \<and> UserMeta it = m
                \<and> view B d k = Some (v, m))"
proof (cases "txn_Get B d k")
  case (Inl e)
  moreover have "case txn_Get B d k of Inr it \<Rightarrow> isOk (ValueCopy it) | Inl e \<Rightarrow> e = ErrKeyNotFound"
    using assms(2) unfolding badger_up_def by blast
  ultimately show ?thesis
    using badger_okD(2) [OF assms(1)] by simp
next
  case (Inr it)
  moreover have "case txn_Get B d k of Inr it \<Rightarrow> isOk (ValueCopy it) | Inl e \<Rightarrow> e = ErrKeyNotFound"
    using assms(2) unfolding badger_up_def by blast
  ultimately show ?thesis
    using badger_okD(3) [OF assms(1) Inr] by (auto simp: item_shows_def)
qed

lemma get_upE:
  assumes "badger_ok B" "badger_up B"
  obtains (absent) "txn_Get B d k = Inl ErrKeyNotFound" "view B d k = None"
  | (present) it v m where "txn_Get B d k = Inr it" "ValueCopy it = Inr v" "UserMeta it = m"
      "view B d k = Some (v, m)"
  using get_up [OF assms, of d k] by (elim disjE exE conjE) (rule absent present; assumption)+

text \<open>A read that did not fail saw the view.\<close>

lemma get_Inr:
  assumes "badger_ok B" "txn_Get B d k = Inr it" "ValueCopy it = Inr v"
  shows "view B d k = Some (v, UserMeta it)"
  using badger_okD(3) [OF assms(1,2)] assms(3) by (auto simp: item_shows_def)

lemma set_up:
  assumes "badger_ok B" "badger_up B" "admits B k v"
  obtains d' where "txn_SetEntry B d k v m = Inr d'" "view B d' = (view B d)(k \<mapsto> (v, m))"
proof -
  have "isOk (txn_SetEntry B d k v m)"
    using assms(2,3) unfolding badger_up_def by blast
  then show ?thesis
    using that badger_okD(4) [OF assms(1)] by (cases "txn_SetEntry B d k v m") auto
qed

lemma delete_up:
  assumes "badger_ok B" "badger_up B"
  obtains d' where "txn_Delete B d k = Inr d'" "view B d' = (view B d)(k := None)"
proof -
  have "isOk (txn_Delete B d k)"
    using assms(2) unfolding badger_up_def by blast
  then show ?thesis
    using that badger_okD(5) [OF assms(1)] by (cases "txn_Delete B d k") auto
qed

lemma commit_up:
  assumes "badger_ok B" "badger_up B"
  obtains d' where "txn_Commit B d = Inr d'" "view B d' = view B d"
proof -
  have "isOk (txn_Commit B d)"
    using assms(2) unfolding badger_up_def by blast
  then show ?thesis
    using that commit_view [OF assms(1)] by (cases "txn_Commit B d") auto
qed

lemma store_ok_decode: "store_ok S \<Longrightarrow> DecodeEnvelope S (EncodeEnvelope S v e x) = (v, e, x)"
  by (simp add: store_ok_def)

lemma store_ok_never: "store_ok S \<Longrightarrow> \<not> IsExpired S t 0"
  by (simp add: store_ok_def)

section \<open>Ordered scans\<close>

lemma prefix_le: "prefix p k \<Longrightarrow> p \<le> (k :: bytes)"
proof -
  assume "prefix p k"
  then obtain z where "k = p @ z" by (auto simp: prefix_def)
  then show "p \<le> k"
    by (cases z) (auto simp: list_le_def list_less_def intro: lexord_append_rightI)
qed

text \<open>The keys with one prefix are contiguous: a key between two of them has the prefix too.\<close>

lemma prefix_between:
  assumes "p \<le> k" "k \<le> k'" "prefix p (k' :: bytes)"
  shows "prefix p k"
  using assms
proof (induction p arbitrary: k k')
  case Nil
  then show ?case by simp
next
  case (Cons x p)
  then obtain r where k': "k' = x # r" "prefix p r"
    by (cases k') auto
  with Cons.prems obtain y s where k: "k = y # s"
    by (cases k) auto
  with Cons.prems k' have "y = x"
    by auto
  with Cons k k' show ?case
    by auto
qed

lemma forward_scan:
  assumes "ordered_keys ps"
  shows "scan_entries ps False p p = filter (\<lambda>(k, _). prefix p k) ps"
  using assms
proof (induction ps)
  case Nil
  then show ?case by (simp add: scan_entries_def)
next
  case (Cons a ps)
  obtain k v where a: "a = (k, v)" by (cases a)
  have IH: "scan_entries ps False p p = filter (\<lambda>(k, _). prefix p k) ps"
    using Cons by simp
  show ?case
  proof (cases "k < p")
    case True
    then have "\<not> prefix p k" using prefix_le by (meson leD)
    with True IH a show ?thesis by (simp add: scan_entries_def)
  next
    case False
    have later: "\<forall>(k', _) \<in> set ps. k < k'"
      using Cons.prems a by auto
    have all: "dropWhile (\<lambda>(k, _). k < p) ps = ps"
      using later False by (cases ps) auto
    show ?thesis
    proof (cases "prefix p k")
      case True
      with IH all False a show ?thesis by (simp add: scan_entries_def)
    next
      case np: False
      have "filter (\<lambda>(k, _). prefix p k) ps = []"
        using later np False prefix_between [of p k] by (fastforce simp: filter_empty_conv)
      with np False a show ?thesis by (simp add: scan_entries_def)
    qed
  qed
qed

lemma rewind_scan: "scan_entries ps False [] [] = ps"
  by (simp add: scan_entries_def dropWhile_eq_self_iff)

text \<open>A reverse scan from a seek key that carries the prefix: the matching keys up to it, descending.\<close>

lemma reverse_scan:
  assumes "ordered_keys ps" "prefix p s"
  shows "scan_entries ps True p s = rev (filter (\<lambda>(k, _). prefix p k \<and> k \<le> s) ps)"
  using assms(1)
proof (induction ps rule: rev_induct)
  case Nil
  then show ?case by (simp add: scan_entries_def)
next
  case (snoc a ps)
  obtain k v where a: "a = (k, v)" by (cases a)
  have earlier: "\<forall>(k', _) \<in> set ps. k' < k"
    using snoc.prems a by (auto simp: sorted_wrt_append)
  have IH: "scan_entries ps True p s = rev (filter (\<lambda>(k, _). prefix p k \<and> k \<le> s) ps)"
    using snoc by (simp add: sorted_wrt_append)
  show ?case
  proof (cases "s < k")
    case True
    with IH a show ?thesis by (auto simp: scan_entries_def)
  next
    case False
    have all: "dropWhile (\<lambda>(k, _). s < k) (rev ps) = rev ps"
    proof -
      have "\<not> s < fst x" if "x \<in> set ps" for x
      proof -
        have "fst x < k" using that earlier by auto
        with False show ?thesis by auto
      qed
      then show ?thesis
        unfolding dropWhile_eq_self_iff split_beta by (metis hd_in_set set_rev)
    qed
    show ?thesis
    proof (cases "prefix p k")
      case True
      with IH all False a show ?thesis by (auto simp: scan_entries_def)
    next
      case np: False
      have "\<not> prefix p k'" if "(k', v') \<in> set ps" for k' v'
      proof
        assume "prefix p k'"
        then have "p \<le> k'" by (rule prefix_le)
        moreover have "k' < k" using that earlier by auto
        ultimately have "prefix p k"
          using prefix_between [of p k s] False assms(2) by auto
        with np show False by simp
      qed
      then have "filter (\<lambda>(k, _). prefix p k \<and> k \<le> s) ps = []"
        by (auto simp: filter_empty_conv)
      with np False a show ?thesis by (simp add: scan_entries_def)
    qed
  qed
qed

end
