(* ===== verification/Storage.thy ===== *)
theory Storage
  imports Engine
begin

text \<open>
  The versioned record store of pkg/server/storage.go and record.go, over the engine and envelope
  parameters of theory Engine. One definition per method of \<open>KeyValueStorageCtx\<close>; a method that
  writes returns its result and the new state. The state is the committed database and the sequence
  of change events handed to the watch hub. A transaction is opened on the committed view, written
  through \<open>SetEntry\<close> and \<open>Delete\<close>, and becomes the state only by a successful \<open>Commit\<close>; every early
  return discards it. The method's wall clock reading is the argument \<open>now\<close>.
\<close>

section \<open>State\<close>

record store_event =
  ev_Key :: bytes
  ev_Value :: bytes
  ev_Type :: ChangeType
  ev_Version :: i64

record 'db KeyValueStorageCtx =
  db :: 'db
  hub :: "store_event list option"

definition defBlockSize :: nat where
  "defBlockSize = 100"

definition notify ::
  "'db KeyValueStorageCtx \<Rightarrow> bytes \<Rightarrow> bytes \<Rightarrow> ChangeType \<Rightarrow> i64 \<Rightarrow> 'db KeyValueStorageCtx" where
  "notify this key val eventType version =
     (case hub this of
        None \<Rightarrow> this
      | Some h \<Rightarrow> this\<lparr>hub := Some (h @ [\<lparr>ev_Key = key, ev_Value = val, ev_Type = eventType,
                                         ev_Version = version\<rparr>])\<rparr>)"

section \<open>Records\<close>

definition RecordNotFound :: "Key \<Rightarrow> Record" where
  "RecordNotFound key = \<lparr>rec_Key = Some key, rec_Head = None, rec_Value = []\<rparr>"

definition RecordHead :: "Key \<Rightarrow> u64 \<Rightarrow> u64 \<Rightarrow> i64 \<Rightarrow> i32 \<Rightarrow> Record" where
  "RecordHead key version expiresAt diskSize metadata =
     \<lparr>rec_Key = Some key,
      rec_Head = Some \<lparr>hd_Version = version, hd_ExpiresAt = expiresAt, hd_DiskSize = diskSize,
                       hd_Metadata = metadata\<rparr>,
      rec_Value = []\<rparr>"

definition RecordValue :: "Key \<Rightarrow> u64 \<Rightarrow> u64 \<Rightarrow> i64 \<Rightarrow> i32 \<Rightarrow> bytes \<Rightarrow> Record" where
  "RecordValue key version expiresAt diskSize metadata val =
     (RecordHead key version expiresAt diskSize metadata)\<lparr>rec_Value := val\<rparr>"

definition FetchRecord :: "'db runtime \<Rightarrow> time \<Rightarrow> Key \<Rightarrow> item \<Rightarrow> bool \<Rightarrow> Record result" where
  "FetchRecord E now key it headOnly =
     (case ValueCopy it of
        Inl e \<Rightarrow> Inl (Wrapped ''fetch value failed'' e)
      | Inr data \<Rightarrow>
          let (version, expiresAt, val) = DecodeEnvelope (store E) data in
          if IsExpired (store E) now expiresAt then Inr (RecordNotFound key)
          else let diskSize = EstimatedSize it; meta = ucast (UserMeta it) in
            if headOnly then Inr (RecordHead key version expiresAt diskSize meta)
            else Inr (RecordValue key version expiresAt diskSize meta val))"

definition resolveExpiry :: "'db runtime \<Rightarrow> time \<Rightarrow> i64 \<Rightarrow> i64 \<Rightarrow> i64" where
  "resolveExpiry E now ttlSeconds expiresAt =
     (if expiresAt \<noteq> 0 then expiresAt
      else if sint ttlSeconds > 0 then ExpiryFromTtl (store E) now ttlSeconds
      else 0)"

section \<open>Reads\<close>

definition Get :: "'db runtime \<Rightarrow> time \<Rightarrow> 'db KeyValueStorageCtx \<Rightarrow> KeyRequest \<Rightarrow> Record result" where
  "Get E now this keyRequest =
     (case kr_Key keyRequest of
        None \<Rightarrow> Inl ErrorEmptyKey
      | Some key \<Rightarrow>
          let (entryKey, _) = EncodeKey (uuid E) key; txn = db this in
          case txn_Get (badger E) txn entryKey of
            Inl e \<Rightarrow> if e = ErrKeyNotFound then Inr (RecordNotFound key) else Inl e
          | Inr it \<Rightarrow> FetchRecord E now key it (kr_HeadOnly keyRequest))"

definition GetRecent ::
  "'db runtime \<Rightarrow> time \<Rightarrow> 'db KeyValueStorageCtx \<Rightarrow> KeyRequest \<Rightarrow> Record result" where
  "GetRecent E now this keyRequest =
     (case kr_Key keyRequest of
        None \<Rightarrow> Inl ErrorEmptyKey
      | Some key \<Rightarrow>
          let (entryKey, rowKey) = EncodeKey (uuid E) key in
          case iterate (badger E) (db this) True rowKey entryKey of
            (itemKey, it) # _ \<Rightarrow>
              bindE (DecodeKey (uuid E) itemKey) (\<lambda>actualKey.
                FetchRecord E now actualKey it (kr_HeadOnly keyRequest))
          | [] \<Rightarrow> Inr (RecordNotFound key))"

text \<open>The body of the scan loops up to \<open>records = append(records, record)\<close>: an undecodable key, a
  failed fetch and an expired record are skipped (\<open>continue\<close>); a panic is not an error value and
  ends the scan.\<close>

definition visit :: "'db runtime \<Rightarrow> time \<Rightarrow> bool \<Rightarrow> bytes \<times> item \<Rightarrow> Record option result" where
  "visit E now headOnly entry =
     (case DecodeKey (uuid E) (fst entry) of
        Inl e \<Rightarrow> if e = Panic then Inl Panic else Inr None
      | Inr itemKey \<Rightarrow>
          (case FetchRecord E now itemKey (snd entry) headOnly of
             Inl e \<Rightarrow> Inr None
           | Inr record \<Rightarrow> if rec_Head record = None then Inr None else Inr (Some record)))"

fun range_loop ::
  "'db runtime \<Rightarrow> time \<Rightarrow> bool \<Rightarrow> nat \<Rightarrow> nat \<Rightarrow> Record list \<Rightarrow> (bytes \<times> item) list \<Rightarrow> Block result" where
  "range_loop E now headOnly numRecords i records [] = Inr records"
| "range_loop E now headOnly numRecords i records (entry # iter) =
     (if \<not> i < numRecords then Inr records
      else case visit E now headOnly entry of
        Inl e \<Rightarrow> Inl e
      | Inr None \<Rightarrow> range_loop E now headOnly numRecords i records iter
      | Inr (Some record) \<Rightarrow> range_loop E now headOnly numRecords (i + 1) (records @ [record]) iter)"

definition GetRange ::
  "'db runtime \<Rightarrow> time \<Rightarrow> 'db KeyValueStorageCtx \<Rightarrow> RangeRequest \<Rightarrow> Block result" where
  "GetRange E now this rangeRequest =
     (case rg_Key rangeRequest of
        None \<Rightarrow> Inl ErrorEmptyKey
      | Some key \<Rightarrow>
          if rg_Type rangeRequest \<noteq> LESS_OR_EQUAL then Inl ErrorUnsupportedOperation
          else let numRecords = sint (rg_NumRecords rangeRequest) in
          if numRecords \<le> 0 then Inl ErrorWrongSize
          else let (entryKey, rowKey) = EncodeKey (uuid E) key in
            range_loop E now (rg_HeadOnly rangeRequest) (nat numRecords) 0 []
              (iterate (badger E) (db this) True rowKey entryKey))"

text \<open>The streaming loop of \<open>GetArea\<close> and \<open>Scan\<close>. The \<open>BlockSender\<close> is a send function on a
  sender state; it returns the error, if any, and the new sender state.\<close>

type_synonym 's send = "'s \<Rightarrow> Block \<Rightarrow> go_error option \<times> 's"

fun area_loop ::
  "'db runtime \<Rightarrow> time \<Rightarrow> bool \<Rightarrow> 's send \<Rightarrow> 's \<Rightarrow> Record list \<Rightarrow> (bytes \<times> item) list
   \<Rightarrow> go_error option \<times> 's" where
  "area_loop E now headOnly send st records [] =
     (if length records > 0 then send st records else (None, st))"
| "area_loop E now headOnly send st records (entry # iter) =
     (case visit E now headOnly entry of
        Inl e \<Rightarrow> (Some e, st)
      | Inr None \<Rightarrow> area_loop E now headOnly send st records iter
      | Inr (Some record) \<Rightarrow>
          let records = records @ [record] in
          if length records = defBlockSize
          then (case send st records of
                  (Some e, st) \<Rightarrow> (Some e, st)
                | (None, st) \<Rightarrow> area_loop E now headOnly send st [] iter)
          else area_loop E now headOnly send st records iter)"

definition GetArea ::
  "'db runtime \<Rightarrow> time \<Rightarrow> 'db KeyValueStorageCtx \<Rightarrow> KeyRequest \<Rightarrow> Field \<Rightarrow> 's send \<Rightarrow> 's
   \<Rightarrow> go_error option \<times> 's" where
  "GetArea E now this keyRequest lastField send st =
     (case kr_Key keyRequest of
        None \<Rightarrow> (Some ErrorEmptyKey, st)
      | Some key \<Rightarrow>
          (case EncodeKeyPrefix (uuid E) key lastField of
             Inl e \<Rightarrow> (Some e, st)
           | Inr keyPrefix \<Rightarrow>
               area_loop E now (kr_HeadOnly keyRequest) send st []
                 (iterate (badger E) (db this) False keyPrefix keyPrefix)))"

definition Scan ::
  "'db runtime \<Rightarrow> time \<Rightarrow> 'db KeyValueStorageCtx \<Rightarrow> ScanRequest \<Rightarrow> 's send \<Rightarrow> 's
   \<Rightarrow> go_error option \<times> 's" where
  "Scan E now this scanRequest send st =
     area_loop E now (sr_HeadOnly scanRequest) send st [] (iterate (badger E) (db this) False [] [])"

section \<open>Writes\<close>

text \<open>\<open>version := commitVersion; if version == 0 { version = oldVersion + 1 }\<close>.\<close>

definition next_version :: "u64 \<Rightarrow> u64 \<Rightarrow> u64" where
  "next_version commitVersion oldVersion =
     (if commitVersion = 0 then oldVersion + 1 else commitVersion)"

text \<open>\<open>SetEntry\<close>, \<open>Commit\<close> and the notification that end \<open>Touch\<close>, \<open>Put\<close> and \<open>Increment\<close>.\<close>

definition commit_entry ::
  "'db runtime \<Rightarrow> 'db KeyValueStorageCtx \<Rightarrow> string \<Rightarrow> string \<Rightarrow> bytes \<Rightarrow> bytes \<Rightarrow> byte \<Rightarrow> bytes \<Rightarrow> u64
   \<Rightarrow> 'a \<Rightarrow> 'a result \<times> 'db KeyValueStorageCtx" where
  "commit_entry E this setMsg commitMsg entryKey envelope meta val version reply =
     (case txn_SetEntry (badger E) (db this) entryKey envelope meta of
        Inl e \<Rightarrow> (Inl (Wrapped setMsg e), this)
      | Inr txn \<Rightarrow>
          (case txn_Commit (badger E) txn of
             Inl e \<Rightarrow> (Inl (Wrapped commitMsg e), this)
           | Inr d \<Rightarrow> (Inr reply, notify (this\<lparr>db := d\<rparr>) entryKey val WATCH_SET version)))"

definition Touch ::
  "'db runtime \<Rightarrow> time \<Rightarrow> 'db KeyValueStorageCtx \<Rightarrow> RecordRequest \<Rightarrow> u64
   \<Rightarrow> Status result \<times> 'db KeyValueStorageCtx" where
  "Touch E now this recordRequest commitVersion =
     (case rr_Key recordRequest of
        None \<Rightarrow> (Inl ErrorEmptyKey, this)
      | Some key \<Rightarrow>
          let (entryKey, _) = EncodeKey (uuid E) key in
          case txn_Get (badger E) (db this) entryKey of
            Inl e \<Rightarrow> if e = ErrKeyNotFound then (Inr \<lparr>Updated = False\<rparr>, this) else (Inl e, this)
          | Inr it \<Rightarrow>
              (case ValueCopy it of
                 Inl e \<Rightarrow> (Inl (Wrapped ''fetch in touch error'' e), this)
               | Inr data \<Rightarrow>
                   let (oldVersion, _, val) = DecodeEnvelope (store E) data;
                       version = next_version commitVersion oldVersion;
                       expiresAt = resolveExpiry E now (rr_TtlSeconds recordRequest)
                                     (rr_ExpiresAt recordRequest);
                       envelope = EncodeEnvelope (store E) version expiresAt val
                   in commit_entry E this ''update entry error'' ''commit touch error'' entryKey
                        envelope (UserMeta it) val version \<lparr>Updated = True\<rparr>))"

definition Put ::
  "'db runtime \<Rightarrow> time \<Rightarrow> 'db KeyValueStorageCtx \<Rightarrow> RecordRequest \<Rightarrow> u64
   \<Rightarrow> Status result \<times> 'db KeyValueStorageCtx" where
  "Put E now this recordRequest commitVersion =
     (case rr_Key recordRequest of
        None \<Rightarrow> (Inl ErrorEmptyKey, this)
      | Some key \<Rightarrow>
          let (entryKey, _) = EncodeKey (uuid E) key;
              current =
                (case txn_Get (badger E) (db this) entryKey of
                   Inr it \<Rightarrow>
                     (case ValueCopy it of
                        Inl e \<Rightarrow> Inl (Wrapped ''read current value error'' e)
                      | Inr data \<Rightarrow> Inr (True, fst (DecodeEnvelope (store E) data)))
                 | Inl e \<Rightarrow> if e \<noteq> ErrKeyNotFound then Inl e else Inr (False, 0))
          in case current of
               Inl e \<Rightarrow> (Inl e, this)
             | Inr (exists, oldVersion) \<Rightarrow>
                 if rr_CompareAndSet recordRequest \<and> \<not> exists \<and> rr_Version recordRequest \<noteq> 0
                 then (Inr \<lparr>Updated = False\<rparr>, this)
                 else if rr_CompareAndSet recordRequest \<and> exists
                         \<and> rr_Version recordRequest \<noteq> oldVersion
                 then (Inr \<lparr>Updated = False\<rparr>, this)
                 else
                   let version = next_version commitVersion oldVersion;
                       expiresAt = resolveExpiry E now (rr_TtlSeconds recordRequest)
                                     (rr_ExpiresAt recordRequest);
                       envelope = EncodeEnvelope (store E) version expiresAt (rr_Value recordRequest)
                   in commit_entry E this ''update entry error'' ''commit put error'' entryKey
                        envelope (ucast (rr_Metadata recordRequest)) (rr_Value recordRequest) version
                        \<lparr>Updated = True\<rparr>)"

definition Remove ::
  "'db runtime \<Rightarrow> 'db KeyValueStorageCtx \<Rightarrow> KeyRequest \<Rightarrow> Status result \<times> 'db KeyValueStorageCtx" where
  "Remove E this keyRequest =
     (case kr_Key keyRequest of
        None \<Rightarrow> (Inl ErrorEmptyKey, this)
      | Some key \<Rightarrow>
          let (entryKey, _) = EncodeKey (uuid E) key in
          case txn_Delete (badger E) (db this) entryKey of
            Inl e \<Rightarrow> (Inl (Wrapped ''delete entry error'' e), this)
          | Inr txn \<Rightarrow>
              (case txn_Commit (badger E) txn of
                 Inl e \<Rightarrow> (Inl (Wrapped ''commit remove error'' e), this)
               | Inr d \<Rightarrow> (Inr \<lparr>Updated = True\<rparr>, notify (this\<lparr>db := d\<rparr>) entryKey [] WATCH_DELETE 0)))"

text \<open>\<open>ctx n\<close> is the value of \<open>ctx.Err()\<close> at the \<open>n\<close>-th poll.\<close>

fun expired_loop ::
  "'db runtime \<Rightarrow> time \<Rightarrow> (nat \<Rightarrow> go_error option) \<Rightarrow> int \<Rightarrow> nat \<Rightarrow> ReclaimEntry list
   \<Rightarrow> (bytes \<times> item) list \<Rightarrow> ReclaimEntry list \<times> go_error option" where
  "expired_loop E now ctx limit n entries [] = (entries, None)"
| "expired_loop E now ctx limit n entries ((itemKey, it) # iter) =
     (case ctx n of
        Some e \<Rightarrow> (entries, Some e)
      | None \<Rightarrow>
          (case ValueCopy it of
             Inl e \<Rightarrow> expired_loop E now ctx limit (n + 1) entries iter
           | Inr data \<Rightarrow>
               let (version, expiresAt, _) = DecodeEnvelope (store E) data in
               if \<not> IsExpired (store E) now expiresAt
               then expired_loop E now ctx limit (n + 1) entries iter
               else let entries = entries @ [\<lparr>EntryKey = itemKey, re_Version = version\<rparr>] in
                 if limit > 0 \<and> int (length entries) \<ge> limit then (entries, None)
                 else expired_loop E now ctx limit (n + 1) entries iter))"

definition ScanExpired ::
  "'db runtime \<Rightarrow> time \<Rightarrow> 'db KeyValueStorageCtx \<Rightarrow> (nat \<Rightarrow> go_error option) \<Rightarrow> int
   \<Rightarrow> ReclaimEntry list \<times> go_error option" where
  "ScanExpired E now this ctx limit =
     expired_loop E now ctx limit 0 [] (iterate (badger E) (db this) False [] [])"

fun reclaim_loop ::
  "'db runtime \<Rightarrow> 'db \<Rightarrow> bytes list \<Rightarrow> ReclaimEntry list \<Rightarrow> ('db \<times> bytes list) result" where
  "reclaim_loop E txn deleted [] = Inr (txn, deleted)"
| "reclaim_loop E txn deleted (e # es) =
     (case txn_Get (badger E) txn (EntryKey e) of
        Inl err \<Rightarrow> if err = ErrKeyNotFound then reclaim_loop E txn deleted es else Inl err
      | Inr it \<Rightarrow>
          (case ValueCopy it of
             Inl err \<Rightarrow> Inl (Wrapped ''reclaim read value error'' err)
           | Inr data \<Rightarrow>
               let version = fst (DecodeEnvelope (store E) data) in
               if version \<noteq> re_Version e then reclaim_loop E txn deleted es
               else (case txn_Delete (badger E) txn (EntryKey e) of
                       Inl err \<Rightarrow> Inl (Wrapped ''reclaim delete error'' err)
                     | Inr txn \<Rightarrow> reclaim_loop E txn (deleted @ [EntryKey e]) es)))"

definition Reclaim ::
  "'db runtime \<Rightarrow> 'db KeyValueStorageCtx \<Rightarrow> ReclaimRequest \<Rightarrow> nat result \<times> 'db KeyValueStorageCtx" where
  "Reclaim E this req =
     (if length (Entries req) = 0 then (Inr 0, this)
      else case reclaim_loop E (db this) [] (Entries req) of
        Inl e \<Rightarrow> (Inl e, this)
      | Inr (txn, deleted) \<Rightarrow>
          if length deleted = 0 then (Inr 0, this)
          else (case txn_Commit (badger E) txn of
                  Inl e \<Rightarrow> (Inl (Wrapped ''commit reclaim error'' e), this)
                | Inr d \<Rightarrow> (Inr (length deleted),
                            foldl (\<lambda>s key. notify s key [] WATCH_DELETE 0) (this\<lparr>db := d\<rparr>) deleted)))"

definition counterFromEnvelope :: "'db runtime \<Rightarrow> bytes \<Rightarrow> i64 \<Rightarrow> u64 \<times> i64" where
  "counterFromEnvelope E data fallback =
     (let (v, _, val) = DecodeEnvelope (store E) data in
      (v, if length val \<ge> 8 then unbe64 val else fallback))"

definition Increment ::
  "'db runtime \<Rightarrow> time \<Rightarrow> 'db KeyValueStorageCtx \<Rightarrow> IncrementRequest \<Rightarrow> u64
   \<Rightarrow> IncrementResponse result \<times> 'db KeyValueStorageCtx" where
  "Increment E now this req commitVersion =
     (case ir_Key req of
        None \<Rightarrow> (Inl ErrorEmptyKey, this)
      | Some key \<Rightarrow>
          let (entryKey, _) = EncodeKey (uuid E) key;
              current =
                (case txn_Get (badger E) (db this) entryKey of
                   Inr it \<Rightarrow>
                     (case ValueCopy it of
                        Inl e \<Rightarrow> Inl (Wrapped ''read counter error'' e)
                      | Inr data \<Rightarrow> Inr (counterFromEnvelope E data (ir_Initial req)))
                 | Inl e \<Rightarrow> if e \<noteq> ErrKeyNotFound then Inl e else Inr (0, ir_Initial req))
          in case current of
               Inl e \<Rightarrow> (Inl e, this)
             | Inr (oldVersion, prev) \<Rightarrow>
                 let counter = prev + ir_Delta req;
                     version = next_version commitVersion oldVersion;
                     expiresAt = resolveExpiry E now (ir_TtlSeconds req) (ir_ExpiresAt req);
                     buf = be64 counter;
                     envelope = EncodeEnvelope (store E) version expiresAt buf
                 in commit_entry E this ''update counter error'' ''commit increment error'' entryKey
                      envelope 0 buf version
                      \<lparr>Previous = prev, Current = counter, ir_Version = version\<rparr>)"

record change =
  ch_key :: bytes
  ch_value :: bytes
  ch_version :: i64

fun batch_loop ::
  "'db runtime \<Rightarrow> time \<Rightarrow> u64 \<Rightarrow> 'db \<Rightarrow> change list \<Rightarrow> RecordRequest list \<Rightarrow> ('db \<times> change list) result" where
  "batch_loop E now commitVersion txn pending [] = Inr (txn, pending)"
| "batch_loop E now commitVersion txn pending (record # rs) =
     (case rr_Key record of
        None \<Rightarrow> Inl ErrorEmptyKey
      | Some key \<Rightarrow>
          let (entryKey, _) = EncodeKey (uuid E) key;
              chosen =
                (if commitVersion \<noteq> 0 then Inr commitVersion
                 else case txn_Get (badger E) txn entryKey of
                   Inr it \<Rightarrow>
                     (case ValueCopy it of
                        Inr data \<Rightarrow> Inr (fst (counterFromEnvelope E data 0) + 1)
                      | Inl _ \<Rightarrow> Inr 1)
                 | Inl e \<Rightarrow> if e \<noteq> ErrKeyNotFound then Inl e else Inr 1)
          in case chosen of
               Inl e \<Rightarrow> Inl e
             | Inr version \<Rightarrow>
                 let expiresAt = resolveExpiry E now (rr_TtlSeconds record) (rr_ExpiresAt record);
                     envelope = EncodeEnvelope (store E) version expiresAt (rr_Value record)
                 in case txn_SetEntry (badger E) txn entryKey envelope (ucast (rr_Metadata record)) of
                      Inl e \<Rightarrow> Inl (Wrapped ''batch set entry error'' e)
                    | Inr txn \<Rightarrow>
                        batch_loop E now commitVersion txn
                          (pending @ [\<lparr>ch_key = entryKey, ch_value = rr_Value record,
                                       ch_version = version\<rparr>]) rs)"

definition SetBatch ::
  "'db runtime \<Rightarrow> time \<Rightarrow> 'db KeyValueStorageCtx \<Rightarrow> BatchRequest \<Rightarrow> u64
   \<Rightarrow> Status result \<times> 'db KeyValueStorageCtx" where
  "SetBatch E now this req commitVersion =
     (case batch_loop E now commitVersion (db this) [] (Records req) of
        Inl e \<Rightarrow> (Inl e, this)
      | Inr (txn, pending) \<Rightarrow>
          (case txn_Commit (badger E) txn of
             Inl e \<Rightarrow> (Inl (Wrapped ''commit batch error'' e), this)
           | Inr d \<Rightarrow>
               (Inr \<lparr>Updated = True\<rparr>,
                foldl (\<lambda>s c. notify s (ch_key c) (ch_value c) WATCH_SET (ch_version c))
                  (this\<lparr>db := d\<rparr>) pending)))"

definition Backup :: "'db runtime \<Rightarrow> 'db KeyValueStorageCtx \<Rightarrow> u64 \<Rightarrow> (bytes \<times> u64) result" where
  "Backup E this since = db_Backup (badger E) (db this) since"

text \<open>A load that fails midway leaves what it wrote.\<close>

definition Load ::
  "'db runtime \<Rightarrow> 'db KeyValueStorageCtx \<Rightarrow> bytes \<Rightarrow> go_error option \<times> 'db KeyValueStorageCtx" where
  "Load E this r = (let (err, d) = db_Load (badger E) (db this) r in (err, this\<lparr>db := d\<rparr>))"

end
