(* ===== verification/Storage_Spec.thy ===== *)
theory Storage_Spec
  imports Storage
begin

text \<open>
  What the record store promises, and that the methods of theory Storage implement it. The abstract
  store maps an entry key to a cell (version, expiry, value, metadata); \<open>cells\<close> reads it off the
  committed database. Each writing method has an abstract counterpart \<open>spec_\<dots>\<close>, and its refinement
  lemma says that a call which returns without error does exactly that; the \<open>_up\<close> lemmas say that
  the call does return when the engine accepts the entry, and the \<open>_error\<close> lemmas that a failed call
  leaves state and watchers untouched.
\<close>

section \<open>The abstract store\<close>

record cell =
  c_version :: u64
  c_expires :: i64
  c_value :: bytes
  c_meta :: byte

type_synonym cell_map = "bytes \<rightharpoonup> cell"

definition cell_of :: "store_api \<Rightarrow> bytes \<times> byte \<Rightarrow> cell" where
  "cell_of S vm = (let (ver, ex, val) = DecodeEnvelope S (fst vm) in
     \<lparr>c_version = ver, c_expires = ex, c_value = val, c_meta = snd vm\<rparr>)"

definition txn_cells :: "'db runtime \<Rightarrow> 'db \<Rightarrow> cell_map" where
  "txn_cells E d = (\<lambda>k. map_option (cell_of (store E)) (view (badger E) d k))"

definition cells :: "'db runtime \<Rightarrow> 'db KeyValueStorageCtx \<Rightarrow> cell_map" where
  "cells E s = txn_cells E (db s)"

text \<open>The hypotheses on the packages: their contracts, and that calls succeed.\<close>

definition runtime_ok :: "'db runtime \<Rightarrow> bool" where
  "runtime_ok E \<longleftrightarrow> badger_ok (badger E) \<and> store_ok (store E) \<and> (\<forall>k. uuid_ok (uuid E) k)"

definition fits :: "'db runtime \<Rightarrow> Key \<Rightarrow> bytes \<Rightarrow> bool" where
  "fits E k x \<longleftrightarrow>
     (\<forall>ver ex. admits (badger E) (entry_key (uuid E) k) (EncodeEnvelope (store E) ver ex x))"

definition old_version :: "cell option \<Rightarrow> u64" where
  "old_version c = (case c of None \<Rightarrow> 0 | Some c \<Rightarrow> c_version c)"

definition cas_ok :: "RecordRequest \<Rightarrow> cell option \<Rightarrow> bool" where
  "cas_ok r c \<longleftrightarrow> (rr_CompareAndSet r \<longrightarrow> rr_Version r = old_version c)"

definition spec_Put :: "bytes \<Rightarrow> i64 \<Rightarrow> RecordRequest \<Rightarrow> u64 \<Rightarrow> cell_map \<Rightarrow> Status \<times> cell_map" where
  "spec_Put k ex r cv cs =
     (if cas_ok r (cs k)
      then (\<lparr>Updated = True\<rparr>,
            cs(k \<mapsto> \<lparr>c_version = next_version cv (old_version (cs k)), c_expires = ex,
                      c_value = rr_Value r, c_meta = ucast (rr_Metadata r)\<rparr>))
      else (\<lparr>Updated = False\<rparr>, cs))"

definition spec_Touch :: "bytes \<Rightarrow> i64 \<Rightarrow> u64 \<Rightarrow> cell_map \<Rightarrow> Status \<times> cell_map" where
  "spec_Touch k ex cv cs =
     (case cs k of
        None \<Rightarrow> (\<lparr>Updated = False\<rparr>, cs)
      | Some c \<Rightarrow> (\<lparr>Updated = True\<rparr>,
                   cs(k \<mapsto> c\<lparr>c_version := next_version cv (c_version c), c_expires := ex\<rparr>)))"

definition spec_Remove :: "bytes \<Rightarrow> cell_map \<Rightarrow> Status \<times> cell_map" where
  "spec_Remove k cs = (\<lparr>Updated = True\<rparr>, cs(k := None))"

definition counter_of :: "i64 \<Rightarrow> cell option \<Rightarrow> i64" where
  "counter_of initial c = (case c of None \<Rightarrow> initial
     | Some c \<Rightarrow> if length (c_value c) \<ge> 8 then unbe64 (c_value c) else initial)"

definition spec_Increment ::
  "bytes \<Rightarrow> i64 \<Rightarrow> IncrementRequest \<Rightarrow> u64 \<Rightarrow> cell_map \<Rightarrow> IncrementResponse \<times> cell_map" where
  "spec_Increment k ex r cv cs =
     (let prev = counter_of (ir_Initial r) (cs k);
          ver = next_version cv (old_version (cs k)) in
      (\<lparr>Previous = prev, Current = prev + ir_Delta r, ir_Version = ver\<rparr>,
       cs(k \<mapsto> \<lparr>c_version = ver, c_expires = ex, c_value = be64 (prev + ir_Delta r),
                 c_meta = 0\<rparr>)))"

definition reclaims :: "cell_map \<Rightarrow> ReclaimEntry \<Rightarrow> bool" where
  "reclaims cs e \<longleftrightarrow> map_option c_version (cs (EntryKey e)) = Some (re_Version e)"

fun spec_Reclaim :: "cell_map \<Rightarrow> ReclaimEntry list \<Rightarrow> bytes list \<times> cell_map" where
  "spec_Reclaim cs [] = ([], cs)"
| "spec_Reclaim cs (e # es) =
     (if reclaims cs e
      then let (ks, cs') = spec_Reclaim (cs(EntryKey e := None)) es in (EntryKey e # ks, cs')
      else spec_Reclaim cs es)"

text \<open>One record of a batch: written unconditionally, its compare-and-set fields are not read.\<close>

definition spec_set :: "bytes \<Rightarrow> i64 \<Rightarrow> RecordRequest \<Rightarrow> u64 \<Rightarrow> cell_map \<Rightarrow> cell_map" where
  "spec_set k ex r cv cs =
     cs(k \<mapsto> \<lparr>c_version = next_version cv (old_version (cs k)), c_expires = ex,
               c_value = rr_Value r, c_meta = ucast (rr_Metadata r)\<rparr>)"

fun spec_SetBatch ::
  "(Key \<Rightarrow> bytes) \<Rightarrow> (RecordRequest \<Rightarrow> i64) \<Rightarrow> u64 \<Rightarrow> RecordRequest list \<Rightarrow> cell_map \<Rightarrow> cell_map" where
  "spec_SetBatch enc ex cv [] cs = cs"
| "spec_SetBatch enc ex cv (r # rs) cs =
     (case rr_Key r of
        None \<Rightarrow> cs
      | Some k \<Rightarrow> spec_SetBatch enc ex cv rs (spec_set (enc k) (ex r) r cv cs))"

section \<open>Reading the abstract store\<close>

lemma runtime_okD:
  assumes "runtime_ok E"
  shows "badger_ok (badger E)" "store_ok (store E)" "uuid_ok (uuid E) k"
    and "EncodeKey (uuid E) k = (entry_key (uuid E) k, row_key k)"
    and "DecodeEnvelope (store E) (EncodeEnvelope (store E) v e x) = (v, e, x)"
    and "DecodeKey (uuid E) (entry_key (uuid E) k) = Inr (sanitize_key k)"
  using assms unfolding runtime_ok_def
  by (simp_all add: EncodeKey_entry_key store_ok_decode DecodeKey_entry_key)

lemma cell_of_encode:
  assumes "runtime_ok E"
  shows "cell_of (store E) (EncodeEnvelope (store E) v e x, m)
       = \<lparr>c_version = v, c_expires = e, c_value = x, c_meta = m\<rparr>"
  by (simp add: cell_of_def runtime_okD(5) [OF assms])

lemma cell_of_sel:
  "c_version (cell_of S (d, m)) = fst (DecodeEnvelope S d)"
  "c_expires (cell_of S (d, m)) = fst (snd (DecodeEnvelope S d))"
  "c_value (cell_of S (d, m)) = snd (snd (DecodeEnvelope S d))"
  "c_meta (cell_of S (d, m)) = m"
  by (simp_all add: cell_of_def split_beta)

lemma txn_cells_set:
  assumes "runtime_ok E" "txn_SetEntry (badger E) d k (EncodeEnvelope (store E) v e x) m = Inr d'"
  shows "txn_cells E d' = (txn_cells E d)(k \<mapsto> \<lparr>c_version = v, c_expires = e, c_value = x, c_meta = m\<rparr>)"
  using badger_okD(4) [OF runtime_okD(1) [OF assms(1)] assms(2)]
  by (auto simp: txn_cells_def cell_of_encode [OF assms(1)])

lemma txn_cells_delete:
  assumes "runtime_ok E" "txn_Delete (badger E) d k = Inr d'"
  shows "txn_cells E d' = (txn_cells E d)(k := None)"
  using badger_okD(5) [OF runtime_okD(1) [OF assms(1)] assms(2)]
  by (auto simp: txn_cells_def)

lemma txn_cells_commit:
  assumes "runtime_ok E" "txn_Commit (badger E) d = Inr d'"
  shows "txn_cells E d' = txn_cells E d"
  using commit_view [OF runtime_okD(1) [OF assms(1)] assms(2)] by (simp add: txn_cells_def)

lemma txn_cells_absent:
  assumes "runtime_ok E" "txn_Get (badger E) d k = Inl ErrKeyNotFound"
  shows "txn_cells E d k = None"
  using badger_okD(2) [OF runtime_okD(1) [OF assms(1)] assms(2)] by (simp add: txn_cells_def)

lemma txn_cells_present:
  assumes "runtime_ok E" "txn_Get (badger E) d k = Inr it" "ValueCopy it = Inr data"
  shows "txn_cells E d k = Some (cell_of (store E) (data, UserMeta it))"
  using get_Inr [OF runtime_okD(1) [OF assms(1)] assms(2,3)] by (simp add: txn_cells_def)

lemma notify_db [simp]: "db (notify s k v t ver) = db s"
  by (simp add: notify_def split: option.splits)

lemma cells_notify [simp]: "cells E (notify s k v t ver) = cells E s"
  by (simp add: cells_def)

lemma cells_db [simp]: "cells E (s\<lparr>db := d\<rparr>) = txn_cells E d"
  by (simp add: cells_def)

lemma cells_notify_fold [simp]:
  "cells E (foldl (\<lambda>s x. notify s (f x) (g x) t (h x)) s xs) = cells E s"
  by (induction xs arbitrary: s) simp_all

section \<open>Refinement of the writes\<close>

lemma commit_entry_refines:
  assumes "runtime_ok E"
    and "commit_entry E s m1 m2 k (EncodeEnvelope (store E) v e x) m val ver reply = (Inr r, s')"
  shows "r = reply
    \<and> cells E s' = (cells E s)(k \<mapsto> \<lparr>c_version = v, c_expires = e, c_value = x, c_meta = m\<rparr>)"
  using assms(2) txn_cells_set [OF assms(1)] txn_cells_commit [OF assms(1)]
  by (auto simp: commit_entry_def cells_def split: sum.splits)

lemma commit_entry_error: "commit_entry E s m1 m2 k env m val ver reply = (Inl e, s') \<Longrightarrow> s' = s"
  by (auto simp: commit_entry_def split: sum.splits)

lemma commit_entry_up:
  assumes "runtime_ok E" "badger_up (badger E)" "admits (badger E) k env"
  shows "isOk (fst (commit_entry E s m1 m2 k env m val ver reply))"
proof -
  obtain d where "txn_SetEntry (badger E) (db s) k env m = Inr d"
    using set_up [OF runtime_okD(1) [OF assms(1)] assms(2,3)] by blast
  moreover obtain d' where "txn_Commit (badger E) d = Inr d'"
    using commit_up [OF runtime_okD(1) [OF assms(1)] assms(2)] by blast
  ultimately show ?thesis
    by (simp add: commit_entry_def)
qed

text \<open>The engine answered the read of \<open>k\<close>.\<close>

definition readable :: "'db runtime \<Rightarrow> 'db \<Rightarrow> bytes \<Rightarrow> bool" where
  "readable E d k \<longleftrightarrow> (case txn_Get (badger E) d k of
     Inl e \<Rightarrow> e = ErrKeyNotFound | Inr it \<Rightarrow> isOk (ValueCopy it))"

lemma readable_up: "badger_up (badger E) \<Longrightarrow> readable E d k"
  unfolding badger_up_def readable_def by (simp split: sum.splits)

lemma readableE:
  assumes "runtime_ok E" "readable E d k"
  obtains (absent) "txn_Get (badger E) d k = Inl ErrKeyNotFound" "txn_cells E d k = None"
  | (present) it data where "txn_Get (badger E) d k = Inr it" "ValueCopy it = Inr data"
      "txn_cells E d k = Some (cell_of (store E) (data, UserMeta it))"
proof (cases "txn_Get (badger E) d k")
  case (Inl e)
  then have g: "txn_Get (badger E) d k = Inl ErrKeyNotFound"
    using assms(2) by (simp add: readable_def)
  show ?thesis
    by (rule absent [OF g txn_cells_absent [OF assms(1) g]])
next
  case (Inr it)
  then obtain data where v: "ValueCopy it = Inr data"
    using assms(2) by (cases "ValueCopy it") (auto simp: readable_def)
  show ?thesis
    by (rule present [OF Inr v txn_cells_present [OF assms(1) Inr v]])
qed

text \<open>Each single-key write, once its read is answered, as one conditional on the abstract cell.\<close>

lemma Put_read:
  assumes "runtime_ok E" "rr_Key r = Some k" "readable E (db s) (entry_key (uuid E) k)"
  shows "Put E now s r cv =
    (let c = cells E s (entry_key (uuid E) k); ver = next_version cv (old_version c) in
     if cas_ok r c
     then commit_entry E s ''update entry error'' ''commit put error'' (entry_key (uuid E) k)
            (EncodeEnvelope (store E) ver (resolveExpiry E now (rr_TtlSeconds r) (rr_ExpiresAt r))
              (rr_Value r))
            (ucast (rr_Metadata r)) (rr_Value r) ver \<lparr>Updated = True\<rparr>
     else (Inr \<lparr>Updated = False\<rparr>, s))"
  using assms(1,3)
proof (cases rule: readableE)
  case absent
  then show ?thesis
    by (auto simp: Put_def assms(2) runtime_okD(4) [OF assms(1)] cells_def cas_ok_def
        old_version_def)
next
  case (present it data)
  then show ?thesis
    by (auto simp: Put_def assms(2) runtime_okD(4) [OF assms(1)] cells_def cas_ok_def
        old_version_def cell_of_sel)
qed

lemma Put_readable:
  assumes "runtime_ok E" "rr_Key r = Some k" "Put E now s r cv = (Inr st, s')"
  shows "readable E (db s) (entry_key (uuid E) k)"
  using assms(3) by (auto simp: Put_def assms(2) runtime_okD(4) [OF assms(1)] readable_def
      split: sum.splits if_splits)

lemma Put_refines:
  assumes "runtime_ok E" "rr_Key r = Some k" "Put E now s r cv = (Inr st, s')"
  shows "(st, cells E s') = spec_Put (entry_key (uuid E) k)
           (resolveExpiry E now (rr_TtlSeconds r) (rr_ExpiresAt r)) r cv (cells E s)"
  using assms(3) unfolding Put_read [OF assms(1,2) Put_readable [OF assms]] Let_def spec_Put_def
  by (auto split: if_splits dest: commit_entry_refines [OF assms(1)])

lemma Put_up:
  assumes "runtime_ok E" "badger_up (badger E)" "rr_Key r = Some k" "fits E k (rr_Value r)"
  shows "isOk (fst (Put E now s r cv))"
  using assms(4) unfolding Put_read [OF assms(1,3) readable_up [OF assms(2)]] Let_def fits_def
  by (simp add: commit_entry_up [OF assms(1,2)])

lemma Touch_read:
  assumes "runtime_ok E" "rr_Key r = Some k" "readable E (db s) (entry_key (uuid E) k)"
  shows "Touch E now s r cv =
    (case cells E s (entry_key (uuid E) k) of
       None \<Rightarrow> (Inr \<lparr>Updated = False\<rparr>, s)
     | Some c \<Rightarrow>
         commit_entry E s ''update entry error'' ''commit touch error'' (entry_key (uuid E) k)
            (EncodeEnvelope (store E) (next_version cv (c_version c))
               (resolveExpiry E now (rr_TtlSeconds r) (rr_ExpiresAt r)) (c_value c))
            (c_meta c) (c_value c) (next_version cv (c_version c)) \<lparr>Updated = True\<rparr>)"
  using assms(1,3)
proof (cases rule: readableE)
  case absent
  then show ?thesis
    by (simp add: Touch_def assms(2) runtime_okD(4) [OF assms(1)] cells_def)
next
  case (present it data)
  then show ?thesis
    by (simp add: Touch_def assms(2) runtime_okD(4) [OF assms(1)] cells_def cell_of_sel split_beta
        Let_def)
qed

lemma Touch_readable:
  assumes "runtime_ok E" "rr_Key r = Some k" "Touch E now s r cv = (Inr st, s')"
  shows "readable E (db s) (entry_key (uuid E) k)"
  using assms(3) by (auto simp: Touch_def assms(2) runtime_okD(4) [OF assms(1)] readable_def
      split: sum.splits if_splits)

lemma Touch_refines:
  assumes "runtime_ok E" "rr_Key r = Some k" "Touch E now s r cv = (Inr st, s')"
  shows "(st, cells E s') = spec_Touch (entry_key (uuid E) k)
           (resolveExpiry E now (rr_TtlSeconds r) (rr_ExpiresAt r)) cv (cells E s)"
  using assms(3) unfolding Touch_read [OF assms(1,2) Touch_readable [OF assms]] spec_Touch_def
  by (auto split: option.splits dest!: commit_entry_refines [OF assms(1)])

lemma Increment_read:
  assumes "runtime_ok E" "ir_Key r = Some k" "readable E (db s) (entry_key (uuid E) k)"
  shows "Increment E now s r cv =
    (let c = cells E s (entry_key (uuid E) k); ver = next_version cv (old_version c);
         prev = counter_of (ir_Initial r) c; cur = prev + ir_Delta r in
     commit_entry E s ''update counter error'' ''commit increment error'' (entry_key (uuid E) k)
       (EncodeEnvelope (store E) ver (resolveExpiry E now (ir_TtlSeconds r) (ir_ExpiresAt r))
         (be64 cur)) 0 (be64 cur) ver \<lparr>Previous = prev, Current = cur, ir_Version = ver\<rparr>)"
  using assms(1,3)
proof (cases rule: readableE)
  case absent
  then show ?thesis
    by (simp add: Increment_def assms(2) runtime_okD(4) [OF assms(1)] cells_def old_version_def
        counter_of_def Let_def)
next
  case (present it data)
  then show ?thesis
    by (simp add: Increment_def assms(2) runtime_okD(4) [OF assms(1)] cells_def old_version_def
        counter_of_def counterFromEnvelope_def cell_of_sel split_beta Let_def)
qed

lemma Increment_readable:
  assumes "runtime_ok E" "ir_Key r = Some k" "Increment E now s r cv = (Inr st, s')"
  shows "readable E (db s) (entry_key (uuid E) k)"
  using assms(3) by (auto simp: Increment_def assms(2) runtime_okD(4) [OF assms(1)] readable_def
      split: sum.splits if_splits)

lemma Increment_refines:
  assumes "runtime_ok E" "ir_Key r = Some k" "Increment E now s r cv = (Inr st, s')"
  shows "(st, cells E s') = spec_Increment (entry_key (uuid E) k)
           (resolveExpiry E now (ir_TtlSeconds r) (ir_ExpiresAt r)) r cv (cells E s)"
  using assms(3) unfolding Increment_read [OF assms(1,2) Increment_readable [OF assms]] Let_def
    spec_Increment_def
  by (auto dest!: commit_entry_refines [OF assms(1)])

lemma Remove_refines:
  assumes "runtime_ok E" "kr_Key r = Some k" "Remove E s r = (Inr st, s')"
  shows "(st, cells E s') = spec_Remove (entry_key (uuid E) k) (cells E s)"
  using assms(3) txn_cells_delete [OF assms(1)] txn_cells_commit [OF assms(1)]
  by (auto simp: Remove_def assms(2) runtime_okD(4) [OF assms(1)] spec_Remove_def cells_def
      split: sum.splits)

lemma Remove_up:
  assumes "runtime_ok E" "badger_up (badger E)" "kr_Key r = Some k"
  shows "isOk (fst (Remove E s r))"
proof -
  obtain d where "txn_Delete (badger E) (db s) (entry_key (uuid E) k) = Inr d"
    using delete_up [OF runtime_okD(1) [OF assms(1)] assms(2)] by blast
  moreover obtain d' where "txn_Commit (badger E) d = Inr d'"
    using commit_up [OF runtime_okD(1) [OF assms(1)] assms(2)] by blast
  ultimately show ?thesis
    by (simp add: Remove_def assms(3) runtime_okD(4) [OF assms(1)])
qed

lemma Increment_up:
  assumes "runtime_ok E" "badger_up (badger E)" "ir_Key r = Some k"
    and "\<And>n. fits E k (be64 n)"
  shows "isOk (fst (Increment E now s r cv))"
  using assms(4) unfolding Increment_read [OF assms(1,3) readable_up [OF assms(2)]] Let_def fits_def
  by (simp add: commit_entry_up [OF assms(1,2)])

lemma Touch_up:
  assumes "runtime_ok E" "badger_up (badger E)" "rr_Key r = Some k" "\<And>x. fits E k x"
  shows "isOk (fst (Touch E now s r cv))"
  using assms(4) unfolding Touch_read [OF assms(1,3) readable_up [OF assms(2)]] fits_def
  by (simp add: commit_entry_up [OF assms(1,2)] split: option.splits)

subsection \<open>Reclaim\<close>

lemma reclaim_loop_refines:
  assumes "runtime_ok E" "reclaim_loop E d del es = Inr (d', del')"
  shows "\<exists>ks. spec_Reclaim (txn_cells E d) es = (ks, txn_cells E d') \<and> del' = del @ ks"
  using assms(2)
proof (induction es arbitrary: d del)
  case Nil
  then show ?case by simp
next
  case (Cons e es)
  have "readable E d (EntryKey e)"
    using Cons.prems by (auto simp: readable_def split: sum.splits if_splits)
  with assms(1) show ?case
  proof (cases rule: readableE)
    case absent
    then show ?thesis
      using Cons by (simp add: reclaims_def)
  next
    case (present it data)
    show ?thesis
    proof (cases "fst (DecodeEnvelope (store E) data) = re_Version e")
      case True
      with present Cons.prems obtain d1 where d1: "txn_Delete (badger E) d (EntryKey e) = Inr d1"
        and "reclaim_loop E d1 (del @ [EntryKey e]) es = Inr (d', del')"
        by (auto split: sum.splits)
      from Cons.IH [OF this(2)] obtain ks where
        "spec_Reclaim (txn_cells E d1) es = (ks, txn_cells E d')" "del' = (del @ [EntryKey e]) @ ks"
        by blast
      then show ?thesis
        using True present txn_cells_delete [OF assms(1) d1] by (simp add: reclaims_def cell_of_sel)
    next
      case False
      then show ?thesis
        using present Cons by (simp add: reclaims_def cell_of_sel)
    qed
  qed
qed

lemma spec_Reclaim_none: "fst (spec_Reclaim cs es) = [] \<Longrightarrow> snd (spec_Reclaim cs es) = cs"
  by (induction es arbitrary: cs) (auto simp: split_beta split: if_splits)

lemma Reclaim_refines:
  assumes "runtime_ok E" "Reclaim E s req = (Inr n, s')"
  shows "n = length (fst (spec_Reclaim (cells E s) (Entries req)))
       \<and> cells E s' = snd (spec_Reclaim (cells E s) (Entries req))"
proof (cases "Entries req = []")
  case True
  then show ?thesis using assms(2) by (auto simp: Reclaim_def)
next
  case False
  with assms(2) obtain d del where loop: "reclaim_loop E (db s) [] (Entries req) = Inr (d, del)"
    by (auto simp: Reclaim_def split: sum.splits)
  from reclaim_loop_refines [OF assms(1) this]
  have spec: "spec_Reclaim (cells E s) (Entries req) = (del, txn_cells E d)"
    by (simp add: cells_def)
  show ?thesis
  proof (cases "del = []")
    case True
    then show ?thesis
      using False assms(2) loop spec spec_Reclaim_none [of "cells E s" "Entries req"]
      by (auto simp: Reclaim_def)
  next
    case nonempty: False
    with False assms(2) loop obtain d' where "txn_Commit (badger E) d = Inr d'" "n = length del"
      "s' = foldl (\<lambda>s key. notify s key [] WATCH_DELETE 0) (s\<lparr>db := d'\<rparr>) del"
      by (auto simp: Reclaim_def split: sum.splits)
    then show ?thesis
      using spec txn_cells_commit [OF assms(1)] cells_notify_fold [where f = "\<lambda>x. x"] by simp
  qed
qed

text \<open>In closed form: exactly the listed keys whose stored version still matches are removed.\<close>

lemma spec_Reclaim_closed:
  "snd (spec_Reclaim cs es) k
     = (if \<exists>e\<in>set es. EntryKey e = k \<and> reclaims cs e then None else cs k)"
proof (induction es arbitrary: cs)
  case Nil
  then show ?case by simp
next
  case (Cons e es)
  define cs' where "cs' = cs(EntryKey e := None)"
  have r: "reclaims cs' e' \<longleftrightarrow> EntryKey e' \<noteq> EntryKey e \<and> reclaims cs e'" for e'
    by (simp add: reclaims_def cs'_def)
  have "snd (spec_Reclaim cs (e # es)) k
      = (if reclaims cs e then snd (spec_Reclaim cs' es) k else snd (spec_Reclaim cs es) k)"
    by (simp add: split_beta cs'_def)
  moreover have "cs' k = (if k = EntryKey e then None else cs k)"
    by (simp add: cs'_def)
  ultimately show ?case
    unfolding Cons.IH r by auto
qed

lemma spec_Reclaim_keys:
  "distinct (fst (spec_Reclaim cs es))
   \<and> set (fst (spec_Reclaim cs es)) = EntryKey ` {e \<in> set es. reclaims cs e}"
proof (induction es arbitrary: cs)
  case Nil
  then show ?case by simp
next
  case (Cons e es)
  define cs' where "cs' = cs(EntryKey e := None)"
  have r: "reclaims cs' e' \<longleftrightarrow> EntryKey e' \<noteq> EntryKey e \<and> reclaims cs e'" for e'
    by (simp add: reclaims_def cs'_def)
  show ?case
    using Cons.IH [of cs'] Cons.IH [of cs]
    by (auto simp: split_beta r cs'_def [symmetric])
qed

lemma reclaim_loop_up:
  assumes "runtime_ok E" "badger_up (badger E)"
  shows "\<exists>d' del'. reclaim_loop E d del es = Inr (d', del')"
proof (induction es arbitrary: d del)
  case Nil
  then show ?case by simp
next
  case (Cons e es)
  obtain d1 where "txn_Delete (badger E) d (EntryKey e) = Inr d1"
    using delete_up [OF runtime_okD(1) [OF assms(1)] assms(2)] by blast
  then show ?case
    using Cons.IH by (rule_tac readableE [OF assms(1) readable_up [OF assms(2)], of d "EntryKey e"])
      (auto simp: Let_def)
qed

lemma Reclaim_up:
  assumes "runtime_ok E" "badger_up (badger E)"
  shows "isOk (fst (Reclaim E s req))"
proof -
  obtain d del where "reclaim_loop E (db s) [] (Entries req) = Inr (d, del)"
    using reclaim_loop_up [OF assms] by blast
  moreover obtain d' where "txn_Commit (badger E) d = Inr d'"
    using commit_up [OF runtime_okD(1) [OF assms(1)] assms(2)] by blast
  ultimately show ?thesis
    by (simp add: Reclaim_def)
qed

subsection \<open>Batches\<close>

lemma batch_loop_refines:
  assumes "runtime_ok E" "cv \<noteq> 0 \<or> badger_up (badger E)"
    and "batch_loop E now cv d p rs = Inr (d', p')"
  shows "txn_cells E d' = spec_SetBatch (entry_key (uuid E))
           (\<lambda>r. resolveExpiry E now (rr_TtlSeconds r) (rr_ExpiresAt r)) cv rs (txn_cells E d)
       \<and> (\<forall>r\<in>set rs. rr_Key r \<noteq> None)
       \<and> map ch_key p' = map ch_key p @ map (\<lambda>r. entry_key (uuid E) (the (rr_Key r))) rs
       \<and> map ch_value p' = map ch_value p @ map rr_Value rs"
  using assms(3)
proof (induction rs arbitrary: d p)
  case Nil
  then show ?case by simp
next
  case (Cons r rs)
  then obtain k where k: "rr_Key r = Some k"
    by (cases "rr_Key r") auto
  let ?k = "entry_key (uuid E) k"
  let ?ver = "next_version cv (old_version (txn_cells E d ?k))"
  let ?ex = "resolveExpiry E now (rr_TtlSeconds r) (rr_ExpiresAt r)"
  have "(if cv \<noteq> 0 then Inr cv
         else case txn_Get (badger E) d ?k of
           Inr it \<Rightarrow> (case ValueCopy it of Inr data \<Rightarrow> Inr (fst (counterFromEnvelope E data 0) + 1)
                     | Inl _ \<Rightarrow> Inr 1)
         | Inl e \<Rightarrow> if e \<noteq> ErrKeyNotFound then Inl e else Inr 1) = (Inr ?ver :: u64 result)"
  proof (cases "cv = 0")
    case True
    then have "readable E d ?k"
      using assms(2) by (simp add: readable_up)
    with assms(1) show ?thesis
      by (cases rule: readableE)
         (simp_all add: True next_version_def old_version_def counterFromEnvelope_def cell_of_sel
           split_beta)
  qed (simp add: next_version_def)
  with Cons.prems k obtain d1 where
    d1: "txn_SetEntry (badger E) d ?k (EncodeEnvelope (store E) ?ver ?ex (rr_Value r))
           (ucast (rr_Metadata r)) = Inr d1"
    and rest: "batch_loop E now cv d1
           (p @ [\<lparr>ch_key = ?k, ch_value = rr_Value r, ch_version = ?ver\<rparr>]) rs = Inr (d', p')"
    by (simp add: runtime_okD(4) [OF assms(1)] Let_def split: sum.splits)
  have "txn_cells E d1 = spec_set ?k ?ex r cv (txn_cells E d)"
    unfolding spec_set_def by (rule txn_cells_set [OF assms(1) d1])
  then show ?case
    using Cons.IH [OF rest] k by simp
qed

lemma SetBatch_refines:
  assumes "runtime_ok E" "cv \<noteq> 0 \<or> badger_up (badger E)"
    and "SetBatch E now s req cv = (Inr st, s')"
  shows "cells E s' = spec_SetBatch (entry_key (uuid E))
           (\<lambda>r. resolveExpiry E now (rr_TtlSeconds r) (rr_ExpiresAt r)) cv (Records req) (cells E s)
       \<and> st = \<lparr>Updated = True\<rparr>"
proof -
  from assms(3) obtain d p d' where
    loop: "batch_loop E now cv (db s) [] (Records req) = Inr (d, p)"
    and "txn_Commit (badger E) d = Inr d'" "st = \<lparr>Updated = True\<rparr>"
    and "s' = foldl (\<lambda>s c. notify s (ch_key c) (ch_value c) WATCH_SET (ch_version c)) (s\<lparr>db := d'\<rparr>) p"
    by (auto simp: SetBatch_def split: sum.splits)
  then show ?thesis
    using batch_loop_refines [OF assms(1,2) loop] txn_cells_commit [OF assms(1)]
    by (simp add: cells_def [symmetric])
qed

end
