(* ===== verification/Instances.thy ===== *)
theory Instances
  imports Storage_Spec
begin

text \<open>
  Concrete functions for the package parameters: an ordered association list for the engine, a
  17-byte header (version, expiry, flag) for the value envelope, and the sixteen big-endian bytes for
  a time UUID. The contracts of theory Engine are proved for them, so they are satisfiable; they
  are the arguments of the concrete runs in the witness lemmas.
\<close>

section \<open>Engine\<close>

fun upd_entry :: "bytes \<Rightarrow> bytes \<times> byte \<Rightarrow> entries \<Rightarrow> entries" where
  "upd_entry k v [] = [(k, v)]"
| "upd_entry k v ((k', v') # ps) =
     (if k < k' then (k, v) # (k', v') # ps
      else if k = k' then (k, v) # ps
      else (k', v') # upd_entry k v ps)"

definition canon :: "entries \<Rightarrow> entries" where
  "canon d = foldr (\<lambda>(k, v). upd_entry k v) d []"

lemma upd_entry_keys: "set (map fst (upd_entry k v ps)) = insert k (set (map fst ps))"
  by (induction k v ps rule: upd_entry.induct) (simp_all add: insert_commute)

lemma upd_entry_ordered: "ordered_keys ps \<Longrightarrow> ordered_keys (upd_entry k v ps)"
proof (induction ps)
  case Nil
  then show ?case by simp
next
  case (Cons p ps)
  obtain k' v' where p: "p = (k', v')" by (cases p)
  have "\<forall>x \<in> set (map fst (upd_entry k v ps)). k' < x" if "k' < k"
    unfolding upd_entry_keys using Cons.prems p that by auto
  with Cons p show ?case
    by (auto simp: not_less_iff_gr_or_eq)
qed

lemma upd_entry_map_of: "map_of (upd_entry k v ps) = (map_of ps)(k \<mapsto> v)"
  by (induction ps) (auto simp: fun_eq_iff)

lemma canon_ordered: "ordered_keys (canon d)"
  unfolding canon_def by (induction d) (auto simp: upd_entry_ordered)

lemma canon_map_of: "map_of (canon d) = map_of d"
  unfolding canon_def by (induction d) (auto simp: upd_entry_map_of fun_eq_iff)

lemma canon_id: "ordered_keys ps \<Longrightarrow> canon ps = ps"
  by (rule ordered_map_of_inject) (simp_all add: canon_ordered canon_map_of)

text \<open>A dump: every byte behind a marker, so that no length is bounded.\<close>

fun enc_bytes :: "bytes \<Rightarrow> bytes" where
  "enc_bytes [] = [0]"
| "enc_bytes (x # xs) = 1 # x # enc_bytes xs"

fun dec_bytes :: "bytes \<Rightarrow> bytes \<times> bytes" where
  "dec_bytes (t # x # r) = (if t = 0 then ([], x # r) else let (xs, r') = dec_bytes r in (x # xs, r'))"
| "dec_bytes [t] = ([], [])"
| "dec_bytes [] = ([], [])"

lemma dec_enc_bytes: "dec_bytes (enc_bytes x @ r) = (x, r)"
proof (induction x)
  case Nil
  then show ?case by (cases r) auto
qed auto

fun dump :: "entries \<Rightarrow> bytes" where
  "dump [] = []"
| "dump ((k, v, m) # ps) = enc_bytes k @ enc_bytes v @ m # dump ps"

fun undump :: "nat \<Rightarrow> bytes \<Rightarrow> entries" where
  "undump 0 b = []"
| "undump (Suc n) b =
     (if b = [] then []
      else let (k, b) = dec_bytes b; (v, b) = dec_bytes b in
        case b of [] \<Rightarrow> [] | m # b \<Rightarrow> (k, v, m) # undump n b)"

lemma enc_bytes_nonempty: "enc_bytes x \<noteq> []"
  by (cases x) auto

lemma undump_dump: "length ps \<le> n \<Longrightarrow> undump n (dump ps) = ps"
proof (induction ps arbitrary: n)
  case Nil
  then show ?case by (cases n) auto
next
  case (Cons p ps)
  then obtain n' where n: "n = Suc n'" "length ps \<le> n'"
    by (cases n) auto
  obtain k v m where p: "p = (k, v, m)"
    by (cases p)
  show ?case
    using Cons.IH n by (simp add: p dec_enc_bytes enc_bytes_nonempty)
qed

lemma length_dump: "length ps \<le> length (dump ps)"
  by (induction ps rule: dump.induct) auto

definition mem_item :: "bytes \<times> byte \<Rightarrow> item" where
  "mem_item vm = \<lparr>ValueCopy = Inr (fst vm), UserMeta = snd vm,
                  EstimatedSize = word_of_nat (length (fst vm))\<rparr>"

definition mem_badger :: "entries badger_api" where
  "mem_badger = \<lparr>
     contents = canon,
     admits = (\<lambda>k v. True),
     txn_Get = (\<lambda>d k. case map_of (canon d) k of
                   None \<Rightarrow> Inl ErrKeyNotFound | Some vm \<Rightarrow> Inr (mem_item vm)),
     txn_SetEntry = (\<lambda>d k v m. Inr (upd_entry k (v, m) (canon d))),
     txn_Delete = (\<lambda>d k. Inr (filter (\<lambda>p. fst p \<noteq> k) (canon d))),
     txn_Commit = Inr,
     iterate = (\<lambda>d r p s. map (\<lambda>(k, vm). (k, mem_item vm)) (scan_entries (canon d) r p s)),
     db_Backup = (\<lambda>d since. Inr (dump (canon d), 0)),
     db_Load = (\<lambda>d b. (None, foldr (\<lambda>(k, v). upd_entry k v) (undump (length b) b) (canon d)))\<rparr>"

lemma map_of_filter_key: "map_of (filter (\<lambda>p. fst p \<noteq> k) ps) = (map_of ps)(k := None)"
  by (induction ps) (auto simp: fun_eq_iff)

lemma mem_badger_ok: "badger_ok mem_badger"
proof -
  have "list_all2 (\<lambda>(k, it) (k', vm). k = k' \<and> item_shows it vm)
          (map (\<lambda>(k, vm). (k, mem_item vm)) ps) ps" for ps
    by (induction ps) (auto simp: mem_item_def item_shows_def)
  then show ?thesis
    by (auto simp: badger_ok_def mem_badger_def view_def canon_ordered canon_map_of upd_entry_map_of
        map_of_filter_key mem_item_def item_shows_def split: option.splits)
qed

lemma mem_badger_up: "badger_up mem_badger"
  by (auto simp: badger_up_def mem_badger_def mem_item_def split: option.splits sum.splits)

lemma foldr_upd_map_of:
  "map_of (foldr (\<lambda>(k, v). upd_entry k v) ps d) = map_of d ++ map_of ps"
  by (induction ps) (auto simp: upd_entry_map_of fun_eq_iff map_add_def)

lemma mem_dump_ok: "dump_ok mem_badger"
  unfolding dump_ok_def
proof (intro allI impI)
  fix d d0 d' :: entries and w ver
  assume b: "db_Backup mem_badger d 0 = Inr (w, ver)" and l: "db_Load mem_badger d0 w = (None, d')"
  then have d': "map_of d' = map_of d0 ++ map_of d"
    using undump_dump [OF length_dump, of "canon d"]
    by (auto simp: mem_badger_def foldr_upd_map_of canon_map_of)
  have "contents mem_badger d' = contents mem_badger d" if "contents mem_badger d0 = []"
    using that d' by (intro ordered_map_of_inject)
      (auto simp: mem_badger_def canon_ordered canon_map_of simp flip: canon_map_of [of d0])
  then show "(contents mem_badger d0 = [] \<longrightarrow> contents mem_badger d' = contents mem_badger d) \<and>
        (\<forall>k. view mem_badger d k = None \<longrightarrow> view mem_badger d' k = view mem_badger d0 k)"
    using d' by (auto simp: mem_badger_def view_def canon_map_of map_add_def)
qed

section \<open>Envelope, clock and time UUID\<close>

definition mem_store :: store_api where
  "mem_store = \<lparr>
     EncodeEnvelope = (\<lambda>v e x. be64 v @ be64 e @ 0 # x),
     DecodeEnvelope = (\<lambda>d. (unbe64 d, unbe64 (drop 8 d), drop 17 d)),
     IsExpired = (\<lambda>now e. e \<noteq> 0 \<and> sint e \<le> now),
     ExpiryFromTtl = (\<lambda>now ttl. word_of_int (now + sint ttl))\<rparr>"

lemma mem_store_ok: "store_ok mem_store"
  by (simp add: store_ok_def mem_store_def)

definition mem_uuid :: uuid_api where
  "mem_uuid = \<lparr>
     MarshalSortable = (\<lambda>ts. be64 (MostSigBits ts) @ be64 (LeastSigBits ts)),
     UnmarshalSortable = (\<lambda>b. \<lparr>MostSigBits = unbe64 b, LeastSigBits = unbe64 (drop 8 b)\<rparr>)\<rparr>"

lemma mem_uuid_ok: "uuid_ok mem_uuid k"
  by (auto simp: uuid_ok_def mem_uuid_def SizeOfUUID_def split: option.splits)

definition mem_runtime :: "entries runtime" where
  "mem_runtime = \<lparr>badger = mem_badger, store = mem_store, uuid = mem_uuid\<rparr>"

lemma mem_runtime_sel [simp]:
  "badger mem_runtime = mem_badger" "store mem_runtime = mem_store" "uuid mem_runtime = mem_uuid"
  by (simp_all add: mem_runtime_def)

lemma mem_runtime_ok: "runtime_ok mem_runtime"
  by (simp add: runtime_ok_def mem_badger_ok mem_store_ok mem_uuid_ok)

lemma mem_runtime_up: "badger_up (badger mem_runtime)"
  by (simp add: mem_badger_up)

lemma mem_fits: "fits mem_runtime k x"
  by (simp add: fits_def mem_badger_def)

text \<open>An empty node: nothing stored, a hub without events.\<close>

definition mem_empty :: "entries KeyValueStorageCtx" where
  "mem_empty = \<lparr>db = [], hub = Some []\<rparr>"

lemma mem_empty_cells: "cells mem_runtime mem_empty = Map.empty"
  by (simp add: cells_def txn_cells_def view_def mem_empty_def mem_badger_def canon_def fun_eq_iff)

text \<open>A key of the records namespace.\<close>

definition text_key :: "string \<Rightarrow> string \<Rightarrow> string \<Rightarrow> Key" where
  "text_key major region minor =
     \<lparr>MajorKey = bytes_of major, RegionName = bytes_of region, MinorKey = bytes_of minor,
      Timestamp = None\<rparr>"

end
