(* ===== verification/Key_Props.thy ===== *)
theory Key_Props
  imports Instances
begin

text \<open>Properties of the storage key codec (pkg/server/key.go).\<close>

text \<open>C6 Round trip: decoding an encoded key returns the key with each field cut to 65535 bytes, and
  so the key itself when its fields fit.\<close>

theorem key_round_trip:
  assumes "uuid_ok U k"
  shows "DecodeKey U (fst (EncodeKey U k)) = Inr (sanitize_key k) \<and> (key_fits k \<longrightarrow> sanitize_key k = k)"
  using assms by (simp add: EncodeKey_entry_key DecodeKey_entry_key sanitize_key_fits)

theorem key_round_trip_witness:
  "DecodeKey mem_uuid (fst (EncodeKey mem_uuid (text_key ''t'' ''r'' ''m''))) = Inr (text_key ''t'' ''r'' ''m'')"
  using key_round_trip [OF mem_uuid_ok, of "text_key ''t'' ''r'' ''m''"]
  by (simp add: key_fits_def text_key_def MaxKeyLength_def)

text \<open>Injectivity: two keys whose fields fit share an entry key exactly when \<open>Equal\<close> holds of them,
  time UUIDs included.\<close>

lemma encode_injective:
  assumes "uuid_ok U k" "uuid_ok U k'" "key_fits k" "key_fits k'"
  shows "fst (EncodeKey U k) = fst (EncodeKey U k') \<longleftrightarrow> Equal k k'"
  using assms by (simp add: EncodeKey_entry_key entry_key_inject Equal_eq)

text \<open>C3 Prefix scans are exact: the encoded prefix of a key up to its tenant, region or minor key
  matches the entry keys that agree on those fields, and no others. A scan of one tenant never
  returns a record of a tenant whose name merely starts with the same bytes.\<close>

theorem prefix_scan_exact:
  assumes "uuid_ok U k" "key_fits p" "key_fits k" "f \<noteq> TimestampField"
    and "EncodeKeyPrefix U p f = Inr b"
  shows "prefix b (fst (EncodeKey U k)) \<longleftrightarrow> key_fields p f = key_fields k f"
  using assms prefix_entry_key [OF assms(5,4), of k]
  by (simp add: EncodeKey_entry_key sanitize_key_fits)

theorem prefix_scan_exact_witness:
  "\<exists>b. EncodeKeyPrefix mem_uuid (text_key ''acme'' '''' '''') MajorKeyField = Inr b
     \<and> prefix b (fst (EncodeKey mem_uuid (text_key ''acme'' ''r'' ''m'')))
     \<and> \<not> prefix b (fst (EncodeKey mem_uuid (text_key ''acmecorp'' ''r'' ''m'')))"
proof -
  let ?p = "text_key ''acme'' '''' ''''"
  obtain b where b: "EncodeKeyPrefix mem_uuid ?p MajorKeyField = Inr b"
    by (simp add: EncodeKeyPrefix_layout)
  have fit: "key_fits (text_key t r m)" if "length t + length r + length m < 100" for t r m
    using that by (simp add: key_fits_def text_key_def MaxKeyLength_def)
  show ?thesis
    using b prefix_scan_exact [OF mem_uuid_ok fit fit _ b, of "''acme''" "''r''" "''m''"]
      prefix_scan_exact [OF mem_uuid_ok fit fit _ b, of "''acmecorp''" "''r''" "''m''"]
    by (auto simp: text_key_def)
qed

text \<open>C35 A malformed key is not always an error value: a byte string of at least six bytes whose
  first length field spans it exactly makes \<open>DecodeKey\<close> read a 16-bit length past its end and panic.\<close>

theorem decode_truncated_panics:
  assumes "4 \<le> length x" "length x < 65536"
  shows "DecodeKey U (be_bytes 2 (length x) @ x) = Inl Panic"
proof -
  have "be_nat (be_bytes 2 (length x)) = length x"
    by (rule be_nat_be_bytes_small) (use assms in simp)
  then have "decode_field (be_bytes 2 (length x) @ x) 0 = Inr (x, 2 + length x)"
    by (simp add: decode_field_def BigEndian_Uint16_def Let_def)
  moreover have "decode_field (be_bytes 2 (length x) @ x) (2 + length x) = Inl Panic"
    by (simp add: decode_field_def BigEndian_Uint16_def)
  ultimately show ?thesis
    using assms by (simp add: DecodeKey_def)
qed

theorem decode_truncated_panics_witness:
  "DecodeKey mem_uuid [0, 4, 1, 2, 3, 4] = Inl Panic"
  using decode_truncated_panics [of "[1, 2, 3, 4]" mem_uuid] by (simp add: numeral_2_eq_2)

end
