(* ===== verification/Storage_Reads.thy ===== *)
theory Storage_Reads
  imports Storage_Spec
begin

text \<open>
  The reading methods of pkg/server/storage.go against the abstract store: what \<open>Get\<close> and
  \<open>GetRecent\<close> answer, what \<open>GetRange\<close>, \<open>GetArea\<close> and \<open>Scan\<close> return or stream, and what
  \<open>ScanExpired\<close> proposes. The locale \<open>block_sender\<close> is the \<open>BlockSender\<close> interface; its clients'
  delivery lemma is proved once for every implementation. The section on the key invariant shows
  that every write keeps the stored keys decodable, which is what the scans need.
\<close>

section \<open>The key invariant\<close>

definition keys_wf :: "'db runtime \<Rightarrow> 'db KeyValueStorageCtx \<Rightarrow> bool" where
  "keys_wf E s \<longleftrightarrow> (\<forall>k \<in> dom (cells E s). \<exists>key. key_fits key \<and> k = entry_key (uuid E) key)"

lemma key_fits_sanitize: "key_fits (sanitize_key k)"
  by (simp add: key_fits_def sanitize_key_def)

lemma entry_key_sanitize: "entry_key U (sanitize_key k) = entry_key U k"
  by (simp add: entry_key_def row_key_def field_bytes_def sanitize_key_def SanitizeKeyLen_min
      min.commute)

lemma keys_wfI:
  assumes "keys_wf E s" "dom (cells E s') \<subseteq> insert (entry_key (uuid E) k) (dom (cells E s))"
  shows "keys_wf E s'"
  unfolding keys_wf_def
proof
  fix b assume "b \<in> dom (cells E s')"
  then consider "b = entry_key (uuid E) k" | "b \<in> dom (cells E s)"
    using assms(2) by auto
  then show "\<exists>key. key_fits key \<and> b = entry_key (uuid E) key"
  proof cases
    case 1
    then show ?thesis by (metis entry_key_sanitize key_fits_sanitize)
  next
    case 2
    then show ?thesis using assms(1) by (simp add: keys_wf_def)
  qed
qed

lemma keys_wf_mono:
  assumes "keys_wf E s" "dom (cells E s') \<subseteq> dom (cells E s)"
  shows "keys_wf E s'"
  using assms unfolding keys_wf_def by blast

section \<open>Failed writes change nothing\<close>

lemma Put_error: "Put E now s r cv = (Inl e, s') \<Longrightarrow> s' = s"
  by (auto simp: Put_def Let_def split_beta dest: commit_entry_error
      split: option.splits sum.splits if_splits)

lemma Touch_error: "Touch E now s r cv = (Inl e, s') \<Longrightarrow> s' = s"
  by (auto simp: Touch_def Let_def split_beta dest: commit_entry_error
      split: option.splits sum.splits if_splits)

lemma Increment_error: "Increment E now s r cv = (Inl e, s') \<Longrightarrow> s' = s"
  by (auto simp: Increment_def Let_def split_beta dest: commit_entry_error
      split: option.splits sum.splits if_splits)

lemma Remove_error: "Remove E s r = (Inl e, s') \<Longrightarrow> s' = s"
  by (auto simp: Remove_def Let_def split_beta split: option.splits sum.splits if_splits)

lemma Reclaim_error: "Reclaim E s r = (Inl e, s') \<Longrightarrow> s' = s"
  by (auto simp: Reclaim_def split: sum.splits if_splits)

lemma SetBatch_error: "SetBatch E now s r cv = (Inl e, s') \<Longrightarrow> s' = s"
  by (auto simp: SetBatch_def split: sum.splits)

lemmas write_errors = Put_error Touch_error Increment_error Remove_error Reclaim_error SetBatch_error

section \<open>The invariant is preserved\<close>

lemma Put_keys_wf:
  assumes "runtime_ok E" "keys_wf E s" "Put E now s r cv = (res, s')"
  shows "keys_wf E s'"
proof (cases res)
  case (Inl e)
  then show ?thesis using assms(2) Put_error [OF assms(3) [unfolded Inl]] by simp
next
  case (Inr st)
  then obtain k where k: "rr_Key r = Some k"
    using assms(3) by (cases "rr_Key r") (auto simp: Put_def)
  show ?thesis
    using Put_refines [OF assms(1) k assms(3) [unfolded Inr]]
    by (intro keys_wfI [OF assms(2), of s' k]) (auto simp: spec_Put_def split: if_splits)
qed

lemma Touch_keys_wf:
  assumes "runtime_ok E" "keys_wf E s" "Touch E now s r cv = (res, s')"
  shows "keys_wf E s'"
proof (cases res)
  case (Inl e)
  then show ?thesis using assms(2) Touch_error [OF assms(3) [unfolded Inl]] by simp
next
  case (Inr st)
  then obtain k where k: "rr_Key r = Some k"
    using assms(3) by (cases "rr_Key r") (auto simp: Touch_def)
  show ?thesis
    using Touch_refines [OF assms(1) k assms(3) [unfolded Inr]]
    by (intro keys_wfI [OF assms(2), of s' k]) (auto simp: spec_Touch_def split: option.splits)
qed

lemma Increment_keys_wf:
  assumes "runtime_ok E" "keys_wf E s" "Increment E now s r cv = (res, s')"
  shows "keys_wf E s'"
proof (cases res)
  case (Inl e)
  then show ?thesis using assms(2) Increment_error [OF assms(3) [unfolded Inl]] by simp
next
  case (Inr st)
  then obtain k where k: "ir_Key r = Some k"
    using assms(3) by (cases "ir_Key r") (auto simp: Increment_def)
  show ?thesis
    using Increment_refines [OF assms(1) k assms(3) [unfolded Inr]]
    by (intro keys_wfI [OF assms(2), of s' k]) (auto simp: spec_Increment_def Let_def)
qed

lemma Remove_keys_wf:
  assumes "runtime_ok E" "keys_wf E s" "Remove E s r = (res, s')"
  shows "keys_wf E s'"
proof (cases res)
  case (Inl e)
  then show ?thesis using assms(2) Remove_error [OF assms(3) [unfolded Inl]] by simp
next
  case (Inr st)
  then obtain k where k: "kr_Key r = Some k"
    using assms(3) by (cases "kr_Key r") (auto simp: Remove_def)
  show ?thesis
    using Remove_refines [OF assms(1) k assms(3) [unfolded Inr]]
    by (intro keys_wf_mono [OF assms(2), of s']) (auto simp: spec_Remove_def split: if_splits)
qed

lemma Reclaim_keys_wf:
  assumes "runtime_ok E" "keys_wf E s" "Reclaim E s r = (res, s')"
  shows "keys_wf E s'"
proof (cases res)
  case (Inl e)
  then show ?thesis using assms(2) Reclaim_error [OF assms(3) [unfolded Inl]] by simp
next
  case (Inr n)
  then have "cells E s' = snd (spec_Reclaim (cells E s) (Entries r))"
    using Reclaim_refines [OF assms(1) assms(3) [unfolded Inr]] by simp
  then show ?thesis
    by (intro keys_wf_mono [OF assms(2), of s']) (auto simp: spec_Reclaim_closed split: if_splits)
qed

lemma spec_SetBatch_dom:
  "dom (spec_SetBatch enc ex cv rs cs) \<subseteq> dom cs \<union> range enc"
proof (induction rs arbitrary: cs)
  case Nil
  then show ?case by simp
next
  case (Cons r rs)
  show ?case
  proof (cases "rr_Key r")
    case (Some k)
    have "dom (spec_set (enc k) (ex r) r cv cs) \<subseteq> dom cs \<union> range enc"
      by (auto simp: spec_set_def)
    with Cons.IH [of "spec_set (enc k) (ex r) r cv cs"] Some show ?thesis
      by auto
  qed simp
qed

lemma SetBatch_keys_wf:
  assumes "runtime_ok E" "keys_wf E s" "cv \<noteq> 0 \<or> badger_up (badger E)"
    and "SetBatch E now s r cv = (res, s')"
  shows "keys_wf E s'"
proof (cases res)
  case (Inl e)
  then show ?thesis using assms(2) SetBatch_error [OF assms(4) [unfolded Inl]] by simp
next
  case (Inr st)
  then have d: "dom (cells E s') \<subseteq> dom (cells E s) \<union> range (entry_key (uuid E))"
    using SetBatch_refines [OF assms(1,3) assms(4) [unfolded Inr]] by (simp add: spec_SetBatch_dom)
  show ?thesis
    unfolding keys_wf_def
  proof
    fix b assume "b \<in> dom (cells E s')"
    with d consider "b \<in> dom (cells E s)" | k where "b = entry_key (uuid E) k"
      by blast
    then show "\<exists>key. key_fits key \<and> b = entry_key (uuid E) key"
    proof cases
      case 1
      with assms(2) show ?thesis by (simp add: keys_wf_def)
    next
      case 2
      then show ?thesis by (metis entry_key_sanitize key_fits_sanitize)
    qed
  qed
qed

section \<open>Point reads\<close>

text \<open>The cell a reader sees at time \<open>now\<close>, the reply built from it, and the part of a reply that
  does not depend on the engine's size estimate.\<close>

definition live :: "'db runtime \<Rightarrow> time \<Rightarrow> cell option \<Rightarrow> cell option" where
  "live E now c = (case c of None \<Rightarrow> None
     | Some c \<Rightarrow> if IsExpired (store E) now (c_expires c) then None else Some c)"

definition answer :: "bool \<Rightarrow> cell \<Rightarrow> u64 \<times> u64 \<times> i32 \<times> bytes" where
  "answer headOnly c = (c_version c, c_expires c, ucast (c_meta c), if headOnly then [] else c_value c)"

definition summary :: "Record \<Rightarrow> (u64 \<times> u64 \<times> i32 \<times> bytes) option" where
  "summary r = map_option (\<lambda>h. (hd_Version h, hd_ExpiresAt h, hd_Metadata h, rec_Value r)) (rec_Head r)"

lemma FetchRecord_shows:
  assumes "ValueCopy it = Inr v" "UserMeta it = m"
  shows "\<exists>r. FetchRecord E now key it ho = Inr r \<and> rec_Key r = Some key
     \<and> summary r = map_option (answer ho) (live E now (Some (cell_of (store E) (v, m))))
     \<and> (rec_Head r = None \<longleftrightarrow> live E now (Some (cell_of (store E) (v, m))) = None)"
  using assms
  by (simp add: FetchRecord_def split_beta Let_def live_def cell_of_sel answer_def summary_def
      RecordNotFound_def RecordHead_def RecordValue_def)

lemma Get_cells:
  assumes "runtime_ok E" "kr_Key q = Some k" "readable E (db s) (entry_key (uuid E) k)"
  shows "\<exists>r. Get E now s q = Inr r \<and> rec_Key r = Some k
     \<and> summary r = map_option (answer (kr_HeadOnly q)) (live E now (cells E s (entry_key (uuid E) k)))"
  using assms(1,3)
proof (cases rule: readableE)
  case absent
  then show ?thesis
    by (simp add: Get_def assms(2) runtime_okD(4) [OF assms(1)] cells_def live_def summary_def
        RecordNotFound_def)
next
  case (present it data)
  then show ?thesis
    using FetchRecord_shows [OF present(2) refl, of E now k "kr_HeadOnly q"]
    by (auto simp: Get_def assms(2) runtime_okD(4) [OF assms(1)] cells_def)
qed

section \<open>Scans\<close>

text \<open>What a scan yields for one stored entry: the decoded key and the reply, unless it is hidden.\<close>

definition decode_live ::
  "'db runtime \<Rightarrow> time \<Rightarrow> bool \<Rightarrow> bytes \<times> bytes \<times> byte \<Rightarrow> (Key \<times> u64 \<times> u64 \<times> i32 \<times> bytes) option" where
  "decode_live E now ho entry =
     (case DecodeKey (uuid E) (fst entry) of
        Inl _ \<Rightarrow> None
      | Inr key \<Rightarrow> map_option (\<lambda>c. (key, answer ho c)) (live E now (Some (cell_of (store E) (snd entry)))))"

definition row_of :: "Record \<Rightarrow> Key \<times> u64 \<times> u64 \<times> i32 \<times> bytes" where
  "row_of r = (the (rec_Key r), the (summary r))"

lemma visit_shows:
  assumes "DecodeKey (uuid E) k \<noteq> Inl Panic" "item_shows it vm" "isOk (ValueCopy it)"
  shows "\<exists>r. visit E now ho (k, it) = Inr r \<and> map_option row_of r = decode_live E now ho (k, vm)"
proof (cases "DecodeKey (uuid E) k")
  case (Inl e)
  then show ?thesis
    using assms(1) by (simp add: visit_def decode_live_def)
next
  case (Inr key)
  obtain v m where vm: "vm = (v, m)" by (cases vm)
  with assms(2,3) have it: "ValueCopy it = Inr v" "UserMeta it = m"
    by (auto simp: item_shows_def)
  obtain r where r: "FetchRecord E now key it ho = Inr r" "rec_Key r = Some key"
    "summary r = map_option (answer ho) (live E now (Some (cell_of (store E) (v, m))))"
    "rec_Head r = None \<longleftrightarrow> live E now (Some (cell_of (store E) (v, m))) = None"
    using FetchRecord_shows [OF it, of E now key ho] by (elim exE conjE) (rule that)
  show ?thesis
  proof (cases "live E now (Some (cell_of (store E) (v, m)))")
    case None
    with r Inr vm show ?thesis by (simp add: visit_def decode_live_def)
  next
    case (Some c)
    with r Inr vm show ?thesis by (simp add: visit_def decode_live_def row_of_def)
  qed
qed

text \<open>The verdicts of the loop body on a sequence of iterator positions.\<close>

definition visited :: "'db runtime \<Rightarrow> time \<Rightarrow> bool \<Rightarrow> (bytes \<times> item) list \<Rightarrow> Record list" where
  "visited E now ho xs = List.map_filter (\<lambda>x. case visit E now ho x of Inr r \<Rightarrow> r | Inl _ \<Rightarrow> None) xs"

lemma visited_simps [simp]:
  "visited E now ho [] = []"
  "visit E now ho x = Inr None \<Longrightarrow> visited E now ho (x # xs) = visited E now ho xs"
  "visit E now ho x = Inr (Some r) \<Longrightarrow> visited E now ho (x # xs) = r # visited E now ho xs"
  by (simp_all add: visited_def map_filter_simps)

lemma visited_rows:
  assumes "list_all2 (\<lambda>(k, it) (k', vm). k = k' \<and> item_shows it vm) xs ps"
    and "\<forall>(k, it) \<in> set xs. isOk (ValueCopy it)"
    and "\<forall>(k, vm) \<in> set ps. DecodeKey (uuid E) k \<noteq> Inl Panic"
  shows "map row_of (visited E now ho xs) = List.map_filter (decode_live E now ho) ps
       \<and> (\<forall>x \<in> set xs. isOk (visit E now ho x))"
  using assms
proof (induction xs ps rule: list_all2_induct)
  case Nil
  then show ?case by (simp add: map_filter_simps)
next
  case (Cons x xs p ps)
  obtain k it vm where xp: "x = (k, it)" "p = (k, vm)" and it: "item_shows it vm"
    using Cons.hyps(1) by (cases x; cases p) auto
  obtain r where r: "visit E now ho x = Inr r" "map_option row_of r = decode_live E now ho p"
    using visit_shows [of E k it vm now ho] it Cons.prems xp by auto
  have IH: "map row_of (visited E now ho xs) = List.map_filter (decode_live E now ho) ps
      \<and> (\<forall>x \<in> set xs. isOk (visit E now ho x))"
    using Cons by simp
  then show ?case
    using r(1) by (cases r) (simp_all add: map_filter_simps r(2) [symmetric])
qed

lemma iterate_rows:
  assumes "runtime_ok E" "badger_up (badger E)" "keys_wf E s"
  shows "map row_of (visited E now ho (iterate (badger E) (db s) back p sk))
           = List.map_filter (decode_live E now ho) (scan_entries (contents (badger E) (db s)) back p sk)
       \<and> (\<forall>x \<in> set (iterate (badger E) (db s) back p sk). isOk (visit E now ho x))"
proof (rule visited_rows)
  show "list_all2 (\<lambda>(k, it) (k', vm). k = k' \<and> item_shows it vm)
      (iterate (badger E) (db s) back p sk) (scan_entries (contents (badger E) (db s)) back p sk)"
    by (rule badger_okD(7) [OF runtime_okD(1) [OF assms(1)]])
  show "\<forall>(k, it) \<in> set (iterate (badger E) (db s) back p sk). isOk (ValueCopy it)"
    using assms(2) unfolding badger_up_def by blast
  show "\<forall>(k, vm) \<in> set (scan_entries (contents (badger E) (db s)) back p sk).
      DecodeKey (uuid E) k \<noteq> Inl Panic"
  proof safe
    fix k v m assume "(k, v, m) \<in> set (scan_entries (contents (badger E) (db s)) back p sk)"
      and d: "DecodeKey (uuid E) k = Inl Panic"
    then have "(k, v, m) \<in> set (contents (badger E) (db s))"
      by (auto simp: scan_entries_def split: if_splits dest!: set_takeWhileD set_dropWhileD)
    then have "view (badger E) (db s) k = Some (v, m)"
      using ordered_map_of_set [OF badger_okD(1) [OF runtime_okD(1) [OF assms(1)]]]
      by (simp add: view_def)
    then have "k \<in> dom (cells E s)"
      by (simp add: cells_def txn_cells_def dom_def)
    then obtain key where "k = entry_key (uuid E) key"
      using assms(3) by (auto simp: keys_wf_def)
    with d show False
      by (simp add: runtime_okD(6) [OF assms(1)])
  qed
qed

lemma range_loop_take:
  assumes "\<forall>x \<in> set xs. isOk (visit E now ho x)" "i \<le> n"
  shows "range_loop E now ho n i rs xs = Inr (rs @ take (n - i) (visited E now ho xs))"
  using assms
proof (induction xs arbitrary: i rs)
  case Nil
  then show ?case by simp
next
  case (Cons x xs)
  then obtain v where v: "visit E now ho x = Inr v"
    by (cases "visit E now ho x") auto
  show ?case
  proof (cases "i < n")
    case True
    then have n: "n - i = Suc (n - Suc i)" by simp
    have IH: "range_loop E now ho n j rs' xs = Inr (rs' @ take (n - j) (visited E now ho xs))"
      if "j \<le> n" for j rs'
      using Cons that by simp
    show ?thesis
    proof (cases v)
      case None
      with v True IH [of i rs] show ?thesis by simp
    next
      case (Some r)
      with v True IH [of "i + 1" "rs @ [r]"] n show ?thesis by simp
    qed
  qed simp
qed

section \<open>The most recent version\<close>

text \<open>The stored keys of the row of \<open>k\<close> that are not after \<open>k\<close>.\<close>

definition versions_upto :: "'db runtime \<Rightarrow> 'db KeyValueStorageCtx \<Rightarrow> Key \<Rightarrow> bytes set" where
  "versions_upto E s k = {b \<in> dom (cells E s). prefix (row_key k) b \<and> b \<le> entry_key (uuid E) k}"

lemma cells_contents:
  "cells E s = (\<lambda>k. map_option (cell_of (store E)) (map_of (contents (badger E) (db s)) k))"
  by (simp add: cells_def txn_cells_def view_def)

lemma dom_cells: "dom (cells E s) = fst ` set (contents (badger E) (db s))"
proof -
  have "dom (cells E s) = dom (map_of (contents (badger E) (db s)))"
    by (simp add: cells_contents dom_def)
  then show ?thesis
    by (simp add: dom_map_of_conv_image_fst)
qed

lemma ordered_last_Max:
  assumes "ordered_keys ps" "ps \<noteq> []"
  shows "fst (last ps) = Max (fst ` set ps)"
proof -
  obtain qs a where ps: "ps = qs @ [a]"
    using assms(2) by (metis append_butlast_last_id)
  have "\<forall>x \<in> fst ` set qs. x < fst a"
    using assms(1) ps by (auto simp: sorted_wrt_append)
  then have "Max (insert (fst a) (fst ` set qs)) = fst a"
    by (intro Max_eqI) auto
  then show ?thesis
    using ps by simp
qed

lemma GetRecent_cells:
  assumes "runtime_ok E" "badger_up (badger E)" "keys_wf E s" "kr_Key q = Some k"
  shows "\<exists>r. GetRecent E now s q = Inr r \<and>
    (if versions_upto E s k = {} then r = RecordNotFound k
     else let b = Max (versions_upto E s k) in
       DecodeKey (uuid E) b = Inr (the (rec_Key r)) \<and>
       summary r = map_option (answer (kr_HeadOnly q)) (live E now (cells E s b)))"
proof -
  let ?row = "row_key k" and ?key = "entry_key (uuid E) k"
  let ?ps = "contents (badger E) (db s)"
  let ?it = "iterate (badger E) (db s) True ?row ?key"
  define F where "F = filter (\<lambda>(b, _). prefix ?row b \<and> b \<le> ?key) ?ps"
  have ord: "ordered_keys ?ps"
    by (rule badger_okD(1) [OF runtime_okD(1) [OF assms(1)]])
  have ordF: "ordered_keys F"
    using ord by (simp add: F_def sorted_wrt_map sorted_wrt_filter)
  have keys: "fst ` set F = versions_upto E s k"
    by (auto simp: F_def versions_upto_def dom_cells image_iff)
  have "prefix ?row ?key"
    by (simp add: entry_key_def)
  then have all: "list_all2 (\<lambda>(b, it) (b', vm). b = b' \<and> item_shows it vm) ?it (rev F)"
    using badger_okD(7) [OF runtime_okD(1) [OF assms(1)], of "db s" True ?row ?key]
      reverse_scan [OF ord] by (simp add: F_def)
  show ?thesis
  proof (cases "F = []")
    case True
    with all keys show ?thesis
      by (simp add: GetRecent_def assms(4) runtime_okD(4) [OF assms(1)])
  next
    case False
    then obtain b vm G where G: "rev F = (b, vm) # G"
      by (cases "rev F") auto
    with all obtain it rest where it: "?it = (b, it) # rest" "item_shows it vm"
      by (auto simp: list_all2_Cons2)
    have up: "isOk (ValueCopy it)"
    proof -
      have "\<forall>(k, it) \<in> set ?it. isOk (ValueCopy it)"
        using assms(2) unfolding badger_up_def by blast
      then show ?thesis by (simp add: it(1))
    qed
    have F: "F = rev G @ [(b, vm)]"
      using G by (simp add: rev_eq_Cons_iff)
    then have "last F = (b, vm)"
      by simp
    with ordered_last_Max [OF ordF False] keys have b: "b = Max (versions_upto E s k)"
      by simp
    have "(b, vm) \<in> set F"
      by (simp add: F)
    then have "(b, vm) \<in> set ?ps"
      by (simp add: F_def)
    then have vm: "view (badger E) (db s) b = Some vm"
      using ordered_map_of_set [OF ord] by (simp add: view_def)
    then have c: "cells E s b = Some (cell_of (store E) vm)"
      by (simp add: cells_def txn_cells_def)
    with assms(3) obtain key where key: "b = entry_key (uuid E) key"
      unfolding keys_wf_def by blast
    then have dec: "DecodeKey (uuid E) b = Inr (sanitize_key key)"
      by (simp add: runtime_okD(6) [OF assms(1)])
    obtain v m where vm': "vm = (v, m)" by (cases vm)
    with it(2) up have "ValueCopy it = Inr v" "UserMeta it = m"
      by (auto simp: item_shows_def)
    from FetchRecord_shows [OF this, of E now "sanitize_key key" "kr_HeadOnly q"]
    obtain r where "FetchRecord E now (sanitize_key key) it (kr_HeadOnly q) = Inr r"
      "rec_Key r = Some (sanitize_key key)"
      "summary r = map_option (answer (kr_HeadOnly q)) (live E now (Some (cell_of (store E) (v, m))))"
      by (elim exE conjE) (rule that)
    moreover have "versions_upto E s k \<noteq> {}"
      using keys False by auto
    ultimately show ?thesis
      using it(1) dec c vm' b
      by (simp add: GetRecent_def assms(4) runtime_okD(4) [OF assms(1)] Let_def)
  qed
qed

section \<open>Discovering expired entries\<close>

definition expired_entry :: "'db runtime \<Rightarrow> time \<Rightarrow> bytes \<times> bytes \<times> byte \<Rightarrow> ReclaimEntry option" where
  "expired_entry E now p =
     (let c = cell_of (store E) (snd p) in
      if IsExpired (store E) now (c_expires c)
      then Some \<lparr>EntryKey = fst p, re_Version = c_version c\<rparr> else None)"

lemma expired_loop_take:
  assumes "list_all2 (\<lambda>(k, it) (k', vm). k = k' \<and> item_shows it vm) xs ps"
    and "\<forall>(k, it) \<in> set xs. isOk (ValueCopy it)" "\<And>n. ctx n = None"
    and "limit > 0 \<Longrightarrow> int (length es) < limit"
  shows "expired_loop E now ctx limit n es xs =
    (es @ (let all = List.map_filter (expired_entry E now) ps in
           if limit > 0 then take (nat limit - length es) all else all), None)"
  using assms(1,2,4)
proof (induction xs ps arbitrary: n es rule: list_all2_induct)
  case Nil
  then show ?case by (simp add: map_filter_simps)
next
  case (Cons x xs p ps)
  obtain k it v m where xp: "x = (k, it)" "p = (k, v, m)" and it: "item_shows it (v, m)"
    using Cons.hyps(1) by (cases x; cases p) auto
  then have vc: "ValueCopy it = Inr v"
    using Cons.prems(1) by (auto simp: item_shows_def)
  have IH: "expired_loop E now ctx limit n' es' xs =
      (es' @ (let all = List.map_filter (expired_entry E now) ps in
           if limit > 0 then take (nat limit - length es') all else all), None)"
    if "limit > 0 \<Longrightarrow> int (length es') < limit" for n' es'
    using Cons.IH [of es' n'] Cons.prems(1) that by simp
  show ?case
  proof (cases "expired_entry E now p")
    case None
    then have "\<not> IsExpired (store E) now (fst (snd (DecodeEnvelope (store E) v)))"
      using xp by (auto simp: expired_entry_def Let_def cell_of_sel split: if_splits)
    then have "expired_loop E now ctx limit n es (x # xs) = expired_loop E now ctx limit (n + 1) es xs"
      using vc xp assms(3) by (simp add: split_beta)
    then show ?thesis
      using IH [OF Cons.prems(2)] None by (simp add: map_filter_simps)
  next
    case (Some e)
    then have e: "e = \<lparr>EntryKey = k, re_Version = fst (DecodeEnvelope (store E) v)\<rparr>"
      and ex: "IsExpired (store E) now (fst (snd (DecodeEnvelope (store E) v)))"
      using xp by (auto simp: expired_entry_def Let_def cell_of_sel split: if_splits)
    have step: "expired_loop E now ctx limit n es (x # xs) =
        (if limit > 0 \<and> int (length (es @ [e])) \<ge> limit then (es @ [e], None)
         else expired_loop E now ctx limit (n + 1) (es @ [e]) xs)"
      using vc xp assms(3) ex e by (simp add: Let_def split_beta)
    show ?thesis
    proof (cases "limit > 0 \<and> int (length (es @ [e])) \<ge> limit")
      case True
      with Cons.prems(2) have "nat limit - length es = 1" by auto
      with True step Some show ?thesis by (simp add: map_filter_simps)
    next
      case False
      then have "limit > 0 \<Longrightarrow> nat limit - length es = Suc (nat limit - Suc (length es))"
        by auto
      with False step Some IH [of "es @ [e]" "n + 1"] show ?thesis
        by (auto simp: map_filter_simps Let_def)
    qed
  qed
qed

lemma ScanExpired_entries:
  assumes "runtime_ok E" "badger_up (badger E)" "\<And>n. ctx n = None"
  shows "ScanExpired E now s ctx limit =
    (let all = List.map_filter (expired_entry E now) (contents (badger E) (db s)) in
     if limit > 0 then take (nat limit) all else all, None)"
proof -
  have "\<forall>(k, it) \<in> set (iterate (badger E) (db s) False [] []). isOk (ValueCopy it)"
    using assms(2) unfolding badger_up_def by blast
  then show ?thesis
    using expired_loop_take [OF badger_okD(7) [OF runtime_okD(1) [OF assms(1)], where d = "db s"
        and r = False and p = "[]" and s = "[]"], where ctx = ctx and limit = limit and es = "[]"
        and E = E and n = 0] assms(3)
    by (simp add: ScanExpired_def rewind_scan Let_def)
qed

lemma expired_entries_set:
  assumes "runtime_ok E"
  shows "e \<in> set (List.map_filter (expired_entry E now) (contents (badger E) (db s)))
     \<longleftrightarrow> (\<exists>c. cells E s (EntryKey e) = Some c \<and> IsExpired (store E) now (c_expires c)
            \<and> re_Version e = c_version c)"
proof -
  have "map_of (contents (badger E) (db s)) k = Some vm \<longleftrightarrow> (k, vm) \<in> set (contents (badger E) (db s))"
    for k vm
    by (rule ordered_map_of_set [OF badger_okD(1) [OF runtime_okD(1) [OF assms]]])
  then show ?thesis
    by (cases e) (auto simp: List.map_filter_def expired_entry_def Let_def cells_contents
        image_iff split: if_splits)
qed

section \<open>Streaming to a block sender\<close>

text \<open>The \<open>BlockSender\<close> interface: a send that succeeds has passed on the whole block, one that fails
  has passed on a leading part of it.\<close>

locale block_sender =
  fixes send :: "'s \<Rightarrow> Block \<Rightarrow> go_error option \<times> 's"
    and sent :: "'s \<Rightarrow> Record list"
  assumes send_ok: "send st b = (None, st') \<Longrightarrow> sent st' = sent st @ b"
    and send_err: "send st b = (Some e, st') \<Longrightarrow> \<exists>p. prefix p b \<and> sent st' = sent st @ p"
begin

text \<open>A stream that ends without error delivered every visited record, in order.\<close>

lemma area_loop_delivers:
  assumes "area_loop E now ho send st rs xs = (None, st')" "\<forall>x \<in> set xs. isOk (visit E now ho x)"
  shows "sent st' = sent st @ rs @ visited E now ho xs"
  using assms
proof (induction xs arbitrary: st rs)
  case Nil
  then show ?case using send_ok by (auto split: if_splits)
next
  case (Cons x xs)
  then obtain v where v: "visit E now ho x = Inr v" "\<forall>x \<in> set xs. isOk (visit E now ho x)"
    by (cases "visit E now ho x") auto
  show ?case
  proof (cases v)
    case None
    with Cons v show ?thesis by simp
  next
    case (Some r)
    show ?thesis
    proof (cases "length (rs @ [r]) = defBlockSize")
      case True
      with Cons.prems v Some obtain st1 where st1: "send st (rs @ [r]) = (None, st1)"
        and loop: "area_loop E now ho send st1 [] xs = (None, st')"
        by (auto simp: Let_def split: prod.splits option.splits)
      then show ?thesis
        using Cons.IH [OF loop v(2)] send_ok [OF st1] v Some by simp
    next
      case False
      then have "area_loop E now ho send st (rs @ [r]) xs = (None, st')"
        using Cons.prems(1) v Some by (simp add: Let_def)
      then show ?thesis
        using Cons.IH [OF _ v(2)] v Some by simp
    qed
  qed
qed

text \<open>However the stream ends, what was delivered is a leading part of the visited records.\<close>

lemma area_loop_prefix:
  assumes "area_loop E now ho send st rs xs = (er, st')" "\<forall>x \<in> set xs. isOk (visit E now ho x)"
  shows "\<exists>p. prefix p (rs @ visited E now ho xs) \<and> sent st' = sent st @ p"
  using assms
proof (induction xs arbitrary: st rs)
  case Nil
  then show ?case
    using send_ok send_err by (cases er) (auto split: if_splits)
next
  case (Cons x xs)
  then obtain v where v: "visit E now ho x = Inr v" "\<forall>x \<in> set xs. isOk (visit E now ho x)"
    by (cases "visit E now ho x") auto
  show ?case
  proof (cases v)
    case None
    with Cons v show ?thesis by simp
  next
    case (Some r)
    show ?thesis
    proof (cases "length (rs @ [r]) = defBlockSize")
      case full: True
      obtain er1 st1 where st1: "send st (rs @ [r]) = (er1, st1)"
        by (cases "send st (rs @ [r])")
      show ?thesis
      proof (cases er1)
        case None
        then have "area_loop E now ho send st1 [] xs = (er, st')"
          using Cons.prems(1) v Some full st1 by (simp add: Let_def)
        from Cons.IH [OF this v(2)] obtain p where "prefix p (visited E now ho xs)" "sent st' = sent st1 @ p"
          by auto
        then show ?thesis
          using send_ok st1 None v Some by (intro exI [of _ "rs @ r # p"]) auto
      next
        case (Some e)
        then have "st' = st1"
          using Cons.prems(1) v \<open>v = Some r\<close> full st1 by (simp add: Let_def)
        then show ?thesis
          using send_err [OF st1 [unfolded Some]] v \<open>v = Some r\<close>
          by (metis append.assoc append_Cons append_Nil prefix_prefix visited_simps(3))
      qed
    next
      case False
      then have "area_loop E now ho send st (rs @ [r]) xs = (er, st')"
        using Cons.prems(1) v Some by (simp add: Let_def)
      then show ?thesis
        using Cons.IH [OF _ v(2)] v Some by fastforce
    qed
  qed
qed

end

text \<open>With a sender that never fails the stream ends without error.\<close>

lemma area_loop_never_fails:
  assumes "\<And>st b. fst (send st b) = None" "\<forall>x \<in> set xs. isOk (visit E now ho x)"
  shows "fst (area_loop E now ho send st rs xs) = None"
  using assms(2)
proof (induction xs arbitrary: st rs)
  case (Cons x xs)
  then obtain v where v: "visit E now ho x = Inr v"
    by (cases "visit E now ho x") auto
  show ?case
  proof (cases v)
    case (Some r)
    obtain st1 where "send st (rs @ [r]) = (None, st1)"
      using assms(1) [of st "rs @ [r]"] by (metis prod.collapse)
    with Some v Cons show ?thesis
      by (simp add: Let_def)
  qed (use Cons v in simp)
qed (simp add: assms(1))

end
