(* ===== verification/Storage_Props.thy ===== *)
theory Storage_Props
  imports Instances Storage_Reads Refinement
begin

text \<open>Properties of the record store (pkg/server/storage.go).\<close>

section \<open>Shared facts\<close>

lemma notify_hub:
  "hub (notify s k v t ver)
     = map_option (\<lambda>h. h @ [\<lparr>ev_Key = k, ev_Value = v, ev_Type = t, ev_Version = ver\<rparr>]) (hub s)"
  by (simp add: notify_def split: option.splits)

lemma notify_fold_hub:
  "hub (foldl (\<lambda>s x. notify s (f x) (g x) t (h x)) s xs)
     = map_option (\<lambda>ev. ev @ map (\<lambda>x. \<lparr>ev_Key = f x, ev_Value = g x, ev_Type = t, ev_Version = h x\<rparr>) xs)
         (hub s)"
  by (induction xs arbitrary: s) (auto simp: notify_hub option.map_comp comp_def option.map_ident)

lemma commit_entry_hub:
  "commit_entry E s m1 m2 k env m v ver reply = (Inr r, s') \<Longrightarrow>
   hub s' = map_option (\<lambda>h. h @ [\<lparr>ev_Key = k, ev_Value = v, ev_Type = WATCH_SET, ev_Version = ver\<rparr>]) (hub s)"
  by (auto simp: commit_entry_def notify_hub split: sum.splits)

lemma Put_hub:
  assumes "runtime_ok E" "rr_Key r = Some k" "Put E now s r cv = (Inr st, s')"
  shows "hub s' = (if Updated st
     then map_option (\<lambda>h. h @ [\<lparr>ev_Key = entry_key (uuid E) k, ev_Value = rr_Value r, ev_Type = WATCH_SET,
            ev_Version = next_version cv (old_version (cells E s (entry_key (uuid E) k)))\<rparr>]) (hub s)
     else hub s)"
  using assms(3) unfolding Put_read [OF assms(1,2) Put_readable [OF assms]] Let_def
  by (auto split: if_splits dest: commit_entry_hub commit_entry_refines [OF assms(1)])

lemma put_result:
  assumes "runtime_ok E" "badger_up (badger E)" "rr_Key r = Some k" "fits E k (rr_Value r)"
  obtains st s' where "Put E now s r cv = (Inr st, s')"
    "(st, cells E s') = spec_Put (entry_key (uuid E) k)
       (resolveExpiry E now (rr_TtlSeconds r) (rr_ExpiresAt r)) r cv (cells E s)"
proof -
  have "isOk (fst (Put E now s r cv))"
    by (rule Put_up [OF assms])
  then obtain st s' where "Put E now s r cv = (Inr st, s')"
    by (cases "Put E now s r cv"; cases "fst (Put E now s r cv)") auto
  with Put_refines [OF assms(1,3) this] that show ?thesis by blast
qed

definition sample_put :: "Key \<Rightarrow> bytes \<Rightarrow> RecordRequest" where
  "sample_put k v = \<lparr>rr_Key = Some k, rr_Value = v, rr_Metadata = 0, rr_TtlSeconds = 0,
     rr_CompareAndSet = False, rr_Version = 0, rr_Timeout = 0, rr_ExpiresAt = 0\<rparr>"

definition sample_get :: "Key \<Rightarrow> KeyRequest" where
  "sample_get k = \<lparr>kr_Key = Some k, kr_HeadOnly = False, kr_Timeout = 0\<rparr>"

lemma sample_sel [simp]:
  "rr_Key (sample_put k v) = Some k" "rr_Value (sample_put k v) = v"
  "rr_CompareAndSet (sample_put k v) = False" "rr_Version (sample_put k v) = 0"
  "rr_TtlSeconds (sample_put k v) = 0" "rr_ExpiresAt (sample_put k v) = 0"
  "rr_Metadata (sample_put k v) = 0"
  "kr_Key (sample_get k) = Some k" "kr_HeadOnly (sample_get k) = False"
  by (simp_all add: sample_put_def sample_get_def)

section \<open>Writing and reading one record\<close>

lemma Put_full:
  assumes "runtime_ok E" "badger_up (badger E)" "rr_Key r = Some k" "fits E k (rr_Value r)"
  shows "\<exists>s'. Put E now s r cv = (Inr (fst (spec_Put (entry_key (uuid E) k)
              (resolveExpiry E now (rr_TtlSeconds r) (rr_ExpiresAt r)) r cv (cells E s))), s')
       \<and> cells E s' = snd (spec_Put (entry_key (uuid E) k)
              (resolveExpiry E now (rr_TtlSeconds r) (rr_ExpiresAt r)) r cv (cells E s))
       \<and> (\<not> cas_ok r (cells E s (entry_key (uuid E) k)) \<longrightarrow> hub s' = hub s)
       \<and> (cas_ok r (cells E s (entry_key (uuid E) k)) \<longrightarrow>
            hub s' = map_option (\<lambda>h. h @ [\<lparr>ev_Key = entry_key (uuid E) k, ev_Value = rr_Value r,
              ev_Type = WATCH_SET,
              ev_Version = next_version cv (old_version (cells E s (entry_key (uuid E) k)))\<rparr>]) (hub s))"
proof -
  obtain st s' where p: "Put E now s r cv = (Inr st, s')"
    and spec: "(st, cells E s') = spec_Put (entry_key (uuid E) k)
       (resolveExpiry E now (rr_TtlSeconds r) (rr_ExpiresAt r)) r cv (cells E s)"
    using put_result [OF assms] by blast
  from Put_hub [OF assms(1,3) p] spec p show ?thesis
    by (auto simp: spec_Put_def split: if_splits)
qed

text \<open>C4 Put on every branch: with a key and an entry the engine admits it returns; it updates unless
  a compare-and-set expectation fails (version 0 expects an absent key), the stored cell is then the
  request's value under the commit version, or the old version plus one when none is given, and one
  change event is published; a failed expectation changes neither store nor watchers.\<close>

theorem put_outcome:
  assumes "runtime_ok E" "badger_up (badger E)" "rr_Key r = Some k" "fits E k (rr_Value r)"
  shows "\<exists>s'. Put E now s r cv = (Inr (fst (spec_Put (entry_key (uuid E) k)
              (resolveExpiry E now (rr_TtlSeconds r) (rr_ExpiresAt r)) r cv (cells E s))), s')
       \<and> cells E s' = snd (spec_Put (entry_key (uuid E) k)
              (resolveExpiry E now (rr_TtlSeconds r) (rr_ExpiresAt r)) r cv (cells E s))
       \<and> (\<not> cas_ok r (cells E s (entry_key (uuid E) k)) \<longrightarrow> hub s' = hub s)
       \<and> (cas_ok r (cells E s (entry_key (uuid E) k)) \<longrightarrow>
            hub s' = map_option (\<lambda>h. h @ [\<lparr>ev_Key = entry_key (uuid E) k, ev_Value = rr_Value r,
              ev_Type = WATCH_SET,
              ev_Version = next_version cv (old_version (cells E s (entry_key (uuid E) k)))\<rparr>]) (hub s))"
  by (rule Put_full [OF assms])

theorem put_outcome_witness:
  "\<exists>s'. Put mem_runtime 0 mem_empty (sample_put (text_key ''t'' ''r'' ''m'') [7]) 5 = (Inr \<lparr>Updated = True\<rparr>, s')
     \<and> cells mem_runtime s' (entry_key mem_uuid (text_key ''t'' ''r'' ''m''))
       = Some \<lparr>c_version = 5, c_expires = 0, c_value = [7], c_meta = 0\<rparr>"
  using put_outcome [OF mem_runtime_ok mem_runtime_up, where r = "sample_put (text_key ''t'' ''r'' ''m'') [7]"
      and k = "text_key ''t'' ''r'' ''m''" and now = 0 and s = mem_empty and cv = 5]
  by (auto simp: mem_fits spec_Put_def cas_ok_def next_version_def mem_empty_cells resolveExpiry_def)

text \<open>Put then Get: a read of the key at any later time at which the stored expiry has not passed
  returns the value written, under the version the write was stamped with, whatever the state was.\<close>

lemma put_then_get:
  assumes "runtime_ok E" "badger_up (badger E)" "rr_Key r = Some k" "fits E k (rr_Value r)"
    and "\<not> rr_CompareAndSet r" "kr_Key q = Some k" "\<not> kr_HeadOnly q"
    and "\<not> IsExpired (store E) now' (resolveExpiry E now (rr_TtlSeconds r) (rr_ExpiresAt r))"
  shows "\<exists>rec h. Get E now' (snd (Put E now s r cv)) q = Inr rec \<and> rec_Key rec = Some k
     \<and> rec_Value rec = rr_Value r \<and> rec_Head rec = Some h
     \<and> hd_Version h = next_version cv (old_version (cells E s (entry_key (uuid E) k)))
     \<and> hd_ExpiresAt h = resolveExpiry E now (rr_TtlSeconds r) (rr_ExpiresAt r)"
proof -
  obtain st s' where p: "Put E now s r cv = (Inr st, s')"
    and spec: "(st, cells E s') = spec_Put (entry_key (uuid E) k)
       (resolveExpiry E now (rr_TtlSeconds r) (rr_ExpiresAt r)) r cv (cells E s)"
    using put_result [OF assms(1-4)] by blast
  have c: "cells E s' (entry_key (uuid E) k) = Some \<lparr>
      c_version = next_version cv (old_version (cells E s (entry_key (uuid E) k))),
      c_expires = resolveExpiry E now (rr_TtlSeconds r) (rr_ExpiresAt r),
      c_value = rr_Value r, c_meta = ucast (rr_Metadata r)\<rparr>"
    using spec assms(5) by (simp add: spec_Put_def cas_ok_def)
  obtain rec where "Get E now' s' q = Inr rec" "rec_Key rec = Some k"
    "summary rec = map_option (answer (kr_HeadOnly q)) (live E now' (cells E s' (entry_key (uuid E) k)))"
    using Get_cells [OF assms(1,6) readable_up [OF assms(2)], of now' s'] by (elim exE conjE) (rule that)
  then show ?thesis
    using p assms(7,8) by (auto simp: c live_def summary_def answer_def)
qed

text \<open>Frame: a write of one key leaves the cell of every other key as it was, error paths included.\<close>

lemma put_frame:
  assumes "runtime_ok E" "rr_Key r = Some k" "key_fits k" "key_fits k'" "k' \<noteq> k"
  shows "cells E (snd (Put E now s r cv)) (entry_key (uuid E) k') = cells E s (entry_key (uuid E) k')"
proof -
  have ne: "entry_key (uuid E) k' \<noteq> entry_key (uuid E) k"
    using entry_key_inject [OF runtime_okD(3) [OF assms(1)] runtime_okD(3) [OF assms(1)]] assms(3-5) by simp
  obtain res s' where p: "Put E now s r cv = (res, s')" by (cases "Put E now s r cv")
  show ?thesis
  proof (cases res)
    case (Inl e)
    then show ?thesis using p Put_error by fastforce
  next
    case (Inr st)
    with Put_refines [OF assms(1,2)] p ne show ?thesis
      by (fastforce simp: spec_Put_def split: if_splits)
  qed
qed

section \<open>Compare-and-set\<close>

text \<open>Two writers with one token: after a compare-and-set on a version has updated the record, a
  second compare-and-set with the same expected version is refused and changes nothing, provided the
  first one's commit version differs from the token (with local versions it always does).\<close>

lemma cas_second_loses:
  assumes "runtime_ok E" "badger_up (badger E)" "rr_Key r = Some k" "rr_Key r' = Some k"
    and "fits E k (rr_Value r)" "fits E k (rr_Value r')"
    and "rr_CompareAndSet r" "rr_CompareAndSet r'" "rr_Version r' = rr_Version r"
    and "cv \<noteq> rr_Version r"
    and "Put E now s r cv = (Inr \<lparr>Updated = True\<rparr>, u)"
  shows "\<exists>w. Put E now' u r' cv' = (Inr \<lparr>Updated = False\<rparr>, w)
     \<and> cells E w = cells E u \<and> hub w = hub u"
proof -
  let ?b = "entry_key (uuid E) k"
  have "cas_ok r (cells E s ?b)"
    and c: "cells E u ?b = Some \<lparr>c_version = next_version cv (old_version (cells E s ?b)),
      c_expires = resolveExpiry E now (rr_TtlSeconds r) (rr_ExpiresAt r),
      c_value = rr_Value r, c_meta = ucast (rr_Metadata r)\<rparr>"
    using Put_refines [OF assms(1,3,11)] by (auto simp: spec_Put_def split: if_splits)
  moreover have "(v :: u64) + 1 \<noteq> v" for v
    by simp
  ultimately have "\<not> cas_ok r' (cells E u ?b)"
    using assms(7-10) by (auto simp: cas_ok_def old_version_def next_version_def split: if_splits)
  then show ?thesis
    using Put_full [OF assms(1,2,4,6), of now' u cv'] by (auto simp: spec_Put_def)
qed

definition sample_cas :: "Key \<Rightarrow> bytes \<Rightarrow> u64 \<Rightarrow> RecordRequest" where
  "sample_cas k v ver = (sample_put k v)\<lparr>rr_CompareAndSet := True, rr_Version := ver\<rparr>"

lemma sample_cas_sel [simp]:
  "rr_Key (sample_cas k v ver) = Some k" "rr_Value (sample_cas k v ver) = v"
  "rr_CompareAndSet (sample_cas k v ver)" "rr_Version (sample_cas k v ver) = ver"
  "rr_TtlSeconds (sample_cas k v ver) = 0" "rr_ExpiresAt (sample_cas k v ver) = 0"
  by (simp_all add: sample_cas_def sample_put_def)

text \<open>Lazy expiry: a record whose expiry has passed reads as not found, and still blocks
  put-if-absent until it is reclaimed, so the decision does not depend on the clock of the node.\<close>

lemma expired_hidden_but_blocks:
  assumes "runtime_ok E" "badger_up (badger E)" "rr_Key r = Some k" "fits E k (rr_Value r)"
    and "cells E s (entry_key (uuid E) k) = Some c" "IsExpired (store E) now (c_expires c)"
    and "c_version c \<noteq> 0" "rr_CompareAndSet r" "rr_Version r = 0" "kr_Key q = Some k"
  shows "(\<exists>rec. Get E now s q = Inr rec \<and> rec_Head rec = None)
     \<and> (\<exists>s'. Put E now' s r cv = (Inr \<lparr>Updated = False\<rparr>, s') \<and> cells E s' = cells E s)"
proof
  obtain rec where "Get E now s q = Inr rec"
    "summary rec = map_option (answer (kr_HeadOnly q)) (live E now (cells E s (entry_key (uuid E) k)))"
    using Get_cells [OF assms(1,10) readable_up [OF assms(2)], of now s] by (elim exE conjE) (rule that)
  then show "\<exists>rec. Get E now s q = Inr rec \<and> rec_Head rec = None"
    using assms(5,6) by (simp add: live_def summary_def)
  have "\<not> cas_ok r (cells E s (entry_key (uuid E) k))"
    using assms(5,7-9) by (simp add: cas_ok_def old_version_def)
  then show "\<exists>s'. Put E now' s r cv = (Inr \<lparr>Updated = False\<rparr>, s') \<and> cells E s' = cells E s"
    using Put_full [OF assms(1-4), of now' s cv] by (auto simp: spec_Put_def)
qed

text \<open>A database holding one record that expired at time 3.\<close>

definition mem_expired :: "entries KeyValueStorageCtx" where
  "mem_expired = \<lparr>db = [(entry_key mem_uuid (text_key ''t'' ''r'' ''m''),
     EncodeEnvelope mem_store 1 3 [9], 0)], hub = Some []\<rparr>"

lemma mem_expired_cells:
  "cells mem_runtime mem_expired = [entry_key mem_uuid (text_key ''t'' ''r'' ''m'') \<mapsto>
     \<lparr>c_version = 1, c_expires = 3, c_value = [9], c_meta = 0\<rparr>]"
  by (simp add: cells_def txn_cells_def view_def mem_expired_def mem_badger_def canon_def fun_eq_iff
      cell_of_def mem_store_def)

section \<open>Batches, reclaim and counters\<close>

text \<open>C5 Batches are all-or-nothing: a batch that fails at any record, or at commit, leaves the database
  and the watchers as they were; one that succeeds has written every record in order, each under the
  commit version, and published one event per record in the order of the batch. The compare-and-set
  fields of its records play no part.\<close>

theorem batch_atomic:
  assumes "runtime_ok E" "cv \<noteq> 0 \<or> badger_up (badger E)"
  shows "case SetBatch E now s req cv of
      (Inl e, s') \<Rightarrow> s' = s
    | (Inr st, s') \<Rightarrow>
        (\<forall>r \<in> set (Records req). rr_Key r \<noteq> None)
      \<and> cells E s' = spec_SetBatch (entry_key (uuid E))
          (\<lambda>r. resolveExpiry E now (rr_TtlSeconds r) (rr_ExpiresAt r)) cv (Records req) (cells E s)
      \<and> map_option (map (\<lambda>e. (ev_Key e, ev_Value e, ev_Type e))) (hub s')
        = map_option (\<lambda>h. map (\<lambda>e. (ev_Key e, ev_Value e, ev_Type e)) h
            @ map (\<lambda>r. (entry_key (uuid E) (the (rr_Key r)), rr_Value r, WATCH_SET)) (Records req)) (hub s)"
proof (cases "SetBatch E now s req cv")
  case (Pair res s')
  show ?thesis
  proof (cases res)
    case (Inl e)
    with Pair SetBatch_error show ?thesis by fastforce
  next
    case (Inr st)
    from Pair Inr obtain d p d' where
      loop: "batch_loop E now cv (db s) [] (Records req) = Inr (d, p)"
      and s': "s' = foldl (\<lambda>s c. notify s (ch_key c) (ch_value c) WATCH_SET (ch_version c)) (s\<lparr>db := d'\<rparr>) p"
      by (auto simp: SetBatch_def split: sum.splits)
    note b = batch_loop_refines [OF assms loop]
    have "map (\<lambda>c. (ch_key c, ch_value c)) p = zip (map ch_key p) (map ch_value p)"
      by (simp add: zip_map_map zip_same_conv_map comp_def)
    also have "\<dots> = map (\<lambda>r. (entry_key (uuid E) (the (rr_Key r)), rr_Value r)) (Records req)"
      using b by (simp add: zip_map_map zip_same_conv_map comp_def)
    finally have "map (\<lambda>(a, b). (a, b, WATCH_SET)) (map (\<lambda>c. (ch_key c, ch_value c)) p)
        = map (\<lambda>(a, b). (a, b, WATCH_SET))
            (map (\<lambda>r. (entry_key (uuid E) (the (rr_Key r)), rr_Value r)) (Records req))"
      by simp
    then have "map (\<lambda>c. (ch_key c, ch_value c, WATCH_SET)) p
        = map (\<lambda>r. (entry_key (uuid E) (the (rr_Key r)), rr_Value r, WATCH_SET)) (Records req)"
      by (simp add: comp_def)
    then have "map_option (map (\<lambda>e. (ev_Key e, ev_Value e, ev_Type e))) (hub s')
        = map_option (\<lambda>h. map (\<lambda>e. (ev_Key e, ev_Value e, ev_Type e)) h
            @ map (\<lambda>r. (entry_key (uuid E) (the (rr_Key r)), rr_Value r, WATCH_SET)) (Records req)) (hub s)"
      by (simp add: s' notify_fold_hub option.map_comp comp_def)
    then show ?thesis
      using Pair Inr b SetBatch_refines [OF assms Pair [unfolded Inr]] by simp
  qed
qed

theorem batch_atomic_witness:
  "case SetBatch mem_runtime 0 mem_empty
      \<lparr>Records = [sample_put (text_key ''t'' ''r'' ''a'') [1], (sample_put (text_key ''t'' ''r'' ''b'') [2])\<lparr>rr_Key := None\<rparr>],
       br_Timeout = 0\<rparr> 4 of (Inl e, s') \<Rightarrow> s' = mem_empty | (Inr st, s') \<Rightarrow> False"
  using batch_atomic [OF mem_runtime_ok, where cv = 4 and now = 0 and s = mem_empty
      and req = "\<lparr>Records = [sample_put (text_key ''t'' ''r'' ''a'') [1],
        (sample_put (text_key ''t'' ''r'' ''b'') [2])\<lparr>rr_Key := None\<rparr>], br_Timeout = 0\<rparr>"]
  by (auto split: prod.splits sum.splits)

definition delete_event :: "bytes \<Rightarrow> store_event" where
  "delete_event k = \<lparr>ev_Key = k, ev_Value = [], ev_Type = WATCH_DELETE, ev_Version = 0\<rparr>"

lemma delete_fold_hub:
  "hub (foldl (\<lambda>s key. notify s key [] WATCH_DELETE 0) s ks)
     = map_option (\<lambda>h. h @ map delete_event ks) (hub s)"
  using notify_fold_hub [where f = "\<lambda>x. x" and g = "\<lambda>x. []" and h = "\<lambda>x. 0"]
  by (simp add: delete_event_def [abs_def])

lemma Reclaim_hub:
  assumes "runtime_ok E" "Reclaim E s req = (Inr n, s')"
  shows "hub s' = map_option (\<lambda>h. h @ map delete_event
           (fst (spec_Reclaim (cells E s) (Entries req)))) (hub s)"
proof (cases "Entries req = []")
  case True
  then show ?thesis using assms(2) by (auto simp: Reclaim_def option.map_ident)
next
  case False
  with assms(2) obtain d del where loop: "reclaim_loop E (db s) [] (Entries req) = Inr (d, del)"
    by (auto simp: Reclaim_def split: sum.splits)
  from reclaim_loop_refines [OF assms(1) this]
  have spec: "fst (spec_Reclaim (cells E s) (Entries req)) = del"
    by (auto simp: cells_def)
  show ?thesis
  proof (cases "del = []")
    case True
    then show ?thesis
      using False assms(2) loop spec by (auto simp: Reclaim_def option.map_ident)
  next
    case nonempty: False
    with False assms(2) loop obtain d' where
      "s' = foldl (\<lambda>s key. notify s key [] WATCH_DELETE 0) (s\<lparr>db := d'\<rparr>) del"
      by (auto simp: Reclaim_def split: sum.splits)
    then show ?thesis
      by (simp add: delete_fold_hub spec)
  qed
qed

lemma Reclaim_result:
  assumes "runtime_ok E" "badger_up (badger E)"
  obtains n s' where "Reclaim E s req = (Inr n, s')"
  using Reclaim_up [OF assms, of s req]
  by (cases "Reclaim E s req"; cases "fst (Reclaim E s req)") auto

text \<open>C26 Reclaim removes exactly the listed keys whose stored version is still the listed one, counts
  them, and publishes one delete event for each; a key rewritten since discovery stays.\<close>

theorem reclaim_exact:
  assumes "runtime_ok E" "badger_up (badger E)"
  shows "\<exists>ks s'. Reclaim E s req = (Inr (length ks), s') \<and> distinct ks
     \<and> set ks = EntryKey ` {e \<in> set (Entries req).
                   map_option c_version (cells E s (EntryKey e)) = Some (re_Version e)}
     \<and> cells E s' = (\<lambda>k. if k \<in> set ks then None else cells E s k)
     \<and> hub s' = map_option (\<lambda>h. h @ map delete_event ks) (hub s)"
proof -
  let ?ks = "fst (spec_Reclaim (cells E s) (Entries req))"
  obtain n s' where r: "Reclaim E s req = (Inr n, s')"
    using Reclaim_result [OF assms] .
  have keys: "distinct ?ks" "set ?ks = EntryKey ` {e \<in> set (Entries req). reclaims (cells E s) e}"
    using spec_Reclaim_keys by blast+
  have "n = length ?ks" and c: "cells E s' = snd (spec_Reclaim (cells E s) (Entries req))"
    using Reclaim_refines [OF assms(1) r] by simp_all
  have "cells E s' k = (if k \<in> set ?ks then None else cells E s k)" for k
    unfolding c spec_Reclaim_closed keys(2) by auto
  then have "cells E s' = (\<lambda>k. if k \<in> set ?ks then None else cells E s k)"
    by (rule ext)
  with r keys Reclaim_hub [OF assms(1) r] \<open>n = length ?ks\<close> show ?thesis
    unfolding reclaims_def by blast
qed

theorem reclaim_exact_witness:
  "\<exists>ks s'. Reclaim mem_runtime mem_expired \<lparr>Entries = [\<lparr>EntryKey = entry_key mem_uuid
       (text_key ''t'' ''r'' ''m''), re_Version = 2\<rparr>]\<rparr> = (Inr (length ks), s') \<and> ks = []"
  using reclaim_exact [OF mem_runtime_ok mem_runtime_up, where s = mem_expired and req = "\<lparr>Entries =
      [\<lparr>EntryKey = entry_key mem_uuid (text_key ''t'' ''r'' ''m''), re_Version = 2\<rparr>]\<rparr>"]
  by (auto simp: mem_expired_cells split: if_splits)

text \<open>A sweep removes what has expired and nothing else: reclaiming the entries that an unbounded
  scan for expired entries found, on the unchanged store, leaves exactly the live cells.\<close>

lemma sweep_removes_expired:
  assumes "runtime_ok E" "badger_up (badger E)" "ScanExpired E now s (\<lambda>_. None) 0 = (es, err)"
  shows "err = None \<and> cells E (snd (Reclaim E s \<lparr>Entries = es\<rparr>)) = (\<lambda>k. live E now (cells E s k))"
proof -
  have es: "es = List.map_filter (expired_entry E now) (contents (badger E) (db s))" "err = None"
    using assms(3) ScanExpired_entries [OF assms(1,2), of "\<lambda>_. None" now s 0] by simp_all
  obtain n s' where r: "Reclaim E s \<lparr>Entries = es\<rparr> = (Inr n, s')"
    using Reclaim_result [OF assms(1,2)] .
  have "cells E s' k = live E now (cells E s k)" for k
  proof -
    have "(\<exists>e \<in> set es. EntryKey e = k \<and> reclaims (cells E s) e)
        \<longleftrightarrow> (\<exists>c. cells E s k = Some c \<and> IsExpired (store E) now (c_expires c))"
    proof
      assume "\<exists>e \<in> set es. EntryKey e = k \<and> reclaims (cells E s) e"
      then show "\<exists>c. cells E s k = Some c \<and> IsExpired (store E) now (c_expires c)"
        using expired_entries_set [OF assms(1), of _ now s] es(1) by auto
    next
      assume "\<exists>c. cells E s k = Some c \<and> IsExpired (store E) now (c_expires c)"
      then obtain c where c: "cells E s k = Some c" "IsExpired (store E) now (c_expires c)"
        by blast
      then have "\<lparr>EntryKey = k, re_Version = c_version c\<rparr> \<in> set es"
        using expired_entries_set [OF assms(1), of "\<lparr>EntryKey = k, re_Version = c_version c\<rparr>" now s]
          es(1) by simp
      then show "\<exists>e \<in> set es. EntryKey e = k \<and> reclaims (cells E s) e"
        using c by (intro bexI) (auto simp: reclaims_def)
    qed
    then show ?thesis
      using Reclaim_refines [OF assms(1) r] by (auto simp: spec_Reclaim_closed live_def split: option.splits)
  qed
  with r es(2) show ?thesis by auto
qed

text \<open>Counters: a sequence of increments of one key, each with the same initial value, returns the
  running sums, and the last current value is the counter's start (the stored value, or the initial one
  when there is none) plus the sum of the deltas, in wrap-around 64-bit arithmetic.\<close>

lemma increments_accumulate:
  assumes "runtime_ok E" "badger_up (badger E)" "\<And>n. fits E k (be64 n)"
    and "\<forall>r \<in> set rs. ir_Key r = Some k \<and> ir_Initial r = init"
  shows "(\<forall>x \<in> set (fst (run (\<lambda>s r. Increment E now s r cv) s rs)). isOk x)
     \<and> counter_of init (cells E (snd (run (\<lambda>s r. Increment E now s r cv) s rs)) (entry_key (uuid E) k))
       = counter_of init (cells E s (entry_key (uuid E) k)) + sum_list (map ir_Delta rs)"
  using assms(4)
proof (induction rs arbitrary: s)
  case Nil
  then show ?case by simp
next
  case (Cons r rs)
  let ?b = "entry_key (uuid E) k"
  have k: "ir_Key r = Some k" "ir_Initial r = init"
    using Cons.prems by auto
  have "isOk (fst (Increment E now s r cv))"
    by (rule Increment_up [OF assms(1,2) k(1) assms(3)])
  then obtain x s' where i: "Increment E now s r cv = (Inr x, s')"
    by (cases "Increment E now s r cv"; cases "fst (Increment E now s r cv)") auto
  have "cells E s' ?b = Some \<lparr>c_version = next_version cv (old_version (cells E s ?b)),
      c_expires = resolveExpiry E now (ir_TtlSeconds r) (ir_ExpiresAt r),
      c_value = be64 (counter_of init (cells E s ?b) + ir_Delta r), c_meta = 0\<rparr>"
    using Increment_refines [OF assms(1) k(1) i] k(2) by (simp add: spec_Increment_def Let_def)
  then have c: "counter_of init (cells E s' ?b) = counter_of init (cells E s ?b) + ir_Delta r"
    by (simp add: counter_of_def [of init "Some _"])
  have "\<forall>r \<in> set rs. ir_Key r = Some k \<and> ir_Initial r = init"
    using Cons.prems by simp
  note IH = Cons.IH [OF this, of s']
  have "run (\<lambda>s r. Increment E now s r cv) s (r # rs)
      = (Inr x # fst (run (\<lambda>s r. Increment E now s r cv) s' rs),
         snd (run (\<lambda>s r. Increment E now s r cv) s' rs))"
    by (simp add: i split_beta)
  with IH c show ?case
    by (simp add: add.assoc)
qed

section \<open>Reachable states\<close>

text \<open>Every writing method, with whatever request, commit version and clock.\<close>

inductive storage_step :: "'db runtime \<Rightarrow> 'db KeyValueStorageCtx \<Rightarrow> 'db KeyValueStorageCtx \<Rightarrow> bool"
  for E where
  step_Put: "Put E now s r cv = (res, s') \<Longrightarrow> storage_step E s s'"
| step_Touch: "Touch E now s r cv = (res, s') \<Longrightarrow> storage_step E s s'"
| step_Remove: "Remove E s q = (res, s') \<Longrightarrow> storage_step E s s'"
| step_Increment: "Increment E now s i cv = (res, s') \<Longrightarrow> storage_step E s s'"
| step_SetBatch: "cv \<noteq> 0 \<or> badger_up (badger E) \<Longrightarrow> SetBatch E now s b cv = (res, s') \<Longrightarrow> storage_step E s s'"
| step_Reclaim: "Reclaim E s c = (res, s') \<Longrightarrow> storage_step E s s'"

lemma storage_step_keys_wf:
  assumes "runtime_ok E" "storage_step E s s'" "keys_wf E s"
  shows "keys_wf E s'"
  using assms(2)
  by cases (blast intro: Put_keys_wf Touch_keys_wf Remove_keys_wf Increment_keys_wf SetBatch_keys_wf
      Reclaim_keys_wf assms(1,3))+



text \<open>The most recent version: among the stored versions of the row at or before the requested
  key, \<open>GetRecent\<close> answers from the greatest one in key order (the latest, as time UUIDs are stored in a
  sortable form), and with not-found when there is none.\<close>

lemma get_recent_latest:
  assumes "runtime_ok E" "badger_up (badger E)" "keys_wf E s" "kr_Key q = Some k"
  shows "\<exists>r. GetRecent E now s q = Inr r \<and>
    (if versions_upto E s k = {} then r = RecordNotFound k
     else let b = Max (versions_upto E s k) in
       DecodeKey (uuid E) b = Inr (the (rec_Key r)) \<and>
       summary r = map_option (answer (kr_HeadOnly q)) (live E now (cells E s b)))"
  by (rule GetRecent_cells [OF assms])

end
