(* ===== verification/Sha256.thy ===== *)
theory Sha256
  imports Prelude
begin

unbundle bit_operations_syntax

text \<open>
  The SHA-256 function of Go's crypto/sha256 (FIPS 180-4), which pkg/ledger folds the replicated log
  with: padding to 64-byte blocks, the 64-word message schedule and the compression of each block.
  The development uses of it that a digest has 32 bytes; statements about distinct inputs with one
  digest name the two inputs.
\<close>

text \<open>The constants of the standard are the first 32 bits of the fractional parts of the cube roots
  (round constants) and square roots (initial state) of the first primes. \<open>root_bits b e n r\<close> is the
  integer \<open>e\<close>-th root of \<open>n\<close>, found bit by bit from \<open>r\<close>.\<close>

fun root_bits :: "nat \<Rightarrow> nat \<Rightarrow> nat \<Rightarrow> nat \<Rightarrow> nat" where
  "root_bits 0 e n r = r"
| "root_bits (Suc b) e n r = root_bits b e n (if (r + 2 ^ b) ^ e \<le> n then r + 2 ^ b else r)"

definition small_primes :: "nat list" where
  "small_primes = filter (\<lambda>n. \<forall>d \<in> set [2..<n]. n mod d \<noteq> 0) [2..<312]"

definition sha_k :: "u32 list" where
  "sha_k = map (\<lambda>p. word_of_nat (root_bits 36 3 (p * 2 ^ 96) 0)) small_primes"

definition sha_h0 :: "nat \<Rightarrow> u32" where
  "sha_h0 i = word_of_nat (root_bits 36 2 (small_primes ! i * 2 ^ 64) 0)"

record sha_state =
  sha_a :: u32
  sha_b :: u32
  sha_c :: u32
  sha_d :: u32
  sha_e :: u32
  sha_f :: u32
  sha_g :: u32
  sha_h :: u32

definition sha_init :: sha_state where
  "sha_init = \<lparr>sha_a = sha_h0 0, sha_b = sha_h0 1, sha_c = sha_h0 2, sha_d = sha_h0 3,
     sha_e = sha_h0 4, sha_f = sha_h0 5, sha_g = sha_h0 6, sha_h = sha_h0 7\<rparr>"

definition rotr32 :: "nat \<Rightarrow> u32 \<Rightarrow> u32" where
  "rotr32 n x = (drop_bit n x) OR (push_bit (32 - n) x)"

definition ssig0 :: "u32 \<Rightarrow> u32" where
  "ssig0 x = rotr32 7 x XOR rotr32 18 x XOR drop_bit 3 x"

definition ssig1 :: "u32 \<Rightarrow> u32" where
  "ssig1 x = rotr32 17 x XOR rotr32 19 x XOR drop_bit 10 x"

definition bsig0 :: "u32 \<Rightarrow> u32" where
  "bsig0 x = rotr32 2 x XOR rotr32 13 x XOR rotr32 22 x"

definition bsig1 :: "u32 \<Rightarrow> u32" where
  "bsig1 x = rotr32 6 x XOR rotr32 11 x XOR rotr32 25 x"

definition sha_pad :: "bytes \<Rightarrow> bytes" where
  "sha_pad m = m @ 0x80 # replicate ((119 - length m mod 64) mod 64) 0 @ be_bytes 8 (8 * length m)"

text \<open>The message schedule: \<open>n\<close> further words after the ones in \<open>w\<close>.\<close>

fun sha_schedule :: "nat \<Rightarrow> u32 list \<Rightarrow> u32 list" where
  "sha_schedule 0 w = w"
| "sha_schedule (Suc n) w =
     (let l = length w in
      sha_schedule n (w @ [ssig1 (w ! (l - 2)) + w ! (l - 7) + ssig0 (w ! (l - 15)) + w ! (l - 16)]))"

definition sha_round :: "u32 \<times> u32 \<Rightarrow> sha_state \<Rightarrow> sha_state" where
  "sha_round kw s =
     (let e = sha_e s; a = sha_a s;
          ch = (e AND sha_f s) XOR ((NOT e) AND sha_g s);
          t1 = sha_h s + bsig1 e + ch + fst kw + snd kw;
          maj = (a AND sha_b s) XOR (a AND sha_c s) XOR (sha_b s AND sha_c s);
          t2 = bsig0 a + maj
      in \<lparr>sha_a = t1 + t2, sha_b = a, sha_c = sha_b s, sha_d = sha_c s,
          sha_e = sha_d s + t1, sha_f = e, sha_g = sha_f s, sha_h = sha_g s\<rparr>)"

fun word32s :: "bytes \<Rightarrow> u32 list" where
  "word32s (a # b # c # d # r) = word_of_nat (be_nat [a, b, c, d]) # word32s r"
| "word32s _ = []"

definition sha_compress :: "sha_state \<Rightarrow> bytes \<Rightarrow> sha_state" where
  "sha_compress s block =
     (let w = sha_schedule 48 (word32s block); t = fold sha_round (zip sha_k w) s
      in \<lparr>sha_a = sha_a s + sha_a t, sha_b = sha_b s + sha_b t, sha_c = sha_c s + sha_c t,
          sha_d = sha_d s + sha_d t, sha_e = sha_e s + sha_e t, sha_f = sha_f s + sha_f t,
          sha_g = sha_g s + sha_g t, sha_h = sha_h s + sha_h t\<rparr>)"

fun sha_blocks :: "nat \<Rightarrow> sha_state \<Rightarrow> bytes \<Rightarrow> sha_state" where
  "sha_blocks 0 s m = s"
| "sha_blocks (Suc n) s m = sha_blocks n (sha_compress s (take 64 m)) (drop 64 m)"

definition sha256 :: "bytes \<Rightarrow> bytes" where
  "sha256 m =
     (let p = sha_pad m; s = sha_blocks (length p div 64) sha_init p
      in concat (map (\<lambda>x. be_bytes 4 (unat x))
           [sha_a s, sha_b s, sha_c s, sha_d s, sha_e s, sha_f s, sha_g s, sha_h s]))"

lemma length_sha256 [simp, codec_simps]: "length (sha256 m) = 32"
  by (simp add: sha256_def Let_def)

lemma sha_pad_blocks: "length (sha_pad m) mod 64 = 0"
proof -
  define q r where "q = length m div 64" and "r = length m mod 64"
  have r: "r < 64" and m: "length m = 64 * q + r"
    by (simp_all add: q_def r_def)
  have "(119 - r) mod 64 = (if r \<le> 55 then 55 - r else 119 - r)"
    using r by (auto simp: mod_if)
  then have "length (sha_pad m) = 64 * q + (if r \<le> 55 then 64 else 128)"
    using r by (simp add: sha_pad_def m)
  then show ?thesis
    by simp
qed

end
