(* ===== verification/Hash_Chain.thy ===== *)
theory Hash_Chain
  imports Sha256
begin

text \<open>
  The tamper-evident log of pkg/ledger/hashchain.go: every committed raft entry is folded into a
  SHA-256 chain. The lemmas say that replayed entries leave the head alone, that the head after a
  log is the fold over it, and that one head commits to one log, unless the hashed messages exhibit a SHA-256 collision
  or a preimage of the genesis value.
\<close>

type_synonym digest = bytes

text \<open>The fields of a \<open>raft.Log\<close> that the state machine reads.\<close>

record raft_log =
  log_Index :: u64
  log_Term :: u64
  log_Data :: bytes

definition GenesisDigest :: digest where
  "GenesisDigest = replicate 32 0"

definition NextDigest :: "digest \<Rightarrow> u64 \<Rightarrow> u64 \<Rightarrow> bytes \<Rightarrow> digest" where
  "NextDigest prev index term command = sha256 (prev @ be64 index @ be64 term @ command)"

record HashChain =
  hc_index :: u64
  hc_digest :: digest

definition NewHashChain :: "u64 \<Rightarrow> digest \<Rightarrow> HashChain" where
  "NewHashChain index digest = \<lparr>hc_index = index, hc_digest = digest\<rparr>"

definition Advance :: "HashChain \<Rightarrow> u64 \<Rightarrow> u64 \<Rightarrow> bytes \<Rightarrow> HashChain" where
  "Advance c index term command =
     (if index \<le> hc_index c then c
      else \<lparr>hc_index = index, hc_digest = NextDigest (hc_digest c) index term command\<rparr>)"

definition Chain_Head :: "HashChain \<Rightarrow> u64 \<times> digest" where
  "Chain_Head c = (hc_index c, hc_digest c)"

text \<open>The chain after a sequence of applied entries.\<close>

definition advance_entry :: "raft_log \<Rightarrow> HashChain \<Rightarrow> HashChain" where
  "advance_entry e c = Advance c (log_Index e) (log_Term e) (log_Data e)"

definition chain_of :: "HashChain \<Rightarrow> raft_log list \<Rightarrow> HashChain" where
  "chain_of c es = fold advance_entry es c"

definition genesis :: HashChain where
  "genesis = NewHashChain 0 GenesisDigest"

lemma chain_of_simps [simp]:
  "chain_of c [] = c"
  "chain_of c (e # es) = chain_of (advance_entry e c) es"
  "chain_of c (es @ fs) = chain_of (chain_of c es) fs"
  by (simp_all add: chain_of_def)

lemma advance_entry_index: "hc_index (advance_entry e c) = max (hc_index c) (log_Index e)"
  by (auto simp: advance_entry_def Advance_def max_def)

lemma advance_entry_replay: "log_Index e \<le> hc_index c \<Longrightarrow> advance_entry e c = c"
  by (simp add: advance_entry_def Advance_def)

lemma chain_of_replay: "\<forall>e \<in> set es. log_Index e \<le> hc_index c \<Longrightarrow> chain_of c es = c"
  by (induction es) (auto simp: advance_entry_replay)

lemma chain_of_index:
  assumes "sorted_wrt (<) (map log_Index es)" "\<forall>e \<in> set es. hc_index c < log_Index e" "es \<noteq> []"
  shows "hc_index (chain_of c es) = log_Index (last es)"
  using assms
proof (induction es arbitrary: c)
  case Nil
  then show ?case by simp
next
  case (Cons e es)
  then show ?case
    by (cases es) (auto simp: advance_entry_index max_def)
qed

text \<open>Every entry of the log is at or below the head.\<close>

lemma chain_of_index_ge: "e \<in> set es \<Longrightarrow> log_Index e \<le> hc_index (chain_of c es)"
proof (induction es arbitrary: c)
  case Nil
  then show ?case by simp
next
  case (Cons f es)
  have mono: "hc_index c' \<le> hc_index (chain_of c' es)" for c'
  proof (induction es arbitrary: c')
    case (Cons g es)
    have "hc_index c' \<le> hc_index (advance_entry g c')"
      by (simp add: advance_entry_index)
    with Cons.IH [of "advance_entry g c'"] show ?case by (simp add: order_trans)
  qed simp
  show ?case
  proof (cases "e = f")
    case True
    then show ?thesis
      using mono [of "advance_entry f c"] by (auto simp: advance_entry_index intro: order_trans)
  next
    case False
    with Cons show ?thesis by simp
  qed
qed

section \<open>The digest commits to the log\<close>

text \<open>The messages that the chain of a log hashes. A digest has 32 bytes, so SHA-256 has collisions; what
  is computationally hard is to exhibit one. The clauses below therefore speak of these messages only:
  two different logs with one digest would exhibit a collision, or a preimage of the genesis value.\<close>

definition entry_message :: "raft_log \<Rightarrow> HashChain \<Rightarrow> bytes" where
  "entry_message e c = hc_digest c @ be64 (log_Index e) @ be64 (log_Term e) @ log_Data e"

fun chain_messages :: "HashChain \<Rightarrow> raft_log list \<Rightarrow> bytes list" where
  "chain_messages c [] = []"
| "chain_messages c (e # es) = entry_message e c # chain_messages (advance_entry e c) es"

definition exhibits_collision :: "raft_log list \<Rightarrow> raft_log list \<Rightarrow> bool" where
  "exhibits_collision es fs \<longleftrightarrow>
     (\<exists>x \<in> set (chain_messages genesis es). \<exists>y \<in> set (chain_messages genesis fs). x \<noteq> y \<and> sha256 x = sha256 y)"

definition exhibits_genesis :: "raft_log list \<Rightarrow> bool" where
  "exhibits_genesis es \<longleftrightarrow> (\<exists>x \<in> set (chain_messages genesis es). sha256 x = GenesisDigest)"

lemma chain_messages_snoc:
  "chain_messages c (es @ [e]) = chain_messages c es @ [entry_message e (chain_of c es)]"
  by (induction es arbitrary: c) simp_all

lemma exhibits_butlast:
  "exhibits_collision es fs \<Longrightarrow> exhibits_collision (es @ [e]) (fs @ [f])"
  "exhibits_genesis es \<Longrightarrow> exhibits_genesis (es @ [e])"
  by (auto simp: exhibits_collision_def exhibits_genesis_def chain_messages_snoc)

lemma length_NextDigest [simp]: "length (NextDigest p i t d) = 32"
  by (simp add: NextDigest_def)

lemma length_chain_digest:
  "length (hc_digest c) = 32 \<Longrightarrow> length (hc_digest (chain_of c es)) = 32"
  by (induction es arbitrary: c) (auto simp: advance_entry_def Advance_def)

lemma chain_snoc:
  assumes "sorted_wrt (<) (map log_Index (es @ [e]))" "\<forall>e \<in> set (es @ [e]). hc_index c < log_Index e"
  shows "hc_digest (chain_of c (es @ [e]))
       = NextDigest (hc_digest (chain_of c es)) (log_Index e) (log_Term e) (log_Data e)"
proof -
  have "hc_index (chain_of c es) < log_Index e"
  proof (cases "es = []")
    case False
    then have "hc_index (chain_of c es) = log_Index (last es)"
      using chain_of_index [of es c] assms by (simp add: sorted_wrt_append)
    moreover have "log_Index (last es) < log_Index e"
      using assms(1) False by (simp add: sorted_wrt_append)
    ultimately show ?thesis by simp
  qed (use assms in simp)
  then show ?thesis
    by (simp add: advance_entry_def Advance_def not_le [symmetric])
qed

definition log_ok :: "raft_log list \<Rightarrow> bool" where
  "log_ok es \<longleftrightarrow> sorted_wrt (<) (map log_Index es) \<and> (\<forall>e \<in> set es. 0 < log_Index e)"

lemma log_ok_snoc: "log_ok (es @ [e]) \<Longrightarrow> log_ok es"
  by (simp add: log_ok_def sorted_wrt_append)

lemma log_ok_append:
  assumes "log_ok (es @ fs)"
  shows "\<forall>e \<in> set es. log_Index e \<noteq> 0" "\<forall>e \<in> set fs. log_Index e \<noteq> 0"
    and "\<forall>e \<in> set es. \<forall>f \<in> set fs. log_Index e < log_Index f"
proof -
  have "\<forall>e \<in> set (es @ fs). 0 < log_Index e"
    using assms by (simp add: log_ok_def)
  then show "\<forall>e \<in> set es. log_Index e \<noteq> 0" "\<forall>e \<in> set fs. log_Index e \<noteq> 0"
    by (metis UnI1 UnI2 less_irrefl set_append)+
  show "\<forall>e \<in> set es. \<forall>f \<in> set fs. log_Index e < log_Index f"
    using assms by (auto simp: log_ok_def sorted_wrt_append)
qed

lemma genesis_sel [simp]: "hc_index genesis = 0" "hc_digest genesis = GenesisDigest"
  by (simp_all add: genesis_def NewHashChain_def)

lemma chain_digest_snoc:
  assumes "log_ok (es @ [e])"
  shows "hc_digest (chain_of genesis (es @ [e])) = sha256 (entry_message e (chain_of genesis es))"
  using assms chain_snoc [of es e genesis] by (simp add: log_ok_def NextDigest_def entry_message_def)

lemma snoc_not_genesis:
  assumes "log_ok (es @ [e])" "hc_digest (chain_of genesis (es @ [e])) = GenesisDigest"
  shows "exhibits_genesis (es @ [e])"
  using assms by (auto simp: chain_digest_snoc exhibits_genesis_def chain_messages_snoc simp del: chain_of_simps)

lemma entry_message_inject:
  assumes "entry_message e (chain_of genesis es) = entry_message f (chain_of genesis fs)"
  shows "e = f \<and> hc_digest (chain_of genesis es) = hc_digest (chain_of genesis fs)"
proof -
  have "length (hc_digest (chain_of genesis xs)) = 32" for xs
    by (rule length_chain_digest) (simp add: GenesisDigest_def)
  with assms show ?thesis
    by (simp add: entry_message_def)
qed

lemma chain_commits:
  assumes "log_ok es" "log_ok fs" "hc_digest (chain_of genesis es) = hc_digest (chain_of genesis fs)"
    and "\<not> exhibits_collision es fs" "\<not> exhibits_genesis es" "\<not> exhibits_genesis fs"
  shows "es = fs"
  using assms
proof (induction es arbitrary: fs rule: rev_induct)
  case Nil
  then show ?case
    using snoc_not_genesis by (cases fs rule: rev_cases) auto
next
  case (snoc e es)
  have "fs \<noteq> []"
    using snoc.prems(1,3,5) snoc_not_genesis [of es e] by auto
  then obtain gs g where fs: "fs = gs @ [g]"
    by (cases fs rule: rev_cases) auto
  have "sha256 (entry_message e (chain_of genesis es)) = sha256 (entry_message g (chain_of genesis gs))"
    using snoc.prems(1-3) by (simp only: fs chain_digest_snoc)
  then have "entry_message e (chain_of genesis es) = entry_message g (chain_of genesis gs)"
    using snoc.prems(4) by (auto simp: fs exhibits_collision_def chain_messages_snoc)
  from entry_message_inject [OF this] snoc.IH [of gs] snoc.prems(1,2,4-6) show ?case
    using log_ok_snoc exhibits_butlast by (metis fs)
qed

end
