(* ===== verification/Command.thy ===== *)
theory Command
  imports Pb
begin

text \<open>
  The raft log entry codec of pkg/replication/command.go. The value package is a parameter with its
  four calls on an abstract value type; the payload types are the request structs it is called with
  (and the head record of pkg/ledger/head.go, which goes through the same calls). The codec is an
  op byte followed by the packed payload; decoding what was encoded gives back op and payload.
\<close>

record headRecord =
  hr_Index :: u64
  hr_Digest :: bytes

datatype payload =
    PRecord RecordRequest
  | PKey KeyRequest
  | PIncrement IncrementRequest
  | PBatch BatchRequest
  | PReclaim ReclaimRequest
  | PHead headRecord

text \<open>The Go type a payload is unmarshalled into.\<close>

datatype payload_kind = KRecord | KKey | KIncrement | KBatch | KReclaim | KHead

fun kind_of :: "payload \<Rightarrow> payload_kind" where
  "kind_of (PRecord _) = KRecord"
| "kind_of (PKey _) = KKey"
| "kind_of (PIncrement _) = KIncrement"
| "kind_of (PBatch _) = KBatch"
| "kind_of (PReclaim _) = KReclaim"
| "kind_of (PHead _) = KHead"

record 'v value_api =
  Marshal :: "payload \<Rightarrow> 'v result"
  Pack :: "'v \<Rightarrow> bytes result"
  Unpack :: "bytes \<Rightarrow> 'v result"
  Unmarshal :: "'v \<Rightarrow> payload_kind \<Rightarrow> payload result"

text \<open>What is relied on: a payload that was marshalled and packed reads back.\<close>

definition value_ok :: "'v value_api \<Rightarrow> bool" where
  "value_ok V \<longleftrightarrow>
     (\<forall>p v b. Marshal V p = Inr v \<longrightarrow> Pack V v = Inr b \<longrightarrow>
        bindE (Unpack V b) (\<lambda>v. Unmarshal V v (kind_of p)) = Inr p)"

text \<open>Every payload of this program has a packed form.\<close>

definition value_up :: "'v value_api \<Rightarrow> bool" where
  "value_up V \<longleftrightarrow> (\<forall>p. isOk (bindE (Marshal V p) (Pack V)))"

type_synonym opCode = byte

definition opPut :: opCode where "opPut = 1"
definition opTouch :: opCode where "opTouch = 2"
definition opRemove :: opCode where "opRemove = 3"
definition opIncrement :: opCode where "opIncrement = 4"
definition opBatch :: opCode where "opBatch = 5"
definition opReclaim :: opCode where "opReclaim = 6"

lemmas op_defs = opPut_def opTouch_def opRemove_def opIncrement_def opBatch_def opReclaim_def

definition encodeCommand :: "'v value_api \<Rightarrow> opCode \<Rightarrow> payload \<Rightarrow> bytes result" where
  "encodeCommand V op msg =
     (case Marshal V msg of
        Inl e \<Rightarrow> Inl (Wrapped ''marshal raft command payload'' e)
      | Inr v \<Rightarrow>
          (case Pack V v of
             Inl e \<Rightarrow> Inl (Wrapped ''pack raft command payload'' e)
           | Inr payload \<Rightarrow> Inr (op # payload)))"

text \<open>The type of the message each op carries; None for an unknown op.\<close>

definition op_kind :: "opCode \<Rightarrow> payload_kind option" where
  "op_kind op =
     (if op = opPut \<or> op = opTouch then Some KRecord
      else if op = opRemove then Some KKey
      else if op = opIncrement then Some KIncrement
      else if op = opBatch then Some KBatch
      else if op = opReclaim then Some KReclaim
      else None)"

definition decodeCommand :: "'v value_api \<Rightarrow> bytes \<Rightarrow> opCode \<times> payload result" where
  "decodeCommand V data =
     (case data of
        [] \<Rightarrow> (0, Inl (Msg ''empty raft command''))
      | op # payload \<Rightarrow>
          (case op_kind op of
             None \<Rightarrow> (op, Inl (Msg ''unknown raft command op''))
           | Some kind \<Rightarrow>
               (case Unpack V payload of
                  Inl e \<Rightarrow> (op, Inl (Wrapped ''unpack raft command payload'' e))
                | Inr v \<Rightarrow>
                    (case Unmarshal V v kind of
                       Inl e \<Rightarrow> (op, Inl (Wrapped ''unmarshal raft command payload'' e))
                     | Inr msg \<Rightarrow> (op, Inr msg)))))"

lemma op_kind_simps [simp]:
  "op_kind opPut = Some KRecord" "op_kind opTouch = Some KRecord" "op_kind opRemove = Some KKey"
  "op_kind opIncrement = Some KIncrement" "op_kind opBatch = Some KBatch"
  "op_kind opReclaim = Some KReclaim"
  by (simp_all add: op_kind_def op_defs)

lemma decode_encode:
  assumes "value_ok V" "encodeCommand V op p = Inr data" "op_kind op = Some (kind_of p)"
  shows "decodeCommand V data = (op, Inr p)"
proof -
  from assms(2) obtain v b where vb: "Marshal V p = Inr v" "Pack V v = Inr b" "data = op # b"
    by (auto simp: encodeCommand_def split: sum.splits)
  then have "bindE (Unpack V b) (\<lambda>v. Unmarshal V v (kind_of p)) = Inr p"
    using assms(1) unfolding value_ok_def by blast
  then show ?thesis
    using assms(3) vb(3) by (auto simp: decodeCommand_def bindE_def split: sum.splits)
qed

lemma encode_up:
  assumes "value_up V"
  shows "\<exists>data. encodeCommand V op p = Inr (op # data)"
proof -
  have "isOk (bindE (Marshal V p) (Pack V))"
    using assms by (simp add: value_up_def)
  then obtain v b where "Marshal V p = Inr v" "Pack V v = Inr b"
    by (cases "Marshal V p"; cases "Pack V (projr (Marshal V p))") auto
  then show ?thesis
    by (simp add: encodeCommand_def)
qed

section \<open>An instance\<close>

text \<open>Payloads as their own values. A head record packs to its index and digest; any other payload
  packs to its position in a table of at most 256 payloads and is refused when it is not listed.\<close>

definition position :: "payload list \<Rightarrow> payload \<Rightarrow> nat" where
  "position tab p = length (takeWhile (\<lambda>q. q \<noteq> p) tab)"

definition mem_pack :: "payload list \<Rightarrow> payload \<Rightarrow> bytes result" where
  "mem_pack tab p =
     (case p of
        PHead h \<Rightarrow> Inr (0 # be64 (hr_Index h) @ hr_Digest h)
      | _ \<Rightarrow> if p \<in> set tab then Inr [1, word_of_nat (position tab p)]
             else Inl (Msg ''unknown payload''))"

definition mem_unpack :: "payload list \<Rightarrow> bytes \<Rightarrow> payload result" where
  "mem_unpack tab b =
     (case b of
        [] \<Rightarrow> Inl (Msg ''empty'')
      | t # r \<Rightarrow>
          if t = 0 then Inr (PHead \<lparr>hr_Index = unbe64 r, hr_Digest = drop 8 r\<rparr>)
          else (case r of
                  [i] \<Rightarrow> if unat i < length tab then Inr (tab ! unat i) else Inl (Msg ''unknown index'')
                | _ \<Rightarrow> Inl (Msg ''bad packing'')))"

definition mem_value :: "payload list \<Rightarrow> payload value_api" where
  "mem_value tab = \<lparr>
     Marshal = Inr,
     Pack = mem_pack tab,
     Unpack = mem_unpack tab,
     Unmarshal = (\<lambda>p k. if kind_of p = k then Inr p else Inl (Msg ''wrong type''))\<rparr>"

lemma position_nth: "p \<in> set tab \<Longrightarrow> position tab p < length tab \<and> tab ! position tab p = p"
  unfolding position_def by (induction tab) auto

lemma mem_value_ok:
  assumes "length tab \<le> 256"
  shows "value_ok (mem_value tab)"
proof -
  have unpack: "mem_unpack tab b = Inr p" if "mem_pack tab p = Inr b" for p b
  proof (cases "\<exists>h. p = PHead h")
    case True
    with that show ?thesis by (auto simp: mem_pack_def mem_unpack_def)
  next
    case False
    with that have "p \<in> set tab" and b: "b = [1, word_of_nat (position tab p)]"
      by (auto simp: mem_pack_def split: payload.splits if_splits)
    then have "position tab p < length tab" "tab ! position tab p = p"
      using position_nth by blast+
    then show ?thesis
      using b assms by (simp add: mem_unpack_def unat_of_nat)
  qed
  then show ?thesis
    by (simp add: value_ok_def mem_value_def)
qed

end
