(* ===== verification/Ledger_Head.thy ===== *)
theory Ledger_Head
  imports Hash_Chain Command Storage_Reads
begin

text \<open>
  Persistence of the chain head, pkg/ledger/head.go. \<open>LoadHead\<close> and \<open>StoreHead\<close> take the two methods
  of the \<open>headStore\<close> interface; the locale \<open>head_store\<close> states what they need of it (an unconditional
  put without expiry is read back) and proves the round trip. The storage of theory Storage is shown
  to be such a store.
\<close>

definition HeadTenant :: string where "HeadTenant = ''__ledger''"
definition HeadRegion :: string where "HeadRegion = ''CHAIN''"
definition HeadMinor :: string where "HeadMinor = ''head''"

definition headKey :: Key where
  "headKey = \<lparr>MajorKey = bytes_of HeadTenant, RegionName = bytes_of HeadRegion,
              MinorKey = bytes_of HeadMinor, Timestamp = None\<rparr>"

definition headRequest :: KeyRequest where
  "headRequest = \<lparr>kr_Key = Some headKey, kr_HeadOnly = False, kr_Timeout = 0\<rparr>"

definition headPut :: "bytes \<Rightarrow> RecordRequest" where
  "headPut raw = \<lparr>rr_Key = Some headKey, rr_Value = raw, rr_Metadata = 0, rr_TtlSeconds = 0,
     rr_CompareAndSet = False, rr_Version = 0, rr_Timeout = 0, rr_ExpiresAt = 0\<rparr>"

definition LoadHead :: "'v value_api \<Rightarrow> (KeyRequest \<Rightarrow> Record result) \<Rightarrow> u64 \<times> digest" where
  "LoadHead V get =
     (case get headRequest of
        Inl _ \<Rightarrow> (0, GenesisDigest)
      | Inr rec \<Rightarrow>
          if rec_Value rec = [] then (0, GenesisDigest)
          else (case Unpack V (rec_Value rec) of
                  Inl _ \<Rightarrow> (0, GenesisDigest)
                | Inr v \<Rightarrow>
                    (case Unmarshal V v KHead of
                       Inr (PHead hr) \<Rightarrow>
                         if length (hr_Digest hr) \<noteq> 32 then (0, GenesisDigest)
                         else (hr_Index hr, hr_Digest hr)
                     | _ \<Rightarrow> (0, GenesisDigest))))"

definition StoreHead ::
  "'v value_api \<Rightarrow> ('s \<Rightarrow> RecordRequest \<Rightarrow> u64 \<Rightarrow> Status result \<times> 's) \<Rightarrow> 's \<Rightarrow> u64 \<Rightarrow> digest \<Rightarrow> u64 \<Rightarrow> 's" where
  "StoreHead V put s index digest commitVersion =
     (case Marshal V (PHead \<lparr>hr_Index = index, hr_Digest = digest\<rparr>) of
        Inl _ \<Rightarrow> s
      | Inr v \<Rightarrow>
          (case Pack V v of
             Inl _ \<Rightarrow> s
           | Inr raw \<Rightarrow> snd (put s (headPut raw) commitVersion)))"

text \<open>The head record packs, and not to the empty string that \<open>LoadHead\<close> reads as absent.\<close>

definition head_packs :: "'v value_api \<Rightarrow> bool" where
  "head_packs V \<longleftrightarrow>
     (\<forall>h. case bindE (Marshal V (PHead h)) (Pack V) of Inl _ \<Rightarrow> False | Inr b \<Rightarrow> b \<noteq> [])"

lemma mem_value_head_packs: "head_packs (mem_value tab)"
  by (simp add: head_packs_def mem_value_def mem_pack_def)

locale head_store =
  fixes get :: "'s \<Rightarrow> KeyRequest \<Rightarrow> Record result"
    and put :: "'s \<Rightarrow> RecordRequest \<Rightarrow> u64 \<Rightarrow> Status result \<times> 's"
    and accepts :: "bytes \<Rightarrow> bool"
  assumes put_get: "accepts raw \<Longrightarrow>
    \<exists>rec. get (snd (put s (headPut raw) cv)) headRequest = Inr rec \<and> rec_Value rec = raw"
begin

lemma load_store:
  assumes "value_ok V" "head_packs V" "length d = 32" "\<And>raw. accepts raw"
  shows "LoadHead V (get (StoreHead V put s i d cv)) = (i, d)"
proof -
  let ?p = "PHead \<lparr>hr_Index = i, hr_Digest = d\<rparr>"
  have "case bindE (Marshal V ?p) (Pack V) of Inl _ \<Rightarrow> False | Inr b \<Rightarrow> b \<noteq> []"
    using assms(2) unfolding head_packs_def by (rule spec)
  then obtain v b where vb: "Marshal V ?p = Inr v" "Pack V v = Inr b" "b \<noteq> []"
    by (cases "Marshal V ?p") (auto split: sum.splits)
  have "bindE (Unpack V b) (\<lambda>v. Unmarshal V v (kind_of ?p)) = Inr ?p"
    using assms(1) vb(1,2) unfolding value_ok_def by blast
  then have "bindE (Unpack V b) (\<lambda>v. Unmarshal V v KHead) = Inr ?p"
    by simp
  then obtain u where u: "Unpack V b = Inr u" "Unmarshal V u KHead = Inr ?p"
    by (cases "Unpack V b") auto
  obtain rec where "get (snd (put s (headPut b) cv)) headRequest = Inr rec" "rec_Value rec = b"
    using put_get assms(4) by blast
  then show ?thesis
    using vb u assms(3) by (simp add: StoreHead_def LoadHead_def)
qed

end

section \<open>The storage is a head store\<close>

lemma resolveExpiry_none [simp]: "resolveExpiry E now 0 0 = 0"
  by (simp add: resolveExpiry_def)

lemma headPut_sel [simp]:
  "rr_Key (headPut raw) = Some headKey" "rr_Value (headPut raw) = raw"
  "rr_CompareAndSet (headPut raw) = False" "rr_TtlSeconds (headPut raw) = 0"
  "rr_ExpiresAt (headPut raw) = 0" "rr_Metadata (headPut raw) = 0"
  by (simp_all add: headPut_def)

lemma headRequest_sel [simp]: "kr_Key headRequest = Some headKey" "kr_HeadOnly headRequest = False"
  by (simp_all add: headRequest_def)

lemma storage_put_get_head:
  assumes "runtime_ok E" "badger_up (badger E)" "fits E headKey raw"
  shows "\<exists>rec. Get E now' (snd (Put E now s (headPut raw) cv)) headRequest = Inr rec
           \<and> rec_Value rec = raw"
proof -
  let ?k = "entry_key (uuid E) headKey"
  obtain st s' where p: "Put E now s (headPut raw) cv = (Inr st, s')"
    using Put_up [OF assms(1,2), of "headPut raw" headKey now s cv] assms(3)
    by (cases "Put E now s (headPut raw) cv"; cases "fst (Put E now s (headPut raw) cv)") auto
  have c: "cells E s' ?k = Some \<lparr>c_version = next_version cv (old_version (cells E s ?k)),
      c_expires = 0, c_value = raw, c_meta = 0\<rparr>"
    using Put_refines [OF assms(1) _ p, of headKey] by (simp add: spec_Put_def cas_ok_def)
  obtain rec where g: "Get E now' s' headRequest = Inr rec"
    and sm: "summary rec = map_option (answer False) (live E now' (cells E s' ?k))"
    using Get_cells [OF assms(1) _ readable_up [OF assms(2)], of headRequest headKey now' s'] by auto
  have "live E now' (cells E s' ?k) = cells E s' ?k"
    using store_ok_never [OF runtime_okD(2) [OF assms(1)]] by (simp add: live_def c)
  with sm c have "rec_Value rec = raw"
    by (auto simp: summary_def answer_def)
  with g p show ?thesis by simp
qed

interpretation storage_head: head_store "Get E now'" "Put E now"
    "\<lambda>raw. runtime_ok E \<and> badger_up (badger E) \<and> fits E headKey raw" for E now now'
  by unfold_locales (blast intro: storage_put_get_head)

end
