(* ===== verification/Storage_Total.thy ===== *)
theory Storage_Total
  imports Storage_Reads
begin

text \<open>
  The writes as total functions of the abstract store. When engine calls fail only by refusing an
  entry (a decision on its key and value alone), the outcome of a write, its error case included, is
  a function of the request, the commit version and the abstract store; neither the engine nor the
  clock of the node enters. This is the form in which theory Fsm uses the storage.
\<close>

section \<open>What a replica's behaviour depends on\<close>

record world =
  w_admits :: "bytes \<Rightarrow> bytes \<Rightarrow> bool"
  w_store :: store_api
  w_uuid :: uuid_api

definition world_of :: "'db runtime \<Rightarrow> world" where
  "world_of E = \<lparr>w_admits = admits (badger E), w_store = store E, w_uuid = uuid E\<rparr>"

definition badger_strict :: "'db badger_api \<Rightarrow> bool" where
  "badger_strict B \<longleftrightarrow> (\<forall>d k v m. isOk (txn_SetEntry B d k v m) \<longrightarrow> admits B k v)"

definition engine_ok :: "'db runtime \<Rightarrow> bool" where
  "engine_ok E \<longleftrightarrow> runtime_ok E \<and> badger_up (badger E) \<and> badger_strict (badger E)"

lemma engine_okD:
  assumes "engine_ok E"
  shows "runtime_ok E" "badger_up (badger E)" "badger_strict (badger E)"
  using assms by (simp_all add: engine_ok_def)

text \<open>A request whose expiry does not depend on the clock of the node that applies it.\<close>

definition resolved :: "i64 \<Rightarrow> i64 \<Rightarrow> bool" where
  "resolved ttlSeconds expiresAt \<longleftrightarrow> expiresAt \<noteq> 0 \<or> sint ttlSeconds \<le> 0"

lemma resolveExpiry_resolved: "resolved ttl ex \<Longrightarrow> resolveExpiry E now ttl ex = ex"
  by (auto simp: resolved_def resolveExpiry_def)

definition okOf :: "'a result \<Rightarrow> 'a option" where
  "okOf r = (case r of Inl _ \<Rightarrow> None | Inr a \<Rightarrow> Some a)"

lemma okOf_simps [simp]: "okOf (Inl e) = None" "okOf (Inr a) = Some a"
  by (simp_all add: okOf_def)

section \<open>Total abstract writes\<close>

definition write_cell ::
  "world \<Rightarrow> bytes \<Rightarrow> u64 \<Rightarrow> i64 \<Rightarrow> bytes \<Rightarrow> byte \<Rightarrow> 'a \<Rightarrow> cell_map \<Rightarrow> 'a option \<times> cell_map" where
  "write_cell W k ver ex x m reply cs =
     (if w_admits W k (EncodeEnvelope (w_store W) ver ex x)
      then (Some reply, cs(k \<mapsto> \<lparr>c_version = ver, c_expires = ex, c_value = x, c_meta = m\<rparr>))
      else (None, cs))"

definition total_Put :: "world \<Rightarrow> RecordRequest \<Rightarrow> u64 \<Rightarrow> cell_map \<Rightarrow> Status option \<times> cell_map" where
  "total_Put W r cv cs =
     (case rr_Key r of
        None \<Rightarrow> (None, cs)
      | Some k \<Rightarrow>
          let b = entry_key (w_uuid W) k in
          if cas_ok r (cs b)
          then write_cell W b (next_version cv (old_version (cs b))) (rr_ExpiresAt r) (rr_Value r)
                 (ucast (rr_Metadata r)) \<lparr>Updated = True\<rparr> cs
          else (Some \<lparr>Updated = False\<rparr>, cs))"

definition total_Touch :: "world \<Rightarrow> RecordRequest \<Rightarrow> u64 \<Rightarrow> cell_map \<Rightarrow> Status option \<times> cell_map" where
  "total_Touch W r cv cs =
     (case rr_Key r of
        None \<Rightarrow> (None, cs)
      | Some k \<Rightarrow>
          let b = entry_key (w_uuid W) k in
          case cs b of
            None \<Rightarrow> (Some \<lparr>Updated = False\<rparr>, cs)
          | Some c \<Rightarrow> write_cell W b (next_version cv (c_version c)) (rr_ExpiresAt r) (c_value c)
                        (c_meta c) \<lparr>Updated = True\<rparr> cs)"

definition total_Remove :: "world \<Rightarrow> KeyRequest \<Rightarrow> cell_map \<Rightarrow> Status option \<times> cell_map" where
  "total_Remove W r cs =
     (case kr_Key r of
        None \<Rightarrow> (None, cs)
      | Some k \<Rightarrow> (Some \<lparr>Updated = True\<rparr>, cs(entry_key (w_uuid W) k := None)))"

definition total_Increment ::
  "world \<Rightarrow> IncrementRequest \<Rightarrow> u64 \<Rightarrow> cell_map \<Rightarrow> IncrementResponse option \<times> cell_map" where
  "total_Increment W r cv cs =
     (case ir_Key r of
        None \<Rightarrow> (None, cs)
      | Some k \<Rightarrow>
          let b = entry_key (w_uuid W) k; prev = counter_of (ir_Initial r) (cs b);
              ver = next_version cv (old_version (cs b)) in
          write_cell W b ver (ir_ExpiresAt r) (be64 (prev + ir_Delta r)) 0
            \<lparr>Previous = prev, Current = prev + ir_Delta r, ir_Version = ver\<rparr> cs)"

fun total_batch :: "world \<Rightarrow> u64 \<Rightarrow> RecordRequest list \<Rightarrow> cell_map \<Rightarrow> cell_map option" where
  "total_batch W cv [] cs = Some cs"
| "total_batch W cv (r # rs) cs =
     (case rr_Key r of
        None \<Rightarrow> None
      | Some k \<Rightarrow>
          let b = entry_key (w_uuid W) k in
          case write_cell W b (next_version cv (old_version (cs b))) (rr_ExpiresAt r) (rr_Value r)
                 (ucast (rr_Metadata r)) () cs of
            (None, _) \<Rightarrow> None
          | (Some _, cs') \<Rightarrow> total_batch W cv rs cs')"

definition total_SetBatch :: "world \<Rightarrow> BatchRequest \<Rightarrow> u64 \<Rightarrow> cell_map \<Rightarrow> Status option \<times> cell_map" where
  "total_SetBatch W q cv cs =
     (case total_batch W cv (Records q) cs of
        None \<Rightarrow> (None, cs)
      | Some cs' \<Rightarrow> (Some \<lparr>Updated = True\<rparr>, cs'))"

definition total_Reclaim :: "ReclaimRequest \<Rightarrow> cell_map \<Rightarrow> nat option \<times> cell_map" where
  "total_Reclaim q cs = (let (ks, cs') = spec_Reclaim cs (Entries q) in (Some (length ks), cs'))"

section \<open>The methods compute them\<close>

lemma world_of_sel [simp]:
  "w_admits (world_of E) = admits (badger E)" "w_store (world_of E) = store E"
  "w_uuid (world_of E) = uuid E"
  by (simp_all add: world_of_def)

lemma set_strict:
  assumes "engine_ok E"
  shows "isOk (txn_SetEntry (badger E) d k v m) \<longleftrightarrow> admits (badger E) k v"
  using engine_okD(2,3) [OF assms] unfolding badger_up_def badger_strict_def by blast

lemma commit_entry_total:
  assumes "engine_ok E"
  shows "(okOf (fst (commit_entry E s m1 m2 k (EncodeEnvelope (store E) ver ex x) m val v reply)),
          cells E (snd (commit_entry E s m1 m2 k (EncodeEnvelope (store E) ver ex x) m val v reply)))
       = write_cell (world_of E) k ver ex x m reply (cells E s)"
proof -
  let ?c = "commit_entry E s m1 m2 k (EncodeEnvelope (store E) ver ex x) m val v reply"
  note ok = engine_okD [OF assms]
  show ?thesis
  proof (cases "admits (badger E) k (EncodeEnvelope (store E) ver ex x)")
    case True
    then have "isOk (fst ?c)"
      by (rule commit_entry_up [OF ok(1,2)])
    then obtain r s' where c: "?c = (Inr r, s')"
      by (cases ?c; cases "fst ?c") auto
    from commit_entry_refines [OF ok(1) c] show ?thesis
      using True by (simp add: c write_cell_def)
  next
    case False
    then have "\<not> isOk (txn_SetEntry (badger E) (db s) k (EncodeEnvelope (store E) ver ex x) m)"
      by (simp add: set_strict [OF assms])
    then obtain e where "txn_SetEntry (badger E) (db s) k (EncodeEnvelope (store E) ver ex x) m = Inl e"
      by (cases "txn_SetEntry (badger E) (db s) k (EncodeEnvelope (store E) ver ex x) m") auto
    then show ?thesis
      using False by (simp add: commit_entry_def write_cell_def)
  qed
qed

lemma Put_total:
  assumes "engine_ok E" "resolved (rr_TtlSeconds r) (rr_ExpiresAt r)"
  shows "(okOf (fst (Put E now s r cv)), cells E (snd (Put E now s r cv)))
       = total_Put (world_of E) r cv (cells E s)"
proof (cases "rr_Key r")
  case None
  then show ?thesis by (simp add: Put_def total_Put_def)
next
  case (Some k)
  note ok = engine_okD [OF assms(1)]
  show ?thesis
    unfolding Put_read [OF ok(1) Some readable_up [OF ok(2)]] total_Put_def Some Let_def
      resolveExpiry_resolved [OF assms(2)]
    by (simp add: commit_entry_total [OF assms(1)])
qed

lemma Touch_total:
  assumes "engine_ok E" "resolved (rr_TtlSeconds r) (rr_ExpiresAt r)"
  shows "(okOf (fst (Touch E now s r cv)), cells E (snd (Touch E now s r cv)))
       = total_Touch (world_of E) r cv (cells E s)"
proof (cases "rr_Key r")
  case None
  then show ?thesis by (simp add: Touch_def total_Touch_def)
next
  case (Some k)
  note ok = engine_okD [OF assms(1)]
  show ?thesis
    unfolding Touch_read [OF ok(1) Some readable_up [OF ok(2)]] total_Touch_def Some Let_def
      resolveExpiry_resolved [OF assms(2)]
    by (simp add: commit_entry_total [OF assms(1)] split: option.splits)
qed

lemma Increment_total:
  assumes "engine_ok E" "resolved (ir_TtlSeconds r) (ir_ExpiresAt r)"
  shows "(okOf (fst (Increment E now s r cv)), cells E (snd (Increment E now s r cv)))
       = total_Increment (world_of E) r cv (cells E s)"
proof (cases "ir_Key r")
  case None
  then show ?thesis by (simp add: Increment_def total_Increment_def)
next
  case (Some k)
  note ok = engine_okD [OF assms(1)]
  show ?thesis
    unfolding Increment_read [OF ok(1) Some readable_up [OF ok(2)]] total_Increment_def Some Let_def
      resolveExpiry_resolved [OF assms(2)]
    by (simp add: commit_entry_total [OF assms(1)])
qed

lemma ok_resultE:
  assumes "isOk (fst p)"
  obtains r s where "p = (Inr r, s)"
  using assms by (cases p; cases "fst p") auto

lemma Remove_total:
  assumes "engine_ok E"
  shows "(okOf (fst (Remove E s r)), cells E (snd (Remove E s r)))
       = total_Remove (world_of E) r (cells E s)"
proof (cases "kr_Key r")
  case None
  then show ?thesis by (simp add: Remove_def total_Remove_def)
next
  case (Some k)
  note ok = engine_okD [OF assms]
  obtain st s' where "Remove E s r = (Inr st, s')"
    using Remove_up [OF ok(1,2) Some] by (rule ok_resultE)
  with Remove_refines [OF ok(1) Some this] show ?thesis
    by (simp add: total_Remove_def Some spec_Remove_def)
qed

lemma Reclaim_total:
  assumes "engine_ok E"
  shows "(okOf (fst (Reclaim E s r)), cells E (snd (Reclaim E s r)))
       = total_Reclaim r (cells E s)"
proof -
  note ok = engine_okD [OF assms]
  obtain n s' where "Reclaim E s r = (Inr n, s')"
    using Reclaim_up [OF ok(1,2)] by (rule ok_resultE)
  with Reclaim_refines [OF ok(1) this] show ?thesis
    by (simp add: total_Reclaim_def split_beta)
qed

lemma batch_loop_total:
  assumes "engine_ok E" "\<forall>r \<in> set rs. resolved (rr_TtlSeconds r) (rr_ExpiresAt r)"
  shows "(case batch_loop E now cv d p rs of Inl _ \<Rightarrow> None | Inr (d', _) \<Rightarrow> Some (txn_cells E d'))
       = total_batch (world_of E) cv rs (txn_cells E d)"
  using assms(2)
proof (induction rs arbitrary: d p)
  case Nil
  then show ?case by simp
next
  case (Cons r rs)
  note ok = engine_okD [OF assms(1)]
  show ?case
  proof (cases "rr_Key r")
    case None
    then show ?thesis by simp
  next
    case (Some k)
    let ?k = "entry_key (uuid E) k"
    let ?ver = "next_version cv (old_version (txn_cells E d ?k))"
    let ?env = "EncodeEnvelope (store E) ?ver (rr_ExpiresAt r) (rr_Value r)"
    let ?set = "txn_SetEntry (badger E) d ?k ?env (ucast (rr_Metadata r))"
    have ver: "(if cv \<noteq> 0 then Inr cv
         else case txn_Get (badger E) d ?k of
           Inr it \<Rightarrow> (case ValueCopy it of Inr data \<Rightarrow> Inr (fst (counterFromEnvelope E data 0) + 1)
                     | Inl _ \<Rightarrow> Inr 1)
         | Inl e \<Rightarrow> if e \<noteq> ErrKeyNotFound then Inl e else Inr 1) = (Inr ?ver :: u64 result)"
      by (rule readableE [OF ok(1) readable_up [OF ok(2)], of d ?k])
         (simp_all add: next_version_def old_version_def counterFromEnvelope_def cell_of_sel split_beta)
    have step: "batch_loop E now cv d p (r # rs) =
        (case ?set of
           Inl e \<Rightarrow> Inl (Wrapped ''batch set entry error'' e)
         | Inr d1 \<Rightarrow> batch_loop E now cv d1
             (p @ [\<lparr>ch_key = ?k, ch_value = rr_Value r, ch_version = ?ver\<rparr>]) rs)"
      using Cons.prems by (simp add: Some runtime_okD(4) [OF ok(1)] Let_def ver
          resolveExpiry_resolved del: if_not_P)
    show ?thesis
    proof (cases ?set)
      case (Inl e)
      then have "\<not> admits (badger E) ?k ?env"
        using set_strict [OF assms(1)] by (metis isOk_simps(2))
      then show ?thesis
        unfolding step by (simp add: Inl Some write_cell_def)
    next
      case (Inr d1)
      then have "admits (badger E) ?k ?env"
        using set_strict [OF assms(1)] by (metis isOk_simps(1))
      with txn_cells_set [OF ok(1) Inr] Cons show ?thesis
        unfolding step by (simp add: Inr Some write_cell_def Let_def)
    qed
  qed
qed

lemma SetBatch_total:
  assumes "engine_ok E" "\<forall>r \<in> set (Records q). resolved (rr_TtlSeconds r) (rr_ExpiresAt r)"
  shows "(okOf (fst (SetBatch E now s q cv)), cells E (snd (SetBatch E now s q cv)))
       = total_SetBatch (world_of E) q cv (cells E s)"
proof -
  note ok = engine_okD [OF assms(1)]
  show ?thesis
  proof (cases "batch_loop E now cv (db s) [] (Records q)")
    case (Inl e)
    then show ?thesis
      using batch_loop_total [OF assms, of now cv "db s" "[]"]
      by (simp add: SetBatch_def total_SetBatch_def cells_def [symmetric] split: option.splits)
  next
    case (Inr dp)
    obtain d p where dp: "dp = (d, p)" by (cases dp)
    obtain d' where "txn_Commit (badger E) d = Inr d'" "txn_cells E d' = txn_cells E d"
      using commit_up [OF runtime_okD(1) [OF ok(1)] ok(2)] txn_cells_commit [OF ok(1)] by metis
    moreover have "total_batch (world_of E) cv (Records q) (cells E s) = Some (txn_cells E d)"
      using Inr dp batch_loop_total [OF assms, of now cv "db s" "[]"] by (simp add: cells_def)
    ultimately show ?thesis
      using Inr dp by (simp add: SetBatch_def total_SetBatch_def)
  qed
qed

end
