(* ===== verification/Fsm.thy ===== *)
theory Fsm
  imports Ledger_Head Storage_Total Refinement
begin

text \<open>
  The raft state machine of pkg/replication/fsm.go and snapshot.go: \<open>Apply\<close> folds an entry into the
  hash chain, persists the head, decodes the command and runs it on the storage with the entry's
  index as commit version. The lemmas give the abstract machine on (chain, cells) that \<open>Apply\<close>
  implements, and from it the agreement of replicas and the behaviour of versions along a log.
\<close>

section \<open>The state machine\<close>

record 'db FSM =
  fsm_Storage :: "'db KeyValueStorageCtx"
  fsm_chain :: "HashChain option"

record fsmResult =
  fr_status :: "Status option"
  fr_incr :: "IncrementResponse option"
  fr_reclaimed :: nat
  fr_err :: "go_error option"

definition load_chain :: "'db runtime \<Rightarrow> 'v value_api \<Rightarrow> time \<Rightarrow> 'db KeyValueStorageCtx \<Rightarrow> HashChain" where
  "load_chain E V now s = (let (index, digest) = LoadHead V (Get E now s) in NewHashChain index digest)"

definition PostConstruct :: "'db runtime \<Rightarrow> 'v value_api \<Rightarrow> time \<Rightarrow> 'db FSM \<Rightarrow> 'db FSM" where
  "PostConstruct E V now t = t\<lparr>fsm_chain := Some (load_chain E V now (fsm_Storage t))\<rparr>"

text \<open>\<open>ensureChain\<close> followed by the read of \<open>t.chain\<close>.\<close>

definition ensureChain :: "'db runtime \<Rightarrow> 'v value_api \<Rightarrow> time \<Rightarrow> 'db FSM \<Rightarrow> HashChain" where
  "ensureChain E V now t =
     (case fsm_chain t of None \<Rightarrow> load_chain E V now (fsm_Storage t) | Some c \<Rightarrow> c)"

definition ChainHead :: "'db runtime \<Rightarrow> 'v value_api \<Rightarrow> time \<Rightarrow> 'db FSM \<Rightarrow> (u64 \<times> digest) \<times> 'db FSM" where
  "ChainHead E V now t =
     (let c = ensureChain E V now t in (Chain_Head c, t\<lparr>fsm_chain := Some c\<rparr>))"

definition advanceChain :: "'db runtime \<Rightarrow> 'v value_api \<Rightarrow> time \<Rightarrow> 'db FSM \<Rightarrow> raft_log \<Rightarrow> 'db FSM" where
  "advanceChain E V now t entry =
     (let c = Advance (ensureChain E V now t) (log_Index entry) (log_Term entry) (log_Data entry);
          (index, digest) = Chain_Head c
      in t\<lparr>fsm_chain := Some c,
           fsm_Storage := StoreHead V (Put E now) (fsm_Storage t) index digest (log_Index entry)\<rparr>)"

definition errResult :: "go_error \<Rightarrow> fsmResult" where
  "errResult e = \<lparr>fr_status = None, fr_incr = None, fr_reclaimed = 0, fr_err = Some e\<rparr>"

definition statusResult :: "Status result \<Rightarrow> fsmResult" where
  "statusResult r = (case r of Inl e \<Rightarrow> errResult e
     | Inr st \<Rightarrow> \<lparr>fr_status = Some st, fr_incr = None, fr_reclaimed = 0, fr_err = None\<rparr>)"

definition incrResult :: "IncrementResponse result \<Rightarrow> fsmResult" where
  "incrResult r = (case r of Inl e \<Rightarrow> errResult e
     | Inr i \<Rightarrow> \<lparr>fr_status = None, fr_incr = Some i, fr_reclaimed = 0, fr_err = None\<rparr>)"

definition reclaimResult :: "nat result \<Rightarrow> fsmResult" where
  "reclaimResult r = (case r of Inl e \<Rightarrow> errResult e
     | Inr n \<Rightarrow> \<lparr>fr_status = None, fr_incr = None, fr_reclaimed = n, fr_err = None\<rparr>)"

text \<open>The switch of \<open>Apply\<close>. The payload has the type that \<open>decodeCommand\<close> chose for the op; any
  other combination is a failed type assertion.\<close>

definition apply_op ::
  "'db runtime \<Rightarrow> time \<Rightarrow> opCode \<Rightarrow> payload \<Rightarrow> u64 \<Rightarrow> 'db KeyValueStorageCtx
   \<Rightarrow> fsmResult \<times> 'db KeyValueStorageCtx" where
  "apply_op E now op msg index s =
     (case msg of
        PRecord r \<Rightarrow>
          if op = opPut then (let (res, s) = Put E now s r index in (statusResult res, s))
          else if op = opTouch then (let (res, s) = Touch E now s r index in (statusResult res, s))
          else (errResult Panic, s)
      | PKey r \<Rightarrow>
          if op = opRemove then (let (res, s) = Remove E s r in (statusResult res, s))
          else (errResult Panic, s)
      | PIncrement r \<Rightarrow>
          if op = opIncrement then (let (res, s) = Increment E now s r index in (incrResult res, s))
          else (errResult Panic, s)
      | PBatch r \<Rightarrow>
          if op = opBatch then (let (res, s) = SetBatch E now s r index in (statusResult res, s))
          else (errResult Panic, s)
      | PReclaim r \<Rightarrow>
          if op = opReclaim then (let (res, s) = Reclaim E s r in (reclaimResult res, s))
          else (errResult Panic, s)
      | PHead r \<Rightarrow> (errResult Panic, s))"

definition Apply ::
  "'db runtime \<Rightarrow> 'v value_api \<Rightarrow> time \<Rightarrow> 'db FSM \<Rightarrow> raft_log \<Rightarrow> fsmResult \<times> 'db FSM" where
  "Apply E V now t entry =
     (let t = advanceChain E V now t entry in
      case decodeCommand V (log_Data entry) of
        (op, Inl err) \<Rightarrow> (errResult err, t)
      | (op, Inr msg) \<Rightarrow>
          (let (res, s) = apply_op E now op msg (log_Index entry) (fsm_Storage t)
           in (res, t\<lparr>fsm_Storage := s\<rparr>)))"

text \<open>\<open>Snapshot\<close> with \<open>Persist\<close>: a full backup of the storage; \<open>Restore\<close> loads one.\<close>

definition Snapshot :: "'db runtime \<Rightarrow> 'db FSM \<Rightarrow> bytes result" where
  "Snapshot E t =
     (case Backup E (fsm_Storage t) 0 of
        Inl e \<Rightarrow> Inl (Wrapped ''backup storage into snapshot sink'' e)
      | Inr (w, _) \<Rightarrow> Inr w)"

definition Restore :: "'db runtime \<Rightarrow> 'db FSM \<Rightarrow> bytes \<Rightarrow> go_error option \<times> 'db FSM" where
  "Restore E t rc =
     (let (err, s) = Load E (fsm_Storage t) rc in
      (map_option (Wrapped ''restore snapshot into storage'') err, t\<lparr>fsm_Storage := s\<rparr>))"

text \<open>A log applied in order, with the clock reading of each step.\<close>

definition apply_log ::
  "'db runtime \<Rightarrow> 'v value_api \<Rightarrow> 'db FSM \<Rightarrow> (time \<times> raft_log) list \<Rightarrow> fsmResult list \<times> 'db FSM" where
  "apply_log E V = run (\<lambda>t ne. Apply E V (fst ne) t (snd ne))"

section \<open>The abstract machine\<close>

text \<open>What a proposer can compare across replicas: the typed reply, or that there was an error.\<close>

record outcome =
  o_status :: "Status option"
  o_incr :: "IncrementResponse option"
  o_reclaimed :: nat
  o_failed :: bool

definition outcome_of :: "fsmResult \<Rightarrow> outcome" where
  "outcome_of r = \<lparr>o_status = fr_status r, o_incr = fr_incr r, o_reclaimed = fr_reclaimed r,
                   o_failed = (fr_err r \<noteq> None)\<rparr>"

definition failed :: outcome where
  "failed = \<lparr>o_status = None, o_incr = None, o_reclaimed = 0, o_failed = True\<rparr>"

definition status_outcome :: "Status option \<Rightarrow> outcome" where
  "status_outcome st = (case st of None \<Rightarrow> failed
     | Some x \<Rightarrow> \<lparr>o_status = Some x, o_incr = None, o_reclaimed = 0, o_failed = False\<rparr>)"

definition incr_outcome :: "IncrementResponse option \<Rightarrow> outcome" where
  "incr_outcome st = (case st of None \<Rightarrow> failed
     | Some x \<Rightarrow> \<lparr>o_status = None, o_incr = Some x, o_reclaimed = 0, o_failed = False\<rparr>)"

definition reclaim_outcome :: "nat option \<Rightarrow> outcome" where
  "reclaim_outcome st = (case st of None \<Rightarrow> failed
     | Some x \<Rightarrow> \<lparr>o_status = None, o_incr = None, o_reclaimed = x, o_failed = False\<rparr>)"

definition total_op :: "world \<Rightarrow> opCode \<Rightarrow> payload \<Rightarrow> u64 \<Rightarrow> cell_map \<Rightarrow> outcome \<times> cell_map" where
  "total_op W op msg index cs =
     (case msg of
        PRecord r \<Rightarrow>
          if op = opPut then (let (res, cs) = total_Put W r index cs in (status_outcome res, cs))
          else if op = opTouch then (let (res, cs) = total_Touch W r index cs in (status_outcome res, cs))
          else (failed, cs)
      | PKey r \<Rightarrow>
          if op = opRemove then (let (res, cs) = total_Remove W r cs in (status_outcome res, cs))
          else (failed, cs)
      | PIncrement r \<Rightarrow>
          if op = opIncrement then (let (res, cs) = total_Increment W r index cs in (incr_outcome res, cs))
          else (failed, cs)
      | PBatch r \<Rightarrow>
          if op = opBatch then (let (res, cs) = total_SetBatch W r index cs in (status_outcome res, cs))
          else (failed, cs)
      | PReclaim r \<Rightarrow>
          if op = opReclaim then (let (res, cs) = total_Reclaim r cs in (reclaim_outcome res, cs))
          else (failed, cs)
      | PHead r \<Rightarrow> (failed, cs))"

definition total_head :: "world \<Rightarrow> 'v value_api \<Rightarrow> HashChain \<Rightarrow> u64 \<Rightarrow> cell_map \<Rightarrow> cell_map" where
  "total_head W V c index cs =
     (case bindE (Marshal V (PHead \<lparr>hr_Index = hc_index c, hr_Digest = hc_digest c\<rparr>)) (Pack V) of
        Inl _ \<Rightarrow> cs
      | Inr raw \<Rightarrow> snd (total_Put W (headPut raw) index cs))"

definition total_Apply ::
  "world \<Rightarrow> 'v value_api \<Rightarrow> HashChain \<times> cell_map \<Rightarrow> raft_log \<Rightarrow> outcome \<times> HashChain \<times> cell_map" where
  "total_Apply W V st entry =
     (let c = advance_entry entry (fst st); cs = total_head W V c (log_Index entry) (snd st) in
      case decodeCommand V (log_Data entry) of
        (op, Inl err) \<Rightarrow> (failed, c, cs)
      | (op, Inr msg) \<Rightarrow>
          (let (res, cs) = total_op W op msg (log_Index entry) cs in (res, c, cs)))"

text \<open>Commands whose expiries were computed before they entered the log.\<close>

fun payload_resolved :: "payload \<Rightarrow> bool" where
  "payload_resolved (PRecord r) = resolved (rr_TtlSeconds r) (rr_ExpiresAt r)"
| "payload_resolved (PIncrement r) = resolved (ir_TtlSeconds r) (ir_ExpiresAt r)"
| "payload_resolved (PBatch r) =
     (\<forall>x \<in> set (Records r). resolved (rr_TtlSeconds x) (rr_ExpiresAt x))"
| "payload_resolved _ = True"

definition entry_resolved :: "'v value_api \<Rightarrow> raft_log \<Rightarrow> bool" where
  "entry_resolved V e = (case decodeCommand V (log_Data e) of (op, Inl _) \<Rightarrow> True
     | (op, Inr msg) \<Rightarrow> payload_resolved msg)"

section \<open>Apply implements the abstract machine\<close>

lemma result_outcomes:
  "outcome_of (errResult e) = failed"
  "outcome_of (statusResult r) = status_outcome (okOf r)"
  "outcome_of (incrResult i) = incr_outcome (okOf i)"
  "outcome_of (reclaimResult n) = reclaim_outcome (okOf n)"
  by (simp_all add: outcome_of_def errResult_def failed_def statusResult_def status_outcome_def
      incrResult_def incr_outcome_def reclaimResult_def reclaim_outcome_def okOf_def split: sum.splits)

lemma pair_fstI: "(f (fst p), g (snd p)) = q \<Longrightarrow> p = (a, b) \<Longrightarrow> (f a, g b) = q"
  by simp

lemma apply_op_total:
  assumes "engine_ok E" "payload_resolved msg" "apply_op E now op msg i s = (r, s')"
  shows "(outcome_of r, cells E s') = total_op (world_of E) op msg i (cells E s)"
proof (cases msg)
  case (PRecord q)
  then show ?thesis
    using assms Put_total [OF assms(1), of q now s i] Touch_total [OF assms(1), of q now s i]
    by (auto simp: apply_op_def total_op_def split_beta Let_def result_outcomes split: if_splits)
       (metis fst_conv snd_conv)+
next
  case (PKey q)
  then show ?thesis
    using assms Remove_total [OF assms(1), of s q]
    by (auto simp: apply_op_def total_op_def split_beta Let_def result_outcomes split: if_splits)
       (metis fst_conv snd_conv)+
next
  case (PIncrement q)
  then show ?thesis
    using assms Increment_total [OF assms(1), of q now s i]
    by (auto simp: apply_op_def total_op_def split_beta Let_def result_outcomes split: if_splits)
       (metis fst_conv snd_conv)+
next
  case (PBatch q)
  then show ?thesis
    using assms SetBatch_total [OF assms(1), of q now s i]
    by (auto simp: apply_op_def total_op_def split_beta Let_def result_outcomes split: if_splits)
       (metis fst_conv snd_conv)+
next
  case (PReclaim q)
  then show ?thesis
    using assms Reclaim_total [OF assms(1), of s q]
    by (auto simp: apply_op_def total_op_def split_beta Let_def result_outcomes split: if_splits)
       (metis fst_conv snd_conv)+
next
  case (PHead q)
  then show ?thesis
    using assms(3) by (auto simp: apply_op_def total_op_def result_outcomes)
qed

lemma StoreHead_total:
  assumes "engine_ok E"
  shows "cells E (StoreHead V (Put E now) s (hc_index c) (hc_digest c) i)
       = total_head (world_of E) V c i (cells E s)"
proof -
  have "cells E (snd (Put E now s (headPut raw) i)) = snd (total_Put (world_of E) (headPut raw) i (cells E s))"
    for raw
    using Put_total [OF assms, of "headPut raw" now s i] by (simp add: resolved_def) (metis snd_conv)
  then show ?thesis
    by (simp add: StoreHead_def total_head_def bindE_def split: sum.splits)
qed

definition fsm_rel :: "'db runtime \<Rightarrow> 'db FSM \<Rightarrow> HashChain \<times> cell_map \<Rightarrow> bool" where
  "fsm_rel E t st \<longleftrightarrow> fsm_chain t = Some (fst st) \<and> cells E (fsm_Storage t) = snd st"

lemma Apply_total:
  assumes "engine_ok E" "entry_resolved V e" "fsm_rel E t st" "Apply E V now t e = (r, t')"
  shows "\<exists>st'. total_Apply (world_of E) V st e = (outcome_of r, st') \<and> fsm_rel E t' st'"
proof -
  define c where "c = advance_entry e (fst st)"
  define t1 where "t1 = advanceChain E V now t e"
  have t1: "fsm_chain t1 = Some c"
    "cells E (fsm_Storage t1) = total_head (world_of E) V c (log_Index e) (snd st)"
    using assms(3) by (simp_all add: t1_def c_def advanceChain_def ensureChain_def fsm_rel_def
        Chain_Head_def advance_entry_def Let_def StoreHead_total [OF assms(1)])
  show ?thesis
  proof (cases "decodeCommand V (log_Data e)")
    case (Pair op m)
    show ?thesis
    proof (cases m)
      case (Inl err)
      with assms(4) Pair have "r = errResult err" "t' = t1"
        by (auto simp: Apply_def t1_def Let_def)
      then show ?thesis
        using t1 Pair Inl
        by (simp add: total_Apply_def Let_def c_def [symmetric] fsm_rel_def result_outcomes)
    next
      case (Inr msg)
      obtain s' where op: "apply_op E now op msg (log_Index e) (fsm_Storage t1) = (r, s')"
        and t': "t' = t1\<lparr>fsm_Storage := s'\<rparr>"
        using assms(4) Pair Inr by (auto simp: Apply_def t1_def Let_def split: prod.splits)
      have "payload_resolved msg"
        using assms(2) Pair Inr by (simp add: entry_resolved_def)
      from apply_op_total [OF assms(1) this op]
      show ?thesis
        using t1 Pair Inr t'
        by (auto simp: total_Apply_def Let_def c_def [symmetric] fsm_rel_def split_beta
            dest: sym [where t = "total_op _ _ _ _ _"])
    qed
  qed
qed

interpretation fsm: simulation "\<lambda>t ne. Apply E V (fst ne) t (snd ne)" "total_Apply (world_of E) V"
    "fsm_rel E" outcome_of snd "\<lambda>ne. engine_ok E \<and> entry_resolved V (snd ne)" for E V
  by unfold_locales (blast intro: Apply_total)

section \<open>Versions along a log\<close>

text \<open>A step at index \<open>i\<close> leaves a cell alone, removes it, or stamps it with \<open>i\<close>.\<close>

definition stamped :: "u64 set \<Rightarrow> cell_map \<Rightarrow> cell_map \<Rightarrow> bool" where
  "stamped I cs cs' \<longleftrightarrow> (\<forall>k. cs' k = cs k \<or> cs' k = None \<or> (\<exists>c. cs' k = Some c \<and> c_version c \<in> I))"

lemma stamped_refl [simp]: "stamped I cs cs"
  by (simp add: stamped_def)

lemma stamped_trans: "stamped I cs cs1 \<Longrightarrow> stamped J cs1 cs2 \<Longrightarrow> stamped (I \<union> J) cs cs2"
  unfolding stamped_def by (metis UnI1 UnI2)

lemma stamped_upd: "c_version c \<in> I \<Longrightarrow> stamped I cs cs1 \<Longrightarrow> stamped I cs (cs1(k \<mapsto> c))"
  by (auto simp: stamped_def)

lemma stamped_write: "ver \<in> I \<Longrightarrow> stamped I cs (snd (write_cell W k ver ex x m r cs))"
  by (simp add: write_cell_def stamped_upd)

lemma next_version_index: "i \<noteq> 0 \<Longrightarrow> next_version i v = i"
  by (simp add: next_version_def)

lemma stamped_batch: "i \<noteq> 0 \<Longrightarrow> total_batch W i rs cs = Some cs' \<Longrightarrow> stamped {i} cs cs'"
proof (induction rs arbitrary: cs)
  case Nil
  then show ?case by simp
next
  case (Cons r rs)
  then obtain k cs1 where "write_cell W (entry_key (w_uuid W) k)
      (next_version i (old_version (cs (entry_key (w_uuid W) k)))) (rr_ExpiresAt r) (rr_Value r)
      (ucast (rr_Metadata r)) () cs = (Some (), cs1)" and rest: "total_batch W i rs cs1 = Some cs'"
    by (auto simp: Let_def split: option.splits prod.splits)
  then have "stamped {i} cs cs1"
    using Cons.prems(1) by (metis next_version_index singletonI snd_conv stamped_write)
  with Cons.IH [OF Cons.prems(1) rest] show ?case
    using stamped_trans by fastforce
qed

lemma stamped_total_op:
  assumes "i \<noteq> 0"
  shows "stamped {i} cs (snd (total_op W op msg i cs))"
proof (cases msg)
  case (PBatch q)
  then show ?thesis
    using stamped_batch [OF assms] assms
    by (auto simp: total_op_def total_SetBatch_def Let_def split_beta split: option.splits)
next
  case (PReclaim q)
  then show ?thesis
    by (auto simp: total_op_def total_Reclaim_def Let_def split_beta stamped_def spec_Reclaim_closed)
next
  case (PKey q)
  then show ?thesis
    by (auto simp: total_op_def total_Remove_def Let_def split_beta stamped_def split: option.splits)
qed (use assms in \<open>auto simp: total_op_def total_Put_def total_Touch_def total_Increment_def Let_def
    split_beta next_version_index stamped_write split: option.splits\<close>)

lemma stamped_total_head:
  assumes "i \<noteq> 0"
  shows "stamped {i} cs (total_head W V c i cs)"
  using assms by (auto simp: total_head_def total_Put_def Let_def next_version_index stamped_write
      split: sum.splits)

lemma stamped_total_Apply:
  assumes "log_Index e \<noteq> 0"
  shows "stamped {log_Index e} (snd st) (snd (snd (total_Apply W V st e)))"
proof -
  let ?cs = "total_head W V (advance_entry e (fst st)) (log_Index e) (snd st)"
  have "stamped {log_Index e} (snd st) ?cs"
    by (rule stamped_total_head [OF assms])
  moreover have "stamped {log_Index e} ?cs (snd (total_op W op msg (log_Index e) ?cs))" for op msg
    by (rule stamped_total_op [OF assms])
  ultimately show ?thesis
    using stamped_trans [of "{log_Index e}" _ _ "{log_Index e}"]
    by (auto simp: total_Apply_def Let_def split_beta split: prod.splits sum.splits)
qed

lemma stamped_run:
  assumes "\<forall>e \<in> set es. log_Index e \<noteq> 0"
  shows "stamped (log_Index ` set es) (snd st) (snd (snd (run (total_Apply W V) st es)))"
  using assms
proof (induction es arbitrary: st)
  case Nil
  then show ?case by simp
next
  case (Cons e es)
  have "stamped {log_Index e} (snd st) (snd (snd (total_Apply W V st e)))"
    using Cons.prems by (intro stamped_total_Apply) simp
  from stamped_trans [OF this Cons.IH [of "snd (total_Apply W V st e)"]] Cons.prems
  show ?case by (simp add: split_beta Let_def)
qed

section \<open>The chain along a log\<close>

lemma Apply_chain:
  assumes "fsm_chain t = Some c" "Apply E V now t e = (r, t')"
  shows "fsm_chain t' = Some (advance_entry e c)"
  using assms by (auto simp: Apply_def advanceChain_def ensureChain_def Chain_Head_def advance_entry_def
      Let_def split: prod.splits sum.splits)

lemma apply_log_chain:
  assumes "fsm_chain t = Some c"
  shows "fsm_chain (snd (apply_log E V t log)) = Some (chain_of c (map snd log))"
  using assms
proof (induction log arbitrary: t c)
  case Nil
  then show ?case by (simp add: apply_log_def)
next
  case (Cons ne log)
  obtain r t' where a: "Apply E V (fst ne) t (snd ne) = (r, t')"
    by (cases "Apply E V (fst ne) t (snd ne)")
  from Cons.IH [OF Apply_chain [OF Cons.prems a]] a show ?case
    by (simp add: apply_log_def split_beta)
qed

section \<open>The persisted head\<close>

text \<open>What \<open>LoadHead\<close> makes of the bytes stored under the head key.\<close>

definition decode_head :: "'v value_api \<Rightarrow> bytes \<Rightarrow> u64 \<times> digest" where
  "decode_head V raw = LoadHead V (\<lambda>_. Inr \<lparr>rec_Key = None, rec_Head = None, rec_Value = raw\<rparr>)"

definition stored_head :: "'db runtime \<Rightarrow> time \<Rightarrow> cell_map \<Rightarrow> bytes" where
  "stored_head E now cs =
     (case live E now (cs (entry_key (uuid E) headKey)) of None \<Rightarrow> [] | Some c \<Rightarrow> c_value c)"

lemma summary_value:
  assumes "summary r = map_option (answer False) c" "rec_Head r = None \<Longrightarrow> rec_Value r = []"
  shows "rec_Value r = (case c of None \<Rightarrow> [] | Some c \<Rightarrow> c_value c)"
  using assms by (cases c; cases "rec_Head r") (auto simp: summary_def answer_def)

lemma Get_head_value:
  assumes "runtime_ok E" "badger_up (badger E)"
  shows "\<exists>rec. Get E now s headRequest = Inr rec \<and> rec_Value rec = stored_head E now (cells E s)"
proof -
  obtain rec where g: "Get E now s headRequest = Inr rec"
    and sm: "summary rec = map_option (answer False) (live E now (cells E s (entry_key (uuid E) headKey)))"
    using Get_cells [OF assms(1) _ readable_up [OF assms(2)], of headRequest headKey now s] by auto
  have "rec_Head rec = None \<Longrightarrow> rec_Value rec = []"
    using g by (auto simp: Get_def FetchRecord_def RecordNotFound_def RecordHead_def RecordValue_def Let_def
        split_beta split: sum.splits if_splits)
  with g summary_value [OF sm] show ?thesis
    by (simp add: stored_head_def)
qed

lemma LoadHead_stored:
  assumes "runtime_ok E" "badger_up (badger E)"
  shows "LoadHead V (Get E now s) = decode_head V (stored_head E now (cells E s))"
proof -
  obtain rec where "Get E now s headRequest = Inr rec" "rec_Value rec = stored_head E now (cells E s)"
    using Get_head_value [OF assms] by blast
  then show ?thesis
    by (simp add: LoadHead_def decode_head_def)
qed

text \<open>The entry keys a command can write.\<close>

fun payload_keys :: "uuid_api \<Rightarrow> payload \<Rightarrow> bytes set" where
  "payload_keys U (PRecord r) = entry_key U ` set_option (rr_Key r)"
| "payload_keys U (PKey r) = entry_key U ` set_option (kr_Key r)"
| "payload_keys U (PIncrement r) = entry_key U ` set_option (ir_Key r)"
| "payload_keys U (PBatch r) = (\<Union>x \<in> set (Records r). entry_key U ` set_option (rr_Key x))"
| "payload_keys U (PReclaim r) = EntryKey ` set (Entries r)"
| "payload_keys U (PHead r) = {}"

lemma total_batch_frame:
  "total_batch W i rs cs = Some cs' \<Longrightarrow> b \<notin> (\<Union>x \<in> set rs. entry_key (w_uuid W) ` set_option (rr_Key x))
   \<Longrightarrow> cs' b = cs b"
proof (induction rs arbitrary: cs)
  case Nil
  then show ?case by simp
next
  case (Cons r rs)
  then obtain k cs1 where k: "rr_Key r = Some k" and w: "write_cell W (entry_key (w_uuid W) k)
      (next_version i (old_version (cs (entry_key (w_uuid W) k)))) (rr_ExpiresAt r) (rr_Value r)
      (ucast (rr_Metadata r)) () cs = (Some (), cs1)" and rest: "total_batch W i rs cs1 = Some cs'"
    by (auto simp: Let_def split: option.splits prod.splits)
  have "cs1 b = cs b"
    using w k Cons.prems(2) by (auto simp: write_cell_def split: if_splits)
  with Cons.IH [OF rest] Cons.prems(2) show ?case by auto
qed

lemma total_op_frame:
  assumes "b \<notin> payload_keys (w_uuid W) msg"
  shows "snd (total_op W op msg i cs) b = cs b"
proof (cases msg)
  case (PBatch q)
  then show ?thesis
    using assms total_batch_frame [of W i "Records q" cs]
    by (auto simp: total_op_def total_SetBatch_def Let_def split_beta split: option.splits)
next
  case (PReclaim q)
  then show ?thesis
    using assms by (auto simp: total_op_def total_Reclaim_def Let_def split_beta spec_Reclaim_closed)
qed (use assms in \<open>auto simp: total_op_def total_Put_def total_Touch_def total_Remove_def
    total_Increment_def Let_def split_beta write_cell_def split: option.splits\<close>)

definition entry_keys :: "'v value_api \<Rightarrow> uuid_api \<Rightarrow> raft_log \<Rightarrow> bytes set" where
  "entry_keys V U e = (case decodeCommand V (log_Data e) of (op, Inl _) \<Rightarrow> {}
     | (op, Inr msg) \<Rightarrow> payload_keys U msg)"

lemma decode_pack_head:
  assumes "value_ok V" "head_packs V" "length d = 32"
  obtains raw where "bindE (Marshal V (PHead \<lparr>hr_Index = i, hr_Digest = d\<rparr>)) (Pack V) = Inr raw"
    "decode_head V raw = (i, d)"
proof -
  let ?p = "PHead \<lparr>hr_Index = i, hr_Digest = d\<rparr>"
  have "case bindE (Marshal V ?p) (Pack V) of Inl _ \<Rightarrow> False | Inr b \<Rightarrow> b \<noteq> []"
    using assms(2) unfolding head_packs_def by (rule spec)
  then obtain v b where vb: "Marshal V ?p = Inr v" "Pack V v = Inr b" "b \<noteq> []"
    by (cases "Marshal V ?p") (auto split: sum.splits)
  have "bindE (Unpack V b) (\<lambda>v. Unmarshal V v (kind_of ?p)) = Inr ?p"
    using assms(1) vb(1,2) unfolding value_ok_def by blast
  then obtain u where "Unpack V b = Inr u" "Unmarshal V u KHead = Inr ?p"
    by (cases "Unpack V b") auto
  then have "decode_head V b = (i, d)"
    using vb(3) assms(3) by (simp add: decode_head_def LoadHead_def)
  with that vb show ?thesis by simp
qed

lemma total_Apply_head:
  assumes "value_ok V" "head_packs V" "length (hc_digest (fst st)) = 32" "log_Index e \<noteq> 0"
    and "\<And>ver ex x. w_admits W (entry_key (w_uuid W) headKey) (EncodeEnvelope (w_store W) ver ex x)"
    and "entry_key (w_uuid W) headKey \<notin> entry_keys V (w_uuid W) e"
    and "total_Apply W V st e = (r, c', cs')"
  shows "\<exists>raw cell. cs' (entry_key (w_uuid W) headKey) = Some cell \<and> c_value cell = raw \<and> c_expires cell = 0
           \<and> decode_head V raw = (hc_index c', hc_digest c')"
proof -
  let ?h = "entry_key (w_uuid W) headKey"
  have c': "c' = advance_entry e (fst st)"
    using assms(7) by (auto simp: total_Apply_def Let_def split: prod.splits sum.splits)
  have len: "length (hc_digest c') = 32"
    using assms(3) by (simp add: c' advance_entry_def Advance_def)
  obtain raw where raw: "bindE (Marshal V (PHead \<lparr>hr_Index = hc_index c', hr_Digest = hc_digest c'\<rparr>)) (Pack V) = Inr raw"
    "decode_head V raw = (hc_index c', hc_digest c')"
    using decode_pack_head [OF assms(1,2) len] .
  let ?cs = "total_head W V c' (log_Index e) (snd st)"
  have h: "?cs ?h = Some \<lparr>c_version = log_Index e, c_expires = 0, c_value = raw, c_meta = 0\<rparr>"
    using raw(1) assms(4,5) by (simp add: total_head_def total_Put_def write_cell_def cas_ok_def
        next_version_def Let_def)
  have "cs' ?h = ?cs ?h"
    using assms(6,7) total_op_frame [of ?h W]
    by (auto simp: total_Apply_def Let_def c' entry_keys_def split: prod.splits sum.splits) (metis snd_conv)+
  with h raw(2) show ?thesis by auto
qed

end
