(* ===== verification/Replica_Props.thy ===== *)
theory Replica_Props
  imports Fsm Instances
begin

text \<open>Properties of the replicated state machine (pkg/replication/fsm.go, snapshot.go, command.go)
  and of the hash chain (pkg/ledger/hashchain.go, head.go).\<close>

section \<open>Instances for the concrete runs\<close>

lemma mem_engine_ok: "engine_ok mem_runtime"
proof -
  have "badger_strict mem_badger"
    by (simp add: badger_strict_def mem_badger_def)
  then show ?thesis
    by (simp add: engine_ok_def mem_runtime_ok mem_badger_up)
qed

definition increment_of :: "Key \<Rightarrow> i64 \<Rightarrow> payload" where
  "increment_of k n = PIncrement \<lparr>ir_Key = Some k, ir_Initial = 0, ir_Delta = n, ir_TtlSeconds = 0,
     ir_Timeout = 0, ir_ExpiresAt = 0\<rparr>"

definition put_of :: "Key \<Rightarrow> bytes \<Rightarrow> payload" where
  "put_of k v = PRecord \<lparr>rr_Key = Some k, rr_Value = v, rr_Metadata = 0, rr_TtlSeconds = 0,
     rr_CompareAndSet = False, rr_Version = 0, rr_Timeout = 0, rr_ExpiresAt = 0\<rparr>"

definition node_key :: Key where
  "node_key = text_key ''t'' ''r'' ''n''"

definition sample_tab :: "payload list" where
  "sample_tab = [increment_of node_key 5, put_of headKey [1]]"

definition sample_V :: "payload value_api" where
  "sample_V = mem_value sample_tab"

lemma sample_V_ok: "value_ok sample_V" "head_packs sample_V"
  by (simp_all add: sample_V_def mem_value_ok mem_value_head_packs sample_tab_def)

text \<open>Two entries: an increment of a record, and a put on the key of the chain head.\<close>

definition incr_entry :: "u64 \<Rightarrow> raft_log" where
  "incr_entry i = \<lparr>log_Index = i, log_Term = 1, log_Data = [opIncrement, 1, 0]\<rparr>"

definition head_entry :: "u64 \<Rightarrow> raft_log" where
  "head_entry i = \<lparr>log_Index = i, log_Term = 1, log_Data = [opPut, 1, 1]\<rparr>"

lemma sample_decode:
  "decodeCommand sample_V (log_Data (incr_entry i)) = (opIncrement, Inr (increment_of node_key 5))"
  "decodeCommand sample_V (log_Data (head_entry i)) = (opPut, Inr (put_of headKey [1]))"
  by (simp_all add: decodeCommand_def incr_entry_def head_entry_def sample_V_def mem_value_def
      mem_unpack_def sample_tab_def increment_of_def put_of_def)

lemma sample_entry_sel [simp]:
  "log_Index (incr_entry i) = i" "log_Index (head_entry i) = i"
  by (simp_all add: incr_entry_def head_entry_def)

lemma sample_resolved: "entry_resolved sample_V (incr_entry i)" "entry_resolved sample_V (head_entry i)"
  by (simp_all add: entry_resolved_def sample_decode increment_of_def put_of_def resolved_def)

definition fresh_node :: "entries FSM" where
  "fresh_node = \<lparr>fsm_Storage = mem_empty, fsm_chain = Some genesis\<rparr>"

lemma fresh_node_sel [simp]: "fsm_chain fresh_node = Some genesis" "fsm_Storage fresh_node = mem_empty"
  by (simp_all add: fresh_node_def)

lemma fits_mem [simp]: "fits mem_runtime k x"
  by (rule mem_fits)

section \<open>Agreement of replicas\<close>

text \<open>C1 Replicas converge: two nodes, on engines of their own and with clocks of their own, that start
  from equal stores and equal chains and apply the same log, whose expiries were fixed before it was
  proposed, produce the same outcome for every entry, the same chain and the same store.\<close>

theorem replicas_converge:
  assumes "engine_ok E" "engine_ok E'" "world_of E = world_of E'"
    and "map snd log = map snd log'" "\<forall>e \<in> set (map snd log). entry_resolved V e"
    and "fsm_chain t = Some c" "fsm_chain t' = Some c"
    and "cells E (fsm_Storage t) = cells E' (fsm_Storage t')"
  shows "map outcome_of (fst (apply_log E V t log)) = map outcome_of (fst (apply_log E' V t' log'))
     \<and> fsm_chain (snd (apply_log E V t log)) = fsm_chain (snd (apply_log E' V t' log'))
     \<and> cells E (fsm_Storage (snd (apply_log E V t log))) = cells E' (fsm_Storage (snd (apply_log E' V t' log')))"
proof -
  let ?st = "(c, cells E (fsm_Storage t))"
  have "fsm_rel E t ?st" "fsm_rel E' t' ?st"
    using assms(6-8) by (simp_all add: fsm_rel_def)
  moreover have "\<forall>ne \<in> set log. engine_ok E \<and> entry_resolved V (snd ne)"
    using assms(1,5) by simp
  moreover have "\<forall>ne \<in> set log'. engine_ok E' \<and> entry_resolved V (snd ne)"
    using assms(2,4,5) by (metis image_eqI set_map)
  ultimately show ?thesis
    using fsm.run_sim [of E t ?st log V] fsm.run_sim [of E' t' ?st log' V] assms(3,4)
    by (auto simp: apply_log_def fsm_rel_def)
qed

theorem replicas_converge_witness:
  "cells mem_runtime (fsm_Storage (snd (apply_log mem_runtime sample_V fresh_node [(0, incr_entry 1), (9, incr_entry 2)])))
   = cells mem_runtime (fsm_Storage (snd (apply_log mem_runtime sample_V fresh_node [(3, incr_entry 1), (4, incr_entry 2)])))"
  using replicas_converge [OF mem_engine_ok mem_engine_ok refl, where V = sample_V and t = fresh_node
      and t' = fresh_node and log = "[(0, incr_entry 1), (9, incr_entry 2)]"
      and log' = "[(3, incr_entry 1), (4, incr_entry 2)]" and c = genesis]
  by (simp add: sample_resolved)

section \<open>Versions\<close>

lemma apply_log_total:
  assumes "engine_ok E" "fsm_rel E t st" "\<forall>e \<in> set (map snd log). entry_resolved V e"
  shows "cells E (fsm_Storage (snd (apply_log E V t log)))
       = snd (snd (run (total_Apply (world_of E) V) st (map snd log)))"
  using fsm.run_sim [OF assms(2), of log V] assms(1,3) by (simp add: apply_log_def fsm_rel_def)

text \<open>The effect of the sample entries on the cell of the sample record.\<close>

abbreviation node_cell :: bytes where
  "node_cell \<equiv> entry_key mem_uuid node_key"

lemma node_cell_head: "node_cell \<noteq> entry_key mem_uuid headKey"
proof -
  have "key_fits node_key" "key_fits headKey" "node_key \<noteq> headKey"
    by (simp_all add: key_fits_def node_key_def text_key_def headKey_def HeadTenant_def HeadRegion_def
        HeadMinor_def MaxKeyLength_def)
  then show ?thesis
    using entry_key_inject [OF mem_uuid_ok mem_uuid_ok] by simp
qed

lemma mem_admits [simp]: "admits mem_badger k v"
  by (simp add: mem_badger_def)

lemma sample_incr_cell:
  assumes "i \<noteq> 0"
  shows "snd (snd (total_Apply (world_of mem_runtime) sample_V st (incr_entry i))) node_cell
     = Some \<lparr>c_version = i, c_expires = 0, c_value = be64 (counter_of 0 (snd st node_cell) + 5), c_meta = 0\<rparr>"
proof -
  have "total_head (world_of mem_runtime) sample_V c i cs node_cell = cs node_cell" for c cs
    using node_cell_head by (simp add: total_head_def total_Put_def Let_def write_cell_def split: sum.splits)
  then show ?thesis
    using assms by (simp add: total_Apply_def sample_decode total_op_def increment_of_def Let_def
        total_Increment_def write_cell_def next_version_def split_beta)
qed

lemma sample_head_cell:
  "snd (snd (total_Apply (world_of mem_runtime) sample_V st (head_entry i))) node_cell = snd st node_cell"
proof -
  have "total_head (world_of mem_runtime) sample_V c i cs node_cell = cs node_cell" for c cs
    using node_cell_head by (simp add: total_head_def total_Put_def Let_def write_cell_def split: sum.splits)
  then show ?thesis
    using node_cell_head by (simp add: total_Apply_def sample_decode total_op_def put_of_def Let_def
        total_Put_def write_cell_def split_beta)
qed

text \<open>C2 A version identifies a write: on a node that applied a log with ascending indices from an
  empty store, a record that shows the same version after two prefixes of the log is the same record,
  so a compare-and-set on a version read earlier succeeds only if the record was not rewritten in
  between (no ABA), removals and re-creations included.\<close>

theorem version_identifies_write:
  assumes "engine_ok E" "fsm_chain t = Some c" "cells E (fsm_Storage t) = Map.empty"
    and "log_ok (map snd (log1 @ log2))" "\<forall>e \<in> set (map snd (log1 @ log2)). entry_resolved V e"
    and "cells E (fsm_Storage (snd (apply_log E V t log1))) k = Some x"
    and "cells E (fsm_Storage (snd (apply_log E V t (log1 @ log2)))) k = Some y"
    and "c_version x = c_version y"
  shows "x = y"
proof -
  let ?st = "(c, Map.empty :: cell_map)" and ?W = "world_of E"
  define es1 es2 where es: "es1 = map snd log1" "es2 = map snd log2"
  define st1 where "st1 = snd (run (total_Apply ?W V) ?st es1)"
  have rel: "fsm_rel E t ?st"
    using assms(2,3) by (simp add: fsm_rel_def)
  have x: "snd st1 k = Some x"
    using apply_log_total [OF assms(1) rel, of log1 V] assms(5,6) by (simp add: st1_def es)
  have y: "snd (snd (run (total_Apply ?W V) st1 es2)) k = Some y"
    using apply_log_total [OF assms(1) rel, of "log1 @ log2" V] assms(5,7)
    by (simp add: st1_def es run_append split_beta Let_def)
  have log: "log_ok (es1 @ es2)"
    using assms(4) by (simp add: es)
  have "c_version x \<in> log_Index ` set es1"
  proof -
    have "stamped (log_Index ` set es1) Map.empty (snd st1)"
      using stamped_run [OF log_ok_append(1) [OF log], of ?st ?W V] by (simp add: st1_def)
    with x show ?thesis by (auto simp: stamped_def dest: spec [of _ k])
  qed
  then have "c_version y \<notin> log_Index ` set es2"
    using assms(8) log_ok_append(3) [OF log] by fastforce
  moreover have "stamped (log_Index ` set es2) (snd st1) (snd (snd (run (total_Apply ?W V) st1 es2)))"
    by (rule stamped_run [OF log_ok_append(2) [OF log]])
  ultimately show ?thesis
    using x y by (auto simp: stamped_def dest: spec [of _ k])
qed

lemma fresh_rel: "fsm_rel mem_runtime fresh_node (genesis, Map.empty)"
  by (simp add: fsm_rel_def mem_empty_cells)

theorem version_identifies_write_witness:
  "\<exists>x y. cells mem_runtime (fsm_Storage (snd (apply_log mem_runtime sample_V fresh_node [(0, incr_entry 1)]))) node_cell = Some x
     \<and> cells mem_runtime (fsm_Storage (snd (apply_log mem_runtime sample_V fresh_node
          ([(0, incr_entry 1)] @ [(0, head_entry 2)])))) node_cell = Some y \<and> x = y"
proof -
  obtain x where x: "cells mem_runtime (fsm_Storage (snd (apply_log mem_runtime sample_V fresh_node
      [(0, incr_entry 1)]))) node_cell = Some x" "c_version x = 1"
    using apply_log_total [OF mem_engine_ok fresh_rel, of "[(0, incr_entry 1)]" sample_V]
    by (simp add: sample_resolved split_beta Let_def sample_incr_cell)
  obtain y where y: "cells mem_runtime (fsm_Storage (snd (apply_log mem_runtime sample_V fresh_node
      ([(0, incr_entry 1)] @ [(0, head_entry 2)])))) node_cell = Some y" "c_version y = 1"
    using apply_log_total [OF mem_engine_ok fresh_rel, of "[(0, incr_entry 1)] @ [(0, head_entry 2)]" sample_V]
    by (simp add: sample_resolved split_beta Let_def sample_incr_cell sample_head_cell)
  have "log_ok (map snd ([(0 :: time, incr_entry 1)] @ [(0, head_entry 2)]))"
    by (simp add: log_ok_def)
  from version_identifies_write [OF mem_engine_ok _ _ this _ x(1) y(1)] x y show ?thesis
    by (simp add: sample_resolved mem_empty_cells)
qed

section \<open>The chain\<close>

text \<open>C7 Tamper evidence: two nodes that started at genesis and show the same chain digest have applied
  the same log, entry by entry with index, term and command bytes, unless the messages
  hashed for the two logs themselves exhibit a SHA-256 collision, or one of them hashes to the all-zero
  genesis value.\<close>

theorem chain_binds_log:
  assumes "fsm_chain t = Some genesis" "fsm_chain t' = Some genesis"
    and "log_ok (map snd log)" "log_ok (map snd log')"
    and "map_option hc_digest (fsm_chain (snd (apply_log E V t log)))
       = map_option hc_digest (fsm_chain (snd (apply_log E' V' t' log')))"
  shows "map snd log = map snd log' \<or> exhibits_collision (map snd log) (map snd log')
    \<or> exhibits_genesis (map snd log) \<or> exhibits_genesis (map snd log')"
proof -
  have "hc_digest (chain_of genesis (map snd log)) = hc_digest (chain_of genesis (map snd log'))"
    using assms(5) by (simp add: apply_log_chain [OF assms(1)] apply_log_chain [OF assms(2)])
  then show ?thesis
    using chain_commits [OF assms(3,4)] by blast
qed

theorem chain_binds_log_witness:
  "map snd [(0 :: time, incr_entry 1)] = map snd [(7 :: time, incr_entry 1)]
    \<or> exhibits_collision (map snd [(0 :: time, incr_entry 1)]) (map snd [(7 :: time, incr_entry 1)])
    \<or> exhibits_genesis (map snd [(0 :: time, incr_entry 1)]) \<or> exhibits_genesis (map snd [(7 :: time, incr_entry 1)])"
proof -
  have l: "log_ok (map snd [(n :: time, incr_entry 1)])" for n
    by (simp add: log_ok_def)
  show ?thesis
    by (rule chain_binds_log [OF fresh_node_sel(1) fresh_node_sel(1) l l, where E = mem_runtime
          and V = sample_V and E' = mem_runtime and V' = sample_V])
       (simp add: apply_log_chain [OF fresh_node_sel(1)])
qed

text \<open>Replay is harmless to the chain: after any log, re-applying entries at or below the head leaves
  the chain where it was, and later entries extend it as if nothing had been replayed.\<close>

lemma chain_ignores_replay:
  assumes "fsm_chain t = Some c" "set (map snd replay) \<subseteq> set (map snd log)"
  shows "fsm_chain (snd (apply_log E V t (log @ replay @ later)))
       = fsm_chain (snd (apply_log E V t (log @ later)))"
proof -
  have "\<forall>e \<in> set (map snd replay). log_Index e \<le> hc_index (chain_of c (map snd log))"
    using assms(2) chain_of_index_ge by blast
  then have "chain_of (chain_of c (map snd log)) (map snd replay) = chain_of c (map snd log)"
    by (rule chain_of_replay)
  then show ?thesis
    by (simp add: apply_log_chain [OF assms(1)])
qed

text \<open>C36 Replay is not harmless to the store: an increment entry that is applied a second time adds its
  delta a second time, although the chain treats the second application as already folded.\<close>

theorem replayed_increment_counts_twice:
  assumes "engine_ok E" "fsm_chain t = Some c" "log_Index e \<noteq> 0"
    and "decodeCommand V (log_Data e) = (opIncrement, Inr (PIncrement r))" "ir_Key r = Some k"
    and "resolved (ir_TtlSeconds r) (ir_ExpiresAt r)" "\<And>n. fits E k (be64 n)"
    and "key_fits k" "k \<noteq> headKey"
  shows "counter_of (ir_Initial r) (cells E (fsm_Storage (snd (apply_log E V t [(now, e), (now', e)])))
           (entry_key (uuid E) k))
       = counter_of (ir_Initial r) (cells E (fsm_Storage t) (entry_key (uuid E) k)) + ir_Delta r + ir_Delta r
     \<and> fsm_chain (snd (apply_log E V t [(now, e), (now', e)])) = fsm_chain (snd (apply_log E V t [(now, e)]))"
proof -
  let ?b = "entry_key (uuid E) k" and ?W = "world_of E"
  let ?st = "(c, cells E (fsm_Storage t))"
  have "key_fits headKey"
    by (simp add: key_fits_def headKey_def HeadTenant_def HeadRegion_def HeadMinor_def MaxKeyLength_def)
  then have "?b \<noteq> entry_key (uuid E) headKey"
    using entry_key_inject [OF runtime_okD(3) [OF engine_okD(1) [OF assms(1)]]
        runtime_okD(3) [OF engine_okD(1) [OF assms(1)]] assms(8)] assms(9) by simp
  then have hd: "total_head ?W V c' i cs ?b = cs ?b" for c' i cs
    by (simp add: total_head_def total_Put_def Let_def write_cell_def split: sum.splits)
  have adm: "admits (badger E) ?b (EncodeEnvelope (store E) v x (be64 n))" for v x n
    using assms(7) by (simp add: fits_def)
  have step: "counter_of (ir_Initial r) (snd (snd (total_Apply ?W V st e)) ?b)
      = counter_of (ir_Initial r) (snd st ?b) + ir_Delta r" for st
    by (simp add: total_Apply_def assms(4) total_op_def total_Increment_def assms(5) Let_def split_beta
        write_cell_def adm hd) (simp add: counter_of_def)
  have "fsm_rel E t ?st" "entry_resolved V e"
    using assms(2,4,6) by (simp_all add: fsm_rel_def entry_resolved_def)
  then have "cells E (fsm_Storage (snd (apply_log E V t [(now, e), (now', e)])))
      = snd (snd (total_Apply ?W V (snd (total_Apply ?W V ?st e)) e))"
    using apply_log_total [OF assms(1), of t ?st "[(now, e), (now', e)]" V] by (simp add: split_beta Let_def)
  moreover have "chain_of c (map snd [(now, e), (now', e)]) = chain_of c (map snd [(now, e)])"
    by (simp add: advance_entry_replay advance_entry_index)
  ultimately show ?thesis
    by (simp add: step apply_log_chain [OF assms(2)])
qed

theorem replayed_increment_counts_twice_witness:
  "counter_of 0 (cells mem_runtime (fsm_Storage (snd (apply_log mem_runtime sample_V fresh_node
      [(0, incr_entry 1), (0, incr_entry 1)]))) node_cell) = 10"
  using replayed_increment_counts_twice [OF mem_engine_ok fresh_node_sel(1), where e = "incr_entry 1"
      and V = sample_V and now = 0 and now' = 0 and k = node_key,
      OF _ sample_decode(1) [unfolded increment_of_def]] node_cell_head
  by (simp add: mem_empty_cells counter_of_def [of _ None] resolved_def key_fits_def node_key_def
      text_key_def MaxKeyLength_def headKey_def HeadTenant_def)

section \<open>Restart and snapshots\<close>

text \<open>Restart: after an entry that does not write the reserved head key has been applied, a node that
  restarts and reloads the persisted head has the chain the running node has.\<close>

lemma restart_keeps_chain:
  assumes "engine_ok E" "value_ok V" "head_packs V" "\<And>x. fits E headKey x"
    and "fsm_chain t = Some c" "length (hc_digest c) = 32" "log_Index e \<noteq> 0" "entry_resolved V e"
    and "entry_key (uuid E) headKey \<notin> entry_keys V (uuid E) e"
    and "Apply E V now t e = (r, t')"
  shows "fsm_chain (PostConstruct E V now' t') = fsm_chain t'"
proof -
  note ok = engine_okD [OF assms(1)]
  have "fsm_rel E t (c, cells E (fsm_Storage t))"
    using assms(5) by (simp add: fsm_rel_def)
  then obtain st' where tot: "total_Apply (world_of E) V (c, cells E (fsm_Storage t)) e = (outcome_of r, st')"
    and rel: "fsm_rel E t' st'"
    using Apply_total [OF assms(1,8) _ assms(10)] by blast
  have "\<exists>raw cell. snd st' (entry_key (uuid E) headKey) = Some cell \<and> c_value cell = raw
      \<and> c_expires cell = 0 \<and> decode_head V raw = (hc_index (fst st'), hc_digest (fst st'))"
    using total_Apply_head [OF assms(2,3), of "(c, cells E (fsm_Storage t))" e "world_of E" "outcome_of r"
        "fst st'" "snd st'"] assms(4,6,7,9) tot by (simp add: fits_def)
  then obtain cell where cell: "cells E (fsm_Storage t') (entry_key (uuid E) headKey) = Some cell"
    "c_expires cell = 0" "decode_head V (c_value cell) = (hc_index (fst st'), hc_digest (fst st'))"
    using rel by (auto simp: fsm_rel_def)
  then have "stored_head E now' (cells E (fsm_Storage t')) = c_value cell"
    using store_ok_never [OF runtime_okD(2) [OF ok(1)]] by (simp add: stored_head_def live_def)
  then show ?thesis
    using cell(3) rel by (simp add: PostConstruct_def load_chain_def LoadHead_stored [OF ok(1,2)]
        NewHashChain_def fsm_rel_def)
qed

text \<open>C37 Nothing reserves the head key: a replicated put that names it as its record is applied like any
  other, after the head was persisted, so the stored head is then the client's value while the running
  chain is the real one.\<close>

theorem client_put_replaces_head:
  assumes "engine_ok E" "fsm_chain t = Some c" "log_Index e \<noteq> 0" "\<And>x. fits E headKey x"
    and "decodeCommand V (log_Data e) = (opPut, Inr (PRecord r))" "rr_Key r = Some headKey"
    and "\<not> rr_CompareAndSet r" "rr_TtlSeconds r = 0" "rr_ExpiresAt r = 0"
    and "Apply E V now t e = (res, t')"
  shows "load_chain E V now' (fsm_Storage t')
           = (let (i, d) = decode_head V (rr_Value r) in NewHashChain i d)
       \<and> fsm_chain t' = Some (advance_entry e c)"
proof -
  note ok = engine_okD [OF assms(1)]
  have "entry_resolved V e"
    using assms(5,8) by (simp add: entry_resolved_def resolved_def)
  moreover have "fsm_rel E t (c, cells E (fsm_Storage t))"
    using assms(2) by (simp add: fsm_rel_def)
  ultimately obtain st' where tot: "total_Apply (world_of E) V (c, cells E (fsm_Storage t)) e = (outcome_of res, st')"
    and rel: "fsm_rel E t' st'"
    using Apply_total [OF assms(1) _ _ assms(10)] by blast
  have adm: "admits (badger E) (entry_key (uuid E) headKey) (EncodeEnvelope (store E) v x y)" for v x y
    using assms(4) by (simp add: fits_def)
  have "snd st' (entry_key (uuid E) headKey) = Some \<lparr>c_version = log_Index e, c_expires = 0,
      c_value = rr_Value r, c_meta = ucast (rr_Metadata r)\<rparr>"
    using tot assms(3,5-7,9) by (auto simp: total_Apply_def total_op_def total_Put_def Let_def split_beta
        cas_ok_def write_cell_def adm next_version_def)
  then have "stored_head E now' (cells E (fsm_Storage t')) = rr_Value r"
    using rel store_ok_never [OF runtime_okD(2) [OF ok(1)]] by (simp add: stored_head_def live_def fsm_rel_def)
  then show ?thesis
    using Apply_chain [OF assms(2,10)] by (simp add: load_chain_def LoadHead_stored [OF ok(1,2)])
qed

theorem client_put_replaces_head_witness:
  "load_chain mem_runtime sample_V 0 (fsm_Storage (snd (Apply mem_runtime sample_V 0 fresh_node (head_entry 1)))) = genesis
   \<and> hc_index (the (fsm_chain (snd (Apply mem_runtime sample_V 0 fresh_node (head_entry 1))))) = 1"
proof -
  have "decode_head sample_V [1] = (0, GenesisDigest)"
    by (simp add: decode_head_def LoadHead_def sample_V_def mem_value_def mem_unpack_def)
  then show ?thesis
    using client_put_replaces_head [OF mem_engine_ok fresh_node_sel(1), where e = "head_entry 1"
        and V = sample_V and now = 0 and now' = 0 and t' = "snd (Apply mem_runtime sample_V 0 fresh_node (head_entry 1))"
        and res = "fst (Apply mem_runtime sample_V 0 fresh_node (head_entry 1))",
        OF _ mem_fits sample_decode(2) [unfolded put_of_def]]
    by (simp add: genesis_def advance_entry_index NewHashChain_def max_def)
qed





section \<open>Commands\<close>

text \<open>Command round trip: an encoded command decodes to its op and payload, and no bytes encode two
  commands; an empty entry and an unknown op are errors.\<close>

lemma command_round_trip:
  assumes "value_ok V" "op_kind op = Some (kind_of p)" "encodeCommand V op p = Inr data"
  shows "decodeCommand V data = (op, Inr p)
     \<and> (\<forall>op' p'. op_kind op' = Some (kind_of p') \<and> encodeCommand V op' p' = Inr data \<longrightarrow> op' = op \<and> p' = p)
     \<and> \<not> isOk (snd (decodeCommand V [])) \<and> (op_kind x = None \<longrightarrow> \<not> isOk (snd (decodeCommand V (x # rest))))"
proof -
  have "op' = op \<and> p' = p" if "op_kind op' = Some (kind_of p')" "encodeCommand V op' p' = Inr data" for op' p'
    using decode_encode [OF assms(1) that(2,1)] decode_encode [OF assms(1,3,2)] by simp
  then show ?thesis
    using decode_encode [OF assms(1,3,2)] by (auto simp: decodeCommand_def)
qed

end
