(* ===== verification/Service.thy ===== *)
theory Service
  imports Fsm
begin

text \<open>
  The write path above the store: the key-value service of pkg/server/server.go, the raft replicator of
  pkg/replication/replicator.go with its \<open>NotLeaderError\<close> (pkg/server/replicator.go), and the expiry
  reclaimer of pkg/replication/reclaimer.go. The raft library is a parameter: \<open>raft_node\<close> is what a
  node sees of it, and \<open>commit\<close> is the fate of one proposal, the log position at which it was
  committed and delivered to this node's state machine, or the error of its future. The storage of
  the service and of the state machine is one object, the one inside the \<open>FSM\<close> record.
\<close>

section \<open>The replicator\<close>

record raft_node =
  rn_initialized :: bool
  rn_leader :: bool
  rn_LeaderAddr :: string
  rn_LeaderID :: string
  rn_Pool :: "(string \<Rightarrow> string) option"

type_synonym commit = "bytes \<Rightarrow> (u64 \<times> u64) result"

definition Enabled :: "raft_node \<Rightarrow> bool" where
  "Enabled rn = rn_initialized rn"

definition IsLeader :: "raft_node \<Rightarrow> bool" where
  "IsLeader rn = (rn_initialized rn \<and> rn_leader rn)"

definition notLeader :: "raft_node \<Rightarrow> go_error" where
  "notLeader rn =
     (let endpoint = (case rn_Pool rn of
                        None \<Rightarrow> ''''
                      | Some pool \<Rightarrow> if rn_LeaderAddr rn \<noteq> '''' then pool (rn_LeaderAddr rn) else '''')
      in NotLeader (rn_LeaderID rn) (rn_LeaderAddr rn) endpoint)"

definition AsNotLeader :: "go_error \<Rightarrow> (string \<times> string \<times> string) option" where
  "AsNotLeader err = (case err of NotLeader i a e \<Rightarrow> Some (i, a, e) | _ \<Rightarrow> None)"

definition applyCommand ::
  "'db runtime \<Rightarrow> 'v value_api \<Rightarrow> time \<Rightarrow> raft_node \<Rightarrow> commit \<Rightarrow> 'db FSM \<Rightarrow> opCode \<Rightarrow> payload
   \<Rightarrow> fsmResult result \<times> 'db FSM" where
  "applyCommand E V now rn commit t op msg =
     (if \<not> rn_initialized rn then (Inl (Msg ''raft not initialized''), t)
      else if \<not> rn_leader rn then (Inl (notLeader rn), t)
      else case encodeCommand V op msg of
        Inl e \<Rightarrow> (Inl e, t)
      | Inr data \<Rightarrow>
          (case commit data of
             Inl e \<Rightarrow> (Inl (Wrapped ''raft apply'' e), t)
           | Inr (index, term) \<Rightarrow>
               (let (res, t') = Apply E V now t \<lparr>log_Index = index, log_Term = term, log_Data = data\<rparr>
                in (Inr res, t'))))"

text \<open>\<open>res.status, res.err\<close> as a result.\<close>

definition applyStatus :: "fsmResult result \<times> 'db FSM \<Rightarrow> Status option result \<times> 'db FSM" where
  "applyStatus p = (case p of (Inl e, t) \<Rightarrow> (Inl e, t)
     | (Inr res, t) \<Rightarrow> ((case fr_err res of Some e \<Rightarrow> Inl e | None \<Rightarrow> Inr (fr_status res)), t))"

definition Replicator_Put ::
  "'db runtime \<Rightarrow> 'v value_api \<Rightarrow> time \<Rightarrow> raft_node \<Rightarrow> commit \<Rightarrow> 'db FSM \<Rightarrow> RecordRequest
   \<Rightarrow> Status option result \<times> 'db FSM" where
  "Replicator_Put E V now rn commit t r = applyStatus (applyCommand E V now rn commit t opPut (PRecord r))"

definition Replicator_Touch ::
  "'db runtime \<Rightarrow> 'v value_api \<Rightarrow> time \<Rightarrow> raft_node \<Rightarrow> commit \<Rightarrow> 'db FSM \<Rightarrow> RecordRequest
   \<Rightarrow> Status option result \<times> 'db FSM" where
  "Replicator_Touch E V now rn commit t r = applyStatus (applyCommand E V now rn commit t opTouch (PRecord r))"

definition Replicator_Remove ::
  "'db runtime \<Rightarrow> 'v value_api \<Rightarrow> time \<Rightarrow> raft_node \<Rightarrow> commit \<Rightarrow> 'db FSM \<Rightarrow> KeyRequest
   \<Rightarrow> Status option result \<times> 'db FSM" where
  "Replicator_Remove E V now rn commit t r = applyStatus (applyCommand E V now rn commit t opRemove (PKey r))"

definition Replicator_Batch ::
  "'db runtime \<Rightarrow> 'v value_api \<Rightarrow> time \<Rightarrow> raft_node \<Rightarrow> commit \<Rightarrow> 'db FSM \<Rightarrow> BatchRequest
   \<Rightarrow> Status option result \<times> 'db FSM" where
  "Replicator_Batch E V now rn commit t r = applyStatus (applyCommand E V now rn commit t opBatch (PBatch r))"

definition Replicator_Increment ::
  "'db runtime \<Rightarrow> 'v value_api \<Rightarrow> time \<Rightarrow> raft_node \<Rightarrow> commit \<Rightarrow> 'db FSM \<Rightarrow> IncrementRequest
   \<Rightarrow> IncrementResponse option result \<times> 'db FSM" where
  "Replicator_Increment E V now rn commit t r =
     (case applyCommand E V now rn commit t opIncrement (PIncrement r) of
        (Inl e, t) \<Rightarrow> (Inl e, t)
      | (Inr res, t) \<Rightarrow> ((case fr_err res of Some e \<Rightarrow> Inl e | None \<Rightarrow> Inr (fr_incr res)), t))"

definition Replicator_Reclaim ::
  "'db runtime \<Rightarrow> 'v value_api \<Rightarrow> time \<Rightarrow> raft_node \<Rightarrow> commit \<Rightarrow> 'db FSM \<Rightarrow> ReclaimRequest
   \<Rightarrow> nat result \<times> 'db FSM" where
  "Replicator_Reclaim E V now rn commit t r =
     (case applyCommand E V now rn commit t opReclaim (PReclaim r) of
        (Inl e, t) \<Rightarrow> (Inl e, t)
      | (Inr res, t) \<Rightarrow> ((case fr_err res of Some e \<Rightarrow> Inl e | None \<Rightarrow> Inr (fr_reclaimed res)), t))"

section \<open>The key-value service\<close>

text \<open>The optional \<open>Replicator\<close> bean is an optional \<open>raft_node\<close>.\<close>

definition replicates :: "raft_node option \<Rightarrow> bool" where
  "replicates rn = (case rn of None \<Rightarrow> False | Some r \<Rightarrow> Enabled r)"

definition Service_Get :: "'db runtime \<Rightarrow> time \<Rightarrow> 'db FSM \<Rightarrow> KeyRequest \<Rightarrow> Record result" where
  "Service_Get E now t q = Get E now (fsm_Storage t) q"

definition Service_GetRecent :: "'db runtime \<Rightarrow> time \<Rightarrow> 'db FSM \<Rightarrow> KeyRequest \<Rightarrow> Record result" where
  "Service_GetRecent E now t q = GetRecent E now (fsm_Storage t) q"

definition watchPrefix :: "uuid_api \<Rightarrow> Key option \<Rightarrow> bytes result" where
  "watchPrefix U key =
     (case key of
        None \<Rightarrow> Inr []
      | Some k \<Rightarrow>
          if length (MinorKey k) > 0 then EncodeKeyPrefix U k MinorKeyField
          else if length (RegionName k) > 0 then EncodeKeyPrefix U k RegionNameField
          else if length (MajorKey k) > 0 then EncodeKeyPrefix U k MajorKeyField
          else Inr [])"

text \<open>\<open>recordRequest.ExpiresAt = resolveExpiry(\<dots>)\<close>, on the node that accepts the write.\<close>

definition stampRecord :: "'db runtime \<Rightarrow> time \<Rightarrow> RecordRequest \<Rightarrow> RecordRequest" where
  "stampRecord E now r = r\<lparr>rr_ExpiresAt := resolveExpiry E now (rr_TtlSeconds r) (rr_ExpiresAt r)\<rparr>"

definition stampIncrement :: "'db runtime \<Rightarrow> time \<Rightarrow> IncrementRequest \<Rightarrow> IncrementRequest" where
  "stampIncrement E now r = r\<lparr>ir_ExpiresAt := resolveExpiry E now (ir_TtlSeconds r) (ir_ExpiresAt r)\<rparr>"

definition stampBatch :: "'db runtime \<Rightarrow> time \<Rightarrow> BatchRequest \<Rightarrow> BatchRequest" where
  "stampBatch E now q = q\<lparr>Records := map (stampRecord E now) (Records q)\<rparr>"

text \<open>A reply of the local store in the form the replicated path returns it.\<close>

definition localReply :: "'db FSM \<Rightarrow> 'a result \<times> 'db KeyValueStorageCtx \<Rightarrow> 'a option result \<times> 'db FSM" where
  "localReply t p = ((case fst p of Inl e \<Rightarrow> Inl e | Inr a \<Rightarrow> Inr (Some a)), t\<lparr>fsm_Storage := snd p\<rparr>)"

definition Service_Touch ::
  "'db runtime \<Rightarrow> 'v value_api \<Rightarrow> time \<Rightarrow> raft_node option \<Rightarrow> commit \<Rightarrow> 'db FSM \<Rightarrow> RecordRequest
   \<Rightarrow> Status option result \<times> 'db FSM" where
  "Service_Touch E V now rn commit t r =
     (let r = stampRecord E now r in
      if replicates rn then Replicator_Touch E V now (the rn) commit t r
      else localReply t (Touch E now (fsm_Storage t) r 0))"

definition Service_Put ::
  "'db runtime \<Rightarrow> 'v value_api \<Rightarrow> time \<Rightarrow> raft_node option \<Rightarrow> commit \<Rightarrow> 'db FSM \<Rightarrow> RecordRequest
   \<Rightarrow> Status option result \<times> 'db FSM" where
  "Service_Put E V now rn commit t r =
     (let r = stampRecord E now r in
      if replicates rn then Replicator_Put E V now (the rn) commit t r
      else localReply t (Put E now (fsm_Storage t) r 0))"

definition Service_Remove ::
  "'db runtime \<Rightarrow> 'v value_api \<Rightarrow> time \<Rightarrow> raft_node option \<Rightarrow> commit \<Rightarrow> 'db FSM \<Rightarrow> KeyRequest
   \<Rightarrow> Status option result \<times> 'db FSM" where
  "Service_Remove E V now rn commit t r =
     (if replicates rn then Replicator_Remove E V now (the rn) commit t r
      else localReply t (Remove E (fsm_Storage t) r))"

definition Service_Increment ::
  "'db runtime \<Rightarrow> 'v value_api \<Rightarrow> time \<Rightarrow> raft_node option \<Rightarrow> commit \<Rightarrow> 'db FSM \<Rightarrow> IncrementRequest
   \<Rightarrow> IncrementResponse option result \<times> 'db FSM" where
  "Service_Increment E V now rn commit t r =
     (let r = stampIncrement E now r in
      if replicates rn then Replicator_Increment E V now (the rn) commit t r
      else localReply t (Increment E now (fsm_Storage t) r 0))"

definition Service_Batch ::
  "'db runtime \<Rightarrow> 'v value_api \<Rightarrow> time \<Rightarrow> raft_node option \<Rightarrow> commit \<Rightarrow> 'db FSM \<Rightarrow> BatchRequest
   \<Rightarrow> Status option result \<times> 'db FSM" where
  "Service_Batch E V now rn commit t q =
     (let q = stampBatch E now q in
      if replicates rn then Replicator_Batch E V now (the rn) commit t q
      else localReply t (SetBatch E now (fsm_Storage t) q 0))"

section \<open>The expiry sweep\<close>

definition ReclaimExpired ::
  "'db runtime \<Rightarrow> 'v value_api \<Rightarrow> time \<Rightarrow> raft_node option \<Rightarrow> commit \<Rightarrow> (nat \<Rightarrow> go_error option) \<Rightarrow> int \<Rightarrow> 'db FSM
   \<Rightarrow> nat result \<times> 'db FSM" where
  "ReclaimExpired E V now rn commit ctx limit t =
     (let replicated = replicates rn in
      if replicated \<and> \<not> IsLeader (the rn) then (Inr 0, t)
      else case ScanExpired E now (fsm_Storage t) ctx limit of
        (entries, Some e) \<Rightarrow> (Inl e, t)
      | (entries, None) \<Rightarrow>
          if length entries = 0 then (Inr 0, t)
          else if replicated then Replicator_Reclaim E V now (the rn) commit t \<lparr>Entries = entries\<rparr>
          else (let (res, s) = Reclaim E (fsm_Storage t) \<lparr>Entries = entries\<rparr>
                in (res, t\<lparr>fsm_Storage := s\<rparr>)))"

section \<open>Facts\<close>

text \<open>What is relied on of the clock: a positive time to live gives a nonzero expiry.\<close>

definition ttl_ok :: "store_api \<Rightarrow> bool" where
  "ttl_ok S \<longleftrightarrow> (\<forall>now ttl. sint ttl > 0 \<longrightarrow> ExpiryFromTtl S now ttl \<noteq> 0)"

lemma stamp_resolved:
  assumes "ttl_ok (store E)"
  shows "resolved ttl (resolveExpiry E now ttl ex)"
  using assms by (auto simp: resolved_def resolveExpiry_def ttl_ok_def)

lemma stamped_payloads:
  assumes "ttl_ok (store E)"
  shows "payload_resolved (PRecord (stampRecord E now r))"
    and "payload_resolved (PIncrement (stampIncrement E now i))"
    and "payload_resolved (PBatch (stampBatch E now b))"
  using stamp_resolved [OF assms] by (simp_all add: stampRecord_def stampIncrement_def stampBatch_def)

lemma applyCommand_leader:
  assumes "IsLeader rn" "encodeCommand V op msg = Inr data" "commit data = Inr (i, trm)"
  shows "applyCommand E V now rn commit t op msg =
    (Inr (fst (Apply E V now t \<lparr>log_Index = i, log_Term = trm, log_Data = data\<rparr>)),
     snd (Apply E V now t \<lparr>log_Index = i, log_Term = trm, log_Data = data\<rparr>))"
  using assms by (simp add: applyCommand_def IsLeader_def split_beta)

lemma applyCommand_follower:
  assumes "rn_initialized rn" "\<not> rn_leader rn"
  shows "applyCommand E V now rn commit t op msg = (Inl (notLeader rn), t)"
  using assms by (simp add: applyCommand_def)

lemma entry_of_command:
  assumes "value_ok V" "encodeCommand V op msg = Inr data" "op_kind op = Some (kind_of msg)"
    and "payload_resolved msg"
  shows "entry_resolved V \<lparr>log_Index = i, log_Term = trm, log_Data = data\<rparr>"
  using decode_encode [OF assms(1-3)] assms(4) by (simp add: entry_resolved_def)

end
