(* ===== verification/Service_Props.thy ===== *)
theory Service_Props
  imports Service Replica_Props Storage_Props
begin

text \<open>Properties of the write path (pkg/server/server.go, pkg/replication/replicator.go and
  reclaimer.go).\<close>

section \<open>Instances for the concrete runs\<close>

text \<open>The sample runtime with a clock at zero.\<close>

definition zero_runtime :: "entries runtime" where
  "zero_runtime = mem_runtime\<lparr>store := mem_store\<lparr>ExpiryFromTtl := \<lambda>now ttl. ttl\<rparr>\<rparr>"

lemma zero_runtime_sel [simp]:
  "badger zero_runtime = mem_badger" "uuid zero_runtime = mem_uuid"
  "store zero_runtime = mem_store\<lparr>ExpiryFromTtl := \<lambda>now ttl. ttl\<rparr>"
  by (simp_all add: zero_runtime_def mem_runtime_def)

lemma zero_ttl_ok: "ttl_ok (store zero_runtime)"
  by (auto simp: ttl_ok_def)

definition leader_node :: raft_node where
  "leader_node = \<lparr>rn_initialized = True, rn_leader = True, rn_LeaderAddr = ''a:1'', rn_LeaderID = ''n1'',
     rn_Pool = None\<rparr>"

definition follower_node :: raft_node where
  "follower_node = leader_node\<lparr>rn_leader := False, rn_Pool := Some (\<lambda>a. ''a:2'')\<rparr>"

definition commit_at :: "u64 \<Rightarrow> commit" where
  "commit_at i = (\<lambda>data. Inr (i, 1))"

section \<open>The expiry sweep\<close>

lemma sweep_candidates:
  assumes "engine_ok E" "ScanExpired E now s (\<lambda>_. None) limit = (es, err)" "e \<in> set es"
  shows "\<exists>x. cells E s (EntryKey e) = Some x \<and> IsExpired (store E) now (c_expires x)"
proof -
  have "e \<in> set (List.map_filter (expired_entry E now) (contents (badger E) (db s)))"
    using assms(2,3) ScanExpired_entries [OF engine_okD(1,2) [OF assms(1)], of "\<lambda>_. None" now s limit]
    by (auto simp: Let_def dest: in_set_takeD split: if_splits)
  then show ?thesis
    using expired_entries_set [OF engine_okD(1) [OF assms(1)]] by blast
qed

lemma Replicator_Reclaim_cases:
  assumes "Replicator_Reclaim E V now n commit t q = (res, t')"
  shows "t' = t \<or> (\<exists>data i trm. encodeCommand V opReclaim (PReclaim q) = Inr data
      \<and> t' = snd (Apply E V now t \<lparr>log_Index = i, log_Term = trm, log_Data = data\<rparr>))"
proof (cases "rn_initialized n \<and> rn_leader n")
  case True
  show ?thesis
  proof (cases "encodeCommand V opReclaim (PReclaim q)")
    case (Inr data)
    with True assms show ?thesis
      by (cases "commit data") (auto simp: Replicator_Reclaim_def applyCommand_def split_beta)
  qed (use True assms in \<open>simp add: Replicator_Reclaim_def applyCommand_def\<close>)
qed (use assms in \<open>auto simp: Replicator_Reclaim_def applyCommand_def split: if_splits\<close>)

lemma sweep_cases:
  assumes "ReclaimExpired E V now rn commit ctx limit t = (res, t')"
    and "ScanExpired E now (fsm_Storage t) ctx limit = (es, err)"
  shows "t' = t \<or> t' = t\<lparr>fsm_Storage := snd (Reclaim E (fsm_Storage t) \<lparr>Entries = es\<rparr>)\<rparr>
    \<or> Replicator_Reclaim E V now (the rn) commit t \<lparr>Entries = es\<rparr> = (res, t')"
  using assms
  by (cases err) (auto simp: ReclaimExpired_def Let_def split_beta split: if_splits)

text \<open>A committed reclaim command at the abstract machine: besides the chain head it only drops the
  listed entries.\<close>

lemma reclaim_command_frame:
  assumes "engine_ok E" "value_ok V" "fsm_chain t = Some c"
    and "encodeCommand V opReclaim (PReclaim \<lparr>Entries = es\<rparr>) = Inr data"
    and "t' = snd (Apply E V now t \<lparr>log_Index = i, log_Term = trm, log_Data = data\<rparr>)"
    and "k \<noteq> entry_key (uuid E) headKey"
  shows "cells E (fsm_Storage t') k = cells E (fsm_Storage t) k
    \<or> cells E (fsm_Storage t') k = None \<and> k \<in> EntryKey ` set es"
proof -
  let ?e = "\<lparr>log_Index = i, log_Term = trm, log_Data = data\<rparr>"
  define cs where "cs = cells E (fsm_Storage t)"
  define hd where "hd = total_head (world_of E) V (advance_entry ?e c) i cs"
  have dec: "decodeCommand V data = (opReclaim, Inr (PReclaim \<lparr>Entries = es\<rparr>))"
    by (rule decode_encode [OF assms(2,4)]) simp
  have res: "entry_resolved V ?e"
    using dec by (simp add: entry_resolved_def)
  have "fsm_rel E t (c, cs)"
    using assms(3) by (simp add: fsm_rel_def cs_def)
  then obtain r st' where tot: "total_Apply (world_of E) V (c, cs) ?e = (outcome_of r, st')"
    and rel: "fsm_rel E t' st'"
    using Apply_total [OF assms(1) res _ prod.collapse [symmetric], where t = t] assms(5) by blast
  have "snd st' = snd (spec_Reclaim hd es)"
    using tot dec by (auto simp: total_Apply_def total_op_def total_Reclaim_def Let_def split_beta hd_def)
  then have "cells E (fsm_Storage t') k
      = (if \<exists>e \<in> set es. EntryKey e = k \<and> reclaims hd e then None else hd k)"
    using rel by (simp add: fsm_rel_def spec_Reclaim_closed)
  moreover have "hd k = cs k"
    using assms(6) by (simp add: hd_def total_head_def total_Put_def Let_def write_cell_def headPut_def
        split: sum.splits)
  ultimately show ?thesis
    by (auto simp: cs_def)
qed

section \<open>Properties\<close>


definition service_put_req :: RecordRequest where
  "service_put_req = \<lparr>rr_Key = Some headKey, rr_Value = [1], rr_Metadata = 0, rr_TtlSeconds = 0,
     rr_CompareAndSet = False, rr_Version = 0, rr_Timeout = 0, rr_ExpiresAt = 0\<rparr>"


text \<open>Followers redirect: on a node that is not the leader every write of the service returns the
  not-leader error with the leader's identity, address and client endpoint, and changes nothing; the
  error is recognised by \<open>AsNotLeader\<close>.\<close>

lemma follower_redirects:
  assumes "rn_initialized rn" "\<not> rn_leader rn"
  shows "Service_Put E V now (Some rn) commit t r = (Inl (notLeader rn), t)
    \<and> Service_Touch E V now (Some rn) commit t r = (Inl (notLeader rn), t)
    \<and> Service_Remove E V now (Some rn) commit t q = (Inl (notLeader rn), t)
    \<and> Service_Increment E V now (Some rn) commit t n = (Inl (notLeader rn), t)
    \<and> Service_Batch E V now (Some rn) commit t b = (Inl (notLeader rn), t)
    \<and> ReclaimExpired E V now (Some rn) commit ctx limit t = (Inr 0, t)
    \<and> (\<exists>ep. AsNotLeader (notLeader rn) = Some (rn_LeaderID rn, rn_LeaderAddr rn, ep))"
proof -
  have "replicates (Some rn)" "\<not> IsLeader rn"
    using assms by (simp_all add: replicates_def Enabled_def IsLeader_def)
  then show ?thesis
    by (simp add: Service_Put_def Service_Touch_def Service_Remove_def Service_Increment_def
        Service_Batch_def Replicator_Put_def Replicator_Touch_def Replicator_Remove_def
        Replicator_Increment_def Replicator_Batch_def ReclaimExpired_def applyStatus_def
        applyCommand_follower [OF assms] AsNotLeader_def notLeader_def Let_def)
qed



text \<open>Watch depth: the prefix registered for a watched key matches exactly the keys that agree with it
  on the tenant, region and minor key it names, down to the deepest one; a missing or empty key
  matches every change.\<close>

lemma watch_prefix_exact:
  assumes "uuid_ok U k" "key_fits k" "key_fits p" "watchPrefix U (Some p) = Inr b"
  shows "prefix b (fst (EncodeKey U k)) \<longleftrightarrow>
     (if MinorKey p \<noteq> [] then key_fields p MinorKeyField = key_fields k MinorKeyField
      else if RegionName p \<noteq> [] then key_fields p RegionNameField = key_fields k RegionNameField
      else if MajorKey p \<noteq> [] then key_fields p MajorKeyField = key_fields k MajorKeyField
      else True)"
  using assms prefix_entry_key [of U p MinorKeyField b k] prefix_entry_key [of U p RegionNameField b k]
    prefix_entry_key [of U p MajorKeyField b k]
  by (auto simp: watchPrefix_def EncodeKey_entry_key sanitize_key_fits split: if_splits)

end
