(* ===== verification/Password.thy ===== *)
theory Password
  imports Prelude
begin

text \<open>
  Password hashing of pkg/iam/password.go: the encoded argon2id form and its verification. The argon2
  package is a parameter (its version number and key derivation); the pieces of the Go library
  the two functions use are modelled: \<open>strings.Split\<close>, \<open>fmt.Sscanf\<close> with the verb \<open>%d\<close>, decimal
  printing, and unpadded standard base64. White space skipped by \<open>Sscanf\<close> is the ASCII white space.
\<close>

section \<open>The argon2 package\<close>

text \<open>\<open>IDKey password salt time memory threads keyLen\<close> panics when \<open>time\<close> or \<open>threads\<close> is zero; its
  result has the requested length.\<close>

record argon_api =
  argon_Version :: nat
  IDKey :: "bytes \<Rightarrow> bytes \<Rightarrow> u32 \<Rightarrow> u32 \<Rightarrow> byte \<Rightarrow> nat \<Rightarrow> bytes result"

definition argon_ok :: "argon_api \<Rightarrow> bool" where
  "argon_ok A \<longleftrightarrow> argon_Version A < 2 ^ 63
     \<and> (\<forall>p s t m h n. t \<noteq> 0 \<longrightarrow> h \<noteq> 0 \<longrightarrow> (\<exists>k. IDKey A p s t m h n = Inr k \<and> length k = n))"

definition argonMemoryKiB :: nat where "argonMemoryKiB = 19 * 1024"
definition argonTime :: nat where "argonTime = 2"
definition argonThreads :: nat where "argonThreads = 1"
definition argonSaltLen :: nat where "argonSaltLen = 16"
definition argonKeyLen :: nat where "argonKeyLen = 32"

section \<open>Splitting and scanning\<close>

fun Split :: "char \<Rightarrow> string \<Rightarrow> string list" where
  "Split c [] = [[]]"
| "Split c (x # xs) = (if x = c then [] # Split c xs
     else case Split c xs of [] \<Rightarrow> [[x]] | p # ps \<Rightarrow> (x # p) # ps)"

definition digit :: "nat \<Rightarrow> char" where
  "digit n = ''0123456789'' ! n"

definition digit_val :: "char \<Rightarrow> nat option" where
  "digit_val c = (let n = of_char c :: nat in if 48 \<le> n \<and> n \<le> 57 then Some (n - 48) else None)"

fun decimal :: "nat \<Rightarrow> string" where
  "decimal n = (if n < 10 then [digit n] else decimal (n div 10) @ [digit (n mod 10)])"

declare decimal.simps [simp del]

text \<open>\<open>scanNumber\<close>: the longest run of digits, with its value.\<close>

fun scan_digits :: "nat \<Rightarrow> string \<Rightarrow> nat \<times> string" where
  "scan_digits acc [] = (acc, [])"
| "scan_digits acc (c # cs) =
     (case digit_val c of Some d \<Rightarrow> scan_digits (10 * acc + d) cs | None \<Rightarrow> (acc, c # cs))"

definition SkipSpace :: "string \<Rightarrow> string option" where
  "SkipSpace s =
     (let rest = dropWhile (\<lambda>c. c \<in> set [CHR 0x09, CHR 0x0B, CHR 0x0C, CHR 0x0D, CHR '' '']) s in
      case rest of c # _ \<Rightarrow> if c = CHR 0x0A then None else Some rest | [] \<Rightarrow> Some [])"

definition scan_number :: "string \<Rightarrow> (nat \<times> string) option" where
  "scan_number s = (case s of [] \<Rightarrow> None
     | c # cs \<Rightarrow> if digit_val c = None then None else Some (scan_digits 0 s))"

text \<open>\<open>%d\<close> into a signed (\<open>int\<close>) and into an unsigned destination of the given width.\<close>

definition scan_int :: "string \<Rightarrow> (int \<times> string) option" where
  "scan_int s =
     (case SkipSpace s of
        None \<Rightarrow> None
      | Some [] \<Rightarrow> None
      | Some (c # cs) \<Rightarrow>
          (let neg = (c = CHR ''-''); body = (if c = CHR ''-'' \<or> c = CHR ''+'' then cs else c # cs) in
           case scan_number body of
             None \<Rightarrow> None
           | Some (n, rest) \<Rightarrow>
               if neg then (if n \<le> 2 ^ 63 then Some (- int n, rest) else None)
               else (if n < 2 ^ 63 then Some (int n, rest) else None)))"

definition scan_uint :: "nat \<Rightarrow> string \<Rightarrow> (nat \<times> string) option" where
  "scan_uint bits s =
     (case SkipSpace s of
        None \<Rightarrow> None
      | Some r \<Rightarrow>
          (case scan_number r of
             None \<Rightarrow> None
           | Some (n, rest) \<Rightarrow> if n < 2 ^ bits then Some (n, rest) else None))"

fun scan_literal :: "string \<Rightarrow> string \<Rightarrow> string option" where
  "scan_literal [] s = Some s"
| "scan_literal (c # cs) [] = None"
| "scan_literal (c # cs) (x # xs) = (if x = c then scan_literal cs xs else None)"

definition scan_version :: "string \<Rightarrow> int option" where
  "scan_version s = (case scan_literal ''v='' s of None \<Rightarrow> None
     | Some r \<Rightarrow> map_option fst (scan_int r))"

definition scan_params :: "string \<Rightarrow> (nat \<times> nat \<times> nat) option" where
  "scan_params s =
     (case scan_literal ''m='' s of None \<Rightarrow> None
      | Some r \<Rightarrow> (case scan_uint 32 r of None \<Rightarrow> None
      | Some (mem, r) \<Rightarrow> (case scan_literal '',t='' r of None \<Rightarrow> None
      | Some r \<Rightarrow> (case scan_uint 32 r of None \<Rightarrow> None
      | Some (time, r) \<Rightarrow> (case scan_literal '',p='' r of None \<Rightarrow> None
      | Some r \<Rightarrow> (case scan_uint 8 r of None \<Rightarrow> None
      | Some (threads, r) \<Rightarrow> Some (mem, time, threads)))))))"

section \<open>Unpadded base64\<close>

definition b64_alphabet :: string where
  "b64_alphabet = ''ABCDEFGHIJKLMNOPQRSTUVWXYZabcdefghijklmnopqrstuvwxyz0123456789+/''"

definition b64_char :: "nat \<Rightarrow> char" where
  "b64_char n = b64_alphabet ! n"

fun index_of :: "'a list \<Rightarrow> 'a \<Rightarrow> nat option" where
  "index_of [] x = None"
| "index_of (y # ys) x = (if y = x then Some 0 else map_option Suc (index_of ys x))"

fun b64_enc :: "nat list \<Rightarrow> nat list" where
  "b64_enc [] = []"
| "b64_enc [x] = [x div 4, x mod 4 * 16]"
| "b64_enc [x, y] = [x div 4, x mod 4 * 16 + y div 16, y mod 16 * 4]"
| "b64_enc (x # y # z # r) = [x div 4, x mod 4 * 16 + y div 16, y mod 16 * 4 + z div 64, z mod 64] @ b64_enc r"

fun b64_dec :: "nat list \<Rightarrow> nat list option" where
  "b64_dec [] = Some []"
| "b64_dec [a] = None"
| "b64_dec [a, b] = Some [a * 4 + b div 16]"
| "b64_dec [a, b, c] = Some [a * 4 + b div 16, b mod 16 * 16 + c div 4]"
| "b64_dec (a # b # c # d # r) =
     map_option ((@) [a * 4 + b div 16, b mod 16 * 16 + c div 4, c mod 4 * 64 + d]) (b64_dec r)"

definition b64_EncodeToString :: "bytes \<Rightarrow> string" where
  "b64_EncodeToString b = map b64_char (b64_enc (map unat b))"

definition b64_DecodeString :: "string \<Rightarrow> bytes option" where
  "b64_DecodeString s =
     (let s = filter (\<lambda>c. c \<noteq> CHR 0x0A \<and> c \<noteq> CHR 0x0D) s;
          vs = map (index_of b64_alphabet) s in
      if list_all (\<lambda>v. v \<noteq> None) vs then map_option (map word_of_nat) (b64_dec (map the vs)) else None)"

section \<open>Hashing and verification\<close>

definition HashPassword :: "argon_api \<Rightarrow> bytes result \<Rightarrow> string \<Rightarrow> string result" where
  "HashPassword A random password =
     (case random of
        Inl e \<Rightarrow> Inl (Wrapped ''iam: salt'' e)
      | Inr salt \<Rightarrow>
          (case IDKey A (bytes_of password) salt (of_nat argonTime) (of_nat argonMemoryKiB)
                  (of_nat argonThreads) argonKeyLen of
             Inl e \<Rightarrow> Inl e
           | Inr key \<Rightarrow>
               Inr (''$argon2id$v='' @ decimal (argon_Version A) @ ''$m='' @ decimal argonMemoryKiB
                 @ '',t='' @ decimal argonTime @ '',p='' @ decimal argonThreads
                 @ ''$'' @ b64_EncodeToString salt @ ''$'' @ b64_EncodeToString key)))"

definition VerifyPassword :: "argon_api \<Rightarrow> string \<Rightarrow> string \<Rightarrow> bool result" where
  "VerifyPassword A encoded password =
     (let parts = Split CHR ''$'' encoded in
      if length parts \<noteq> 6 \<or> parts ! 1 \<noteq> ''argon2id'' then Inr False
      else case scan_version (parts ! 2) of
        None \<Rightarrow> Inr False
      | Some version \<Rightarrow>
          if version \<noteq> int (argon_Version A) then Inr False
          else case scan_params (parts ! 3) of
            None \<Rightarrow> Inr False
          | Some (mem, time, threads) \<Rightarrow>
              (case b64_DecodeString (parts ! 4) of
                 None \<Rightarrow> Inr False
               | Some salt \<Rightarrow>
                   (case b64_DecodeString (parts ! 5) of
                      None \<Rightarrow> Inr False
                    | Some want \<Rightarrow>
                        bindE (IDKey A (bytes_of password) salt (of_nat time) (of_nat mem)
                                 (of_nat threads) (length want))
                          (\<lambda>got. Inr (got = want)))))"

section \<open>Facts\<close>

lemma Split_no_sep: "c \<notin> set s \<Longrightarrow> Split c s = [s]"
  by (induction s) auto

lemma Split_append: "c \<notin> set s \<Longrightarrow> Split c (s @ c # r) = s # Split c r"
  by (induction s) auto

lemma digit_facts:
  assumes "n < 10"
  shows "digit_val (digit n) = Some n" "digit n \<noteq> CHR ''$''"
    "digit n \<notin> {CHR 0x09, CHR 0x0A, CHR 0x0B, CHR 0x0C, CHR 0x0D, CHR '' '', CHR ''+'', CHR ''-''}"
proof -
  have "n \<in> set [0..<10]" using assms by simp
  then show "digit_val (digit n) = Some n" "digit n \<noteq> CHR ''$''"
    "digit n \<notin> {CHR 0x09, CHR 0x0A, CHR 0x0B, CHR 0x0C, CHR 0x0D, CHR '' '', CHR ''+'', CHR ''-''}"
    by (auto simp: upt_conv_Cons digit_def digit_val_def Let_def)
qed

definition no_digit :: "string \<Rightarrow> bool" where
  "no_digit r \<longleftrightarrow> (case r of [] \<Rightarrow> True | c # _ \<Rightarrow> digit_val c = None)"

lemma scan_digits_decimal:
  "scan_digits acc (decimal n @ r) = scan_digits (acc * 10 ^ length (decimal n) + n) r"
proof (induction n arbitrary: acc r rule: decimal.induct)
  case (1 n)
  show ?case
  proof (cases "n < 10")
    case True
    then show ?thesis
      by (simp add: decimal.simps [of n] digit_facts mult.commute)
  next
    case False
    have "scan_digits acc (decimal n @ r)
        = scan_digits (acc * 10 ^ length (decimal (n div 10)) + n div 10) (digit (n mod 10) # r)"
      using 1 [OF False] False by (simp add: decimal.simps [of n])
    also have "\<dots> = scan_digits (10 * (acc * 10 ^ length (decimal (n div 10)) + n div 10) + n mod 10) r"
      by (simp add: digit_facts)
    also have "10 * (acc * 10 ^ length (decimal (n div 10)) + n div 10) + n mod 10
        = acc * 10 ^ length (decimal n) + n"
      using False by (simp add: decimal.simps [of n] algebra_simps)
    finally show ?thesis .
  qed
qed

lemma scan_digits_stop: "no_digit r \<Longrightarrow> scan_digits acc r = (acc, r)"
  by (cases r) (auto simp: no_digit_def)

lemma decimal_Cons: "\<exists>d cs. d < 10 \<and> decimal n = digit d # cs"
proof (induction n rule: decimal.induct)
  case (1 n)
  show ?case
  proof (cases "n < 10")
    case True
    then show ?thesis by (auto simp: decimal.simps [of n])
  next
    case False
    with 1 show ?thesis by (auto simp: decimal.simps [of n])
  qed
qed

lemma decimal_no_sep: "CHR ''$'' \<notin> set (decimal n)"
proof (induction n rule: decimal.induct)
  case (1 n)
  then show ?case
    using digit_facts(2) [of n] digit_facts(2) [of "n mod 10"]
    by (cases "n < 10") (auto simp: decimal.simps [of n])
qed

lemma scan_number_decimal:
  assumes "no_digit r"
  shows "SkipSpace (decimal n @ r) = Some (decimal n @ r)"
    "scan_number (decimal n @ r) = Some (n, r)"
    "hd (decimal n @ r) \<notin> {CHR ''+'', CHR ''-''}"
proof -
  obtain d cs where d: "d < 10" "decimal n = digit d # cs"
    using decimal_Cons by blast
  show "SkipSpace (decimal n @ r) = Some (decimal n @ r)"
    using digit_facts(3) [OF d(1)] by (simp add: SkipSpace_def d(2))
  show "hd (decimal n @ r) \<notin> {CHR ''+'', CHR ''-''}"
    using digit_facts(3) [OF d(1)] by (simp add: d(2))
  have "scan_number (decimal n @ r) = Some (scan_digits 0 (decimal n @ r))"
    using digit_facts(1) [OF d(1)] by (simp add: scan_number_def d(2))
  then show "scan_number (decimal n @ r) = Some (n, r)"
    by (simp add: scan_digits_decimal scan_digits_stop [OF assms])
qed

lemma scan_int_decimal:
  assumes "n < 2 ^ 63" "no_digit r"
  shows "scan_int (decimal n @ r) = Some (int n, r)"
proof -
  obtain c cs where c: "decimal n @ r = c # cs"
    using decimal_Cons [of n] by auto
  show ?thesis
    using scan_number_decimal [OF assms(2), of n] assms(1) unfolding scan_int_def c by simp
qed

lemma scan_uint_decimal: "n < 2 ^ b \<Longrightarrow> no_digit r \<Longrightarrow> scan_uint b (decimal n @ r) = Some (n, r)"
  by (simp add: scan_uint_def scan_number_decimal)

lemma b64_dec_enc: "\<forall>x \<in> set xs. x < 256 \<Longrightarrow> b64_dec (b64_enc xs) = Some xs"
proof (induction xs rule: b64_enc.induct)
  case (4 x y z r)
  have "y div 16 < 16" "z div 64 < 4"
    using 4(2) by auto
  then have "(x mod 4 * 16 + y div 16) div 16 = x mod 4" "(y mod 16 * 4 + z div 64) div 4 = y mod 16"
    "(x mod 4 * 16 + y div 16) mod 16 = y div 16" "(y mod 16 * 4 + z div 64) mod 4 = z div 64"
    by simp_all
  then show ?case
    using 4 by simp
next
  case (3 x y)
  then have "y div 16 < 16" by auto
  then show ?case by simp
qed simp_all

lemma b64_enc_range: "\<forall>x \<in> set xs. x < 256 \<Longrightarrow> \<forall>v \<in> set (b64_enc xs). v < 64"
proof (induction xs rule: b64_enc.induct)
  case (4 x y z r)
  have "x div 4 < 64" "y div 16 < 16" "z div 64 < 4" "x mod 4 < 4" "y mod 16 < 16"
    using 4(2) by auto
  then show ?case
    using 4 by auto
qed auto

lemma b64_char_facts:
  assumes "n < 64"
  shows "index_of b64_alphabet (b64_char n) = Some n"
    "b64_char n \<notin> {CHR ''$'', CHR 0x0A, CHR 0x0D}"
proof -
  have idx: "index_of xs (xs ! n) = Some n" if "distinct xs" "n < length xs" for xs :: string and n
    using that
  proof (induction xs arbitrary: n)
    case (Cons x xs)
    then show ?case by (cases n) auto
  qed simp
  have alpha: "distinct b64_alphabet" "length b64_alphabet = 64"
    by (simp_all add: b64_alphabet_def)
  then show "index_of b64_alphabet (b64_char n) = Some n"
    using idx assms by (simp add: b64_char_def)
  have "b64_char n \<in> set b64_alphabet"
    using assms alpha(2) by (simp add: b64_char_def)
  then show "b64_char n \<notin> {CHR ''$'', CHR 0x0A, CHR 0x0D}"
    by (auto simp: b64_alphabet_def)
qed

lemma b64_round_trip: "b64_DecodeString (b64_EncodeToString b) = Some b"
proof -
  let ?vs = "b64_enc (map unat b)"
  have small: "\<forall>x \<in> set (map unat b). x < 256"
    using unat_byte_less by auto
  note r = b64_enc_range [OF small]
  have keep: "filter (\<lambda>c. c \<noteq> CHR 0x0A \<and> c \<noteq> CHR 0x0D) (map b64_char ?vs) = map b64_char ?vs"
    using r b64_char_facts(2) by (auto simp: filter_id_conv)
  have idx: "map (index_of b64_alphabet) (map b64_char ?vs) = map Some ?vs"
    using r b64_char_facts(1) by auto
  show ?thesis
    by (simp only: b64_DecodeString_def b64_EncodeToString_def Let_def keep idx)
       (simp add: list_all_iff comp_def b64_dec_enc [OF small])
qed

lemma b64_no_sep: "CHR ''$'' \<notin> set (b64_EncodeToString b)"
proof -
  have small: "\<forall>x \<in> set (map unat b). x < 256"
    using unat_byte_less by auto
  show ?thesis
    using b64_enc_range [OF small] b64_char_facts(2) by (fastforce simp: b64_EncodeToString_def)
qed

text \<open>The parts of an encoded hash, and what scanning them gives.\<close>

lemma Split_hash:
  "Split CHR ''$'' (''$argon2id$v='' @ decimal v @ ''$m='' @ decimal m @ '',t='' @ decimal t @ '',p='' @ decimal p
     @ ''$'' @ b64_EncodeToString a @ ''$'' @ b64_EncodeToString b)
   = ['''', ''argon2id'', ''v='' @ decimal v, ''m='' @ decimal m @ '',t='' @ decimal t @ '',p='' @ decimal p,
      b64_EncodeToString a, b64_EncodeToString b]"
proof -
  have 1: "Split CHR ''$'' (''v='' @ decimal v @ ''$'' @ r) = (''v='' @ decimal v) # Split CHR ''$'' r" for r
    using Split_append [of "CHR ''$''" "''v='' @ decimal v" r] decimal_no_sep [of v] by simp
  have 2: "Split CHR ''$'' (''m='' @ decimal m @ '',t='' @ decimal t @ '',p='' @ decimal p @ ''$'' @ r)
      = (''m='' @ decimal m @ '',t='' @ decimal t @ '',p='' @ decimal p) # Split CHR ''$'' r" for r
    using Split_append [of "CHR ''$''" "''m='' @ decimal m @ '',t='' @ decimal t @ '',p='' @ decimal p" r]
      decimal_no_sep [of m] decimal_no_sep [of t] decimal_no_sep [of p] by simp
  have 3: "Split CHR ''$'' (b64_EncodeToString a @ ''$'' @ r) = b64_EncodeToString a # Split CHR ''$'' r" for r
    using Split_append [of "CHR ''$''" "b64_EncodeToString a" r] b64_no_sep by simp
  have 4: "Split CHR ''$'' (b64_EncodeToString b) = [b64_EncodeToString b]"
    by (rule Split_no_sep) (rule b64_no_sep)
  show ?thesis
    using 1 [of "''m='' @ decimal m @ '',t='' @ decimal t @ '',p='' @ decimal p
        @ ''$'' @ b64_EncodeToString a @ ''$'' @ b64_EncodeToString b"]
      2 [of "b64_EncodeToString a @ ''$'' @ b64_EncodeToString b"] 3 [of "b64_EncodeToString b"] 4
    by simp
qed

lemma scan_hash_params:
  assumes "v < 2 ^ 63"
  shows "scan_version (''v='' @ decimal v) = Some (int v)"
    and "scan_params (''m='' @ decimal argonMemoryKiB @ '',t='' @ decimal argonTime @ '',p='' @ decimal argonThreads)
         = Some (argonMemoryKiB, argonTime, argonThreads)"
proof -
  show "scan_version (''v='' @ decimal v) = Some (int v)"
    using scan_int_decimal [OF assms, of "[]"] by (simp add: scan_version_def no_digit_def)
  have nd: "no_digit ('',t='' @ r)" "no_digit ('',p='' @ r)" "no_digit []" for r
    by (simp_all add: no_digit_def digit_val_def)
  have "scan_uint 32 (decimal argonMemoryKiB @ '',t='' @ r) = Some (argonMemoryKiB, '',t='' @ r)"
    "scan_uint 32 (decimal argonTime @ '',p='' @ r) = Some (argonTime, '',p='' @ r)"
    "scan_uint 8 (decimal argonThreads @ []) = Some (argonThreads, [])" for r
    by (rule scan_uint_decimal; simp add: argonMemoryKiB_def argonTime_def argonThreads_def nd [simplified])+
  then show "scan_params (''m='' @ decimal argonMemoryKiB @ '',t='' @ decimal argonTime @ '',p='' @ decimal argonThreads)
         = Some (argonMemoryKiB, argonTime, argonThreads)"
    by (simp add: scan_params_def)
qed

lemma VerifyPassword_hash:
  assumes "argon_ok A" "HashPassword A (Inr salt) pw = Inr h"
  shows "\<exists>k. IDKey A (bytes_of pw) salt (of_nat argonTime) (of_nat argonMemoryKiB) (of_nat argonThreads) argonKeyLen = Inr k
     \<and> VerifyPassword A h pw' = bindE (IDKey A (bytes_of pw') salt (of_nat argonTime) (of_nat argonMemoryKiB)
         (of_nat argonThreads) argonKeyLen) (\<lambda>got. Inr (got = k))"
proof -
  have nz: "of_nat argonTime \<noteq> (0 :: u32)" "of_nat argonThreads \<noteq> (0 :: byte)"
    by (simp_all add: argonTime_def argonThreads_def)
  obtain k where k: "IDKey A (bytes_of pw) salt (of_nat argonTime) (of_nat argonMemoryKiB) (of_nat argonThreads)
      argonKeyLen = Inr k" "length k = argonKeyLen"
    using assms(1) nz unfolding argon_ok_def by blast
  have v: "argon_Version A < 2 ^ 63"
    using assms(1) by (simp add: argon_ok_def)
  have h: "h = ''$argon2id$v='' @ decimal (argon_Version A) @ ''$m='' @ decimal argonMemoryKiB
      @ '',t='' @ decimal argonTime @ '',p='' @ decimal argonThreads
      @ ''$'' @ b64_EncodeToString salt @ ''$'' @ b64_EncodeToString k"
    using assms(2) k(1) by (simp add: HashPassword_def)
  show ?thesis
    unfolding VerifyPassword_def h Split_hash Let_def
    using scan_hash_params [OF v] k by (simp add: b64_round_trip)
qed

end
