(* ===== verification/Iam.thy ===== *)
theory Iam
  imports Pb Sha256 Password
begin

text \<open>
  The identity model of pkg/iam: principals and the record layout of the system tenant (iam.go), the
  record types with their value encoding (iam.go, policy.go, token.go, ca.go), and the opaque bearer
  tokens with their hashed index (token.go). The value package is a parameter with its four calls on
  the record types of this package, the source of randomness is an argument.
\<close>

section \<open>Layout\<close>

definition SystemTenant :: string where "SystemTenant = ''__system''"
definition IamRegion :: string where "IamRegion = ''IAM''"
definition UserPrefix :: string where "UserPrefix = ''user/''"
definition ServiceAccountPrefix :: string where "ServiceAccountPrefix = ''sa/''"
definition CertPrefix :: string where "CertPrefix = ''cert/''"
definition GenesisMinor :: string where "GenesisMinor = ''cluster/genesis''"
definition TokenPrefixServiceAccount :: string where "TokenPrefixServiceAccount = ''sa-''"
definition TokenPrefixUser :: string where "TokenPrefixUser = ''pat-''"
definition TokenIndexPrefix :: string where "TokenIndexPrefix = ''token/''"
definition GroupPrefix :: string where "GroupPrefix = ''group/''"
definition RolePrefix :: string where "RolePrefix = ''role/''"
definition PolicyInstance :: string where "PolicyInstance = ''policy/i''"
definition PolicyTenantPrefix :: string where "PolicyTenantPrefix = ''policy/t/''"
definition PolicyRegionPrefix :: string where "PolicyRegionPrefix = ''policy/r/''"
definition PKIRegion :: string where "PKIRegion = ''PKI''"
definition JoinPrefix :: string where "JoinPrefix = ''join/''"
definition TokenPrefixJoin :: string where "TokenPrefixJoin = ''join-''"
definition CAMinor :: string where "CAMinor = ''ca''"

lemmas layout_defs = SystemTenant_def IamRegion_def UserPrefix_def ServiceAccountPrefix_def CertPrefix_def
  GenesisMinor_def TokenIndexPrefix_def GroupPrefix_def RolePrefix_def PolicyInstance_def
  PolicyTenantPrefix_def PolicyRegionPrefix_def

definition PrincipalUser :: "string \<Rightarrow> string" where
  "PrincipalUser name = ''user:'' @ name"

definition PrincipalServiceAccount :: "string \<Rightarrow> string" where
  "PrincipalServiceAccount name = ''serviceAccount:'' @ name"

definition PrincipalGroup :: "string \<Rightarrow> string" where
  "PrincipalGroup name = ''group:'' @ name"

text \<open>\<open>strings.IndexByte\<close>: the position of the first occurrence.\<close>

definition IndexByte :: "string \<Rightarrow> char \<Rightarrow> nat option" where
  "IndexByte s c = index_of s c"

definition ParsePrincipal :: "string \<Rightarrow> (string \<times> string) option" where
  "ParsePrincipal princ =
     (case IndexByte princ CHR '':'' of
        Some i \<Rightarrow> Some (take i princ, drop (i + 1) princ)
      | None \<Rightarrow> None)"

definition PrincipalStorageMinor :: "string \<Rightarrow> string option" where
  "PrincipalStorageMinor princ =
     (case ParsePrincipal princ of
        None \<Rightarrow> None
      | Some (kind, name) \<Rightarrow>
          if name = '''' then None
          else if kind = ''user'' then Some (UserPrefix @ name)
          else if kind = ''serviceAccount'' then Some (ServiceAccountPrefix @ name)
          else None)"

definition CertURIForPrincipal :: "string \<Rightarrow> string" where
  "CertURIForPrincipal princ =
     (case ParsePrincipal princ of None \<Rightarrow> '''' | Some (kind, name) \<Rightarrow> ''cdb://'' @ kind @ ''/'' @ name)"

definition iam_Key :: "string \<Rightarrow> Key" where
  "iam_Key minor = \<lparr>MajorKey = bytes_of SystemTenant, RegionName = bytes_of IamRegion,
     MinorKey = bytes_of minor, Timestamp = None\<rparr>"

definition PKIKey :: "string \<Rightarrow> Key" where
  "PKIKey minor = \<lparr>MajorKey = bytes_of SystemTenant, RegionName = bytes_of PKIRegion,
     MinorKey = bytes_of minor, Timestamp = None\<rparr>"

definition PolicyTenantMinor :: "string \<Rightarrow> string" where
  "PolicyTenantMinor tenant = PolicyTenantPrefix @ tenant"

definition PolicyRegionMinor :: "string \<Rightarrow> string \<Rightarrow> string" where
  "PolicyRegionMinor tenant region = PolicyRegionPrefix @ tenant @ ''/'' @ region"

section \<open>Records\<close>

record GenesisRecord =
  gn_InitializedAt :: i64
  gn_CreatedBy :: string

record UserRecord =
  us_Name :: string
  us_PasswordHash :: string
  us_Admin :: bool
  us_Disabled :: bool
  us_CreatedAt :: i64

record ServiceAccountRecord =
  sa_Name :: string
  sa_TokenHash :: string
  sa_Disabled :: bool
  sa_CreatedAt :: i64

record CertIndexRecord =
  ci_Principal :: string
  ci_Issued :: bool
  ci_CreatedAt :: i64

record TokenRecord =
  tk_Principal :: string
  tk_ExpiresAt :: i64
  tk_Label :: string
  tk_CreatedAt :: i64

record GroupRecord =
  gr_Name :: string
  gr_Members :: "string list"

record RoleRecord =
  ro_Name :: string
  ro_Permissions :: "string list"

record Binding =
  bi_Role :: string
  bi_Members :: "string list"

record PolicyRecord =
  Bindings :: "Binding list"

record JoinRecord =
  jn_ExpiresAt :: i64
  jn_CreatedBy :: string
  jn_Reusable :: bool

record CARecord =
  ca_CertPEM :: bytes
  ca_KeyPEM :: bytes
  ca_CreatedAt :: i64

datatype iam_record =
    IGenesis GenesisRecord
  | IUser UserRecord
  | IServiceAccount ServiceAccountRecord
  | ICertIndex CertIndexRecord
  | IToken TokenRecord
  | IGroup GroupRecord
  | IRole RoleRecord
  | IPolicy PolicyRecord
  | IJoin JoinRecord
  | ICA CARecord

text \<open>The Go type a record is decoded into.\<close>

datatype iam_kind = KGenesis | KUser | KServiceAccount | KCertIndex | KToken | KGroup | KRole | KPolicy | KJoin
  | KCA

fun iam_kind_of :: "iam_record \<Rightarrow> iam_kind" where
  "iam_kind_of (IGenesis _) = KGenesis"
| "iam_kind_of (IUser _) = KUser"
| "iam_kind_of (IServiceAccount _) = KServiceAccount"
| "iam_kind_of (ICertIndex _) = KCertIndex"
| "iam_kind_of (IToken _) = KToken"
| "iam_kind_of (IGroup _) = KGroup"
| "iam_kind_of (IRole _) = KRole"
| "iam_kind_of (IPolicy _) = KPolicy"
| "iam_kind_of (IJoin _) = KJoin"
| "iam_kind_of (ICA _) = KCA"

section \<open>Encoding\<close>

record 'v iam_value_api =
  iam_Marshal :: "iam_record \<Rightarrow> 'v result"
  iam_Pack :: "'v \<Rightarrow> bytes result"
  iam_Unpack :: "bytes \<Rightarrow> 'v result"
  iam_Unmarshal :: "'v \<Rightarrow> iam_kind \<Rightarrow> iam_record result"

definition iam_Encode :: "'v iam_value_api \<Rightarrow> iam_record \<Rightarrow> bytes result" where
  "iam_Encode A obj = bindE (iam_Marshal A obj) (iam_Pack A)"

definition iam_Decode :: "'v iam_value_api \<Rightarrow> bytes \<Rightarrow> iam_kind \<Rightarrow> iam_record result" where
  "iam_Decode A raw kind = bindE (iam_Unpack A raw) (\<lambda>v. iam_Unmarshal A v kind)"

text \<open>\<open>iam.Decode(raw, obj) == nil\<close>, with the record it filled.\<close>

definition decoded :: "'v iam_value_api \<Rightarrow> bytes \<Rightarrow> iam_kind \<Rightarrow> iam_record option" where
  "decoded A raw kind = (case iam_Decode A raw kind of Inr r \<Rightarrow> Some r | Inl _ \<Rightarrow> None)"

text \<open>What is relied on of the value package: what a record packs to reads back at its type and is not
  the empty string, and decoding into a type gives a value of that type.\<close>

definition iam_value_ok :: "'v iam_value_api \<Rightarrow> bool" where
  "iam_value_ok A \<longleftrightarrow>
     (\<forall>r v b. iam_Marshal A r = Inr v \<longrightarrow> iam_Pack A v = Inr b \<longrightarrow>
        b \<noteq> [] \<and> bindE (iam_Unpack A b) (\<lambda>v. iam_Unmarshal A v (iam_kind_of r)) = Inr r)
     \<and> (\<forall>v k r. iam_Unmarshal A v k = Inr r \<longrightarrow> iam_kind_of r = k)"

section \<open>Tokens\<close>

text \<open>\<open>hex.EncodeToString\<close>.\<close>

definition hex_digit :: "nat \<Rightarrow> char" where
  "hex_digit n = ''0123456789abcdef'' ! n"

definition hex_EncodeToString :: "bytes \<Rightarrow> string" where
  "hex_EncodeToString b = concat (map (\<lambda>w. [hex_digit (unat w div 16), hex_digit (unat w mod 16)]) b)"

definition HashToken :: "string \<Rightarrow> string" where
  "HashToken token = hex_EncodeToString (sha256 (bytes_of token))"

definition TokenIndexKey :: "string \<Rightarrow> string" where
  "TokenIndexKey hash = TokenIndexPrefix @ hash"

definition JoinIndexKey :: "string \<Rightarrow> string" where
  "JoinIndexKey hash = JoinPrefix @ hash"

definition NewToken :: "bytes result \<Rightarrow> string \<Rightarrow> (string \<times> string) result" where
  "NewToken random kind =
     (case random of
        Inl e \<Rightarrow> Inl (Wrapped ''iam: token secret'' e)
      | Inr buf \<Rightarrow> let token = kind @ hex_EncodeToString buf in Inr (token, HashToken token))"

section \<open>Facts\<close>

lemma decode_encode_iam:
  assumes "iam_value_ok A" "iam_Encode A r = Inr b"
  shows "iam_Decode A b (iam_kind_of r) = Inr r" "decoded A b (iam_kind_of r) = Some r" "b \<noteq> []"
proof -
  obtain v where "iam_Marshal A r = Inr v" "iam_Pack A v = Inr b"
    using assms(2) by (auto simp: iam_Encode_def bindE_def split: sum.splits)
  then show "iam_Decode A b (iam_kind_of r) = Inr r" "b \<noteq> []"
    using assms(1) unfolding iam_value_ok_def iam_Decode_def by blast+
  then show "decoded A b (iam_kind_of r) = Some r"
    by (simp add: decoded_def)
qed

lemma decoded_kind: "iam_value_ok A \<Longrightarrow> decoded A b k = Some r \<Longrightarrow> iam_kind_of r = k"
  by (auto simp: iam_value_ok_def decoded_def iam_Decode_def bindE_def split: sum.splits)

lemma hex_digit_inject: "m < 16 \<Longrightarrow> n < 16 \<Longrightarrow> hex_digit m = hex_digit n \<longleftrightarrow> m = n"
proof -
  have "distinct (''0123456789abcdef'' :: string)" by simp
  then show "m < 16 \<Longrightarrow> n < 16 \<Longrightarrow> ?thesis"
    by (simp add: hex_digit_def nth_eq_iff_index_eq)
qed

lemma length_hex [simp]: "length (hex_EncodeToString b) = 2 * length b"
  by (induction b) (simp_all add: hex_EncodeToString_def)

lemma hex_inject: "hex_EncodeToString a = hex_EncodeToString b \<longleftrightarrow> a = b"
proof
  assume eq: "hex_EncodeToString a = hex_EncodeToString b"
  then have "length a = length b"
    by (metis length_hex mult_left_cancel zero_neq_numeral)
  then show "a = b"
    using eq
  proof (induction a b rule: list_induct2)
    case (Cons x xs y ys)
    have d: "unat w div 16 < 16" "unat w mod 16 < 16" for w :: byte
      using unat_byte_less [of w] by auto
    have "unat x div 16 = unat y div 16" "unat x mod 16 = unat y mod 16"
      using Cons.prems by (simp_all add: hex_EncodeToString_def hex_digit_inject d)
    then have "x = y"
      by (metis div_mult_mod_eq unsigned_word_eqI)
    with Cons show ?case by (simp add: hex_EncodeToString_def)
  qed simp
qed simp

lemma ParsePrincipal_kinds:
  "ParsePrincipal (PrincipalUser n) = Some (''user'', n)"
  "ParsePrincipal (PrincipalServiceAccount n) = Some (''serviceAccount'', n)"
  by (simp_all add: ParsePrincipal_def PrincipalUser_def PrincipalServiceAccount_def IndexByte_def)

lemma principal_inject [simp]:
  "PrincipalUser a = PrincipalUser b \<longleftrightarrow> a = b"
  "PrincipalServiceAccount a = PrincipalServiceAccount b \<longleftrightarrow> a = b"
  "PrincipalGroup a = PrincipalGroup b \<longleftrightarrow> a = b"
  "PrincipalUser a \<noteq> PrincipalServiceAccount b" "PrincipalServiceAccount b \<noteq> PrincipalUser a"
  "PrincipalUser a \<noteq> PrincipalGroup b" "PrincipalGroup b \<noteq> PrincipalUser a"
  "PrincipalServiceAccount a \<noteq> PrincipalGroup b" "PrincipalGroup b \<noteq> PrincipalServiceAccount a"
  "PrincipalUser a \<noteq> ''''" "PrincipalServiceAccount a \<noteq> ''''"
  by (simp_all add: PrincipalUser_def PrincipalServiceAccount_def PrincipalGroup_def)

end
