(* ===== verification/Policy.thy ===== *)
theory Policy
  imports Iam
begin

text \<open>
  The authorization model of pkg/iam/policy.go: permissions, predefined roles, the compiled snapshot of
  the IAM records, the scope keys of the policy records, and the decision. \<open>allowed\<close> states what a
  decision means without the loops and the lookup order; the scope keys of slash-free names are
  shown to be distinct, so that a binding has force only within the scope it is attached to.
\<close>

section \<open>Permissions and roles\<close>

definition PermRecordsGet :: string where "PermRecordsGet = ''cdb.records.get''"
definition PermRecordsPut :: string where "PermRecordsPut = ''cdb.records.put''"
definition PermRecordsDelete :: string where "PermRecordsDelete = ''cdb.records.delete''"
definition PermRecordsIncrement :: string where "PermRecordsIncrement = ''cdb.records.increment''"
definition PermRecordsBatch :: string where "PermRecordsBatch = ''cdb.records.batch''"
definition PermRecordsEnumerate :: string where "PermRecordsEnumerate = ''cdb.records.enumerate''"
definition PermRecordsWatch :: string where "PermRecordsWatch = ''cdb.records.watch''"
definition PermIamGet :: string where "PermIamGet = ''cdb.iam.get''"
definition PermIamSet :: string where "PermIamSet = ''cdb.iam.set''"
definition PermBackupsCreate :: string where "PermBackupsCreate = ''cdb.backups.create''"
definition PermBackupsRestore :: string where "PermBackupsRestore = ''cdb.backups.restore''"
definition PermProofsRead :: string where "PermProofsRead = ''cdb.proofs.read''"
definition PermClusterAdmin :: string where "PermClusterAdmin = ''cdb.cluster.admin''"

lemmas perm_defs = PermRecordsGet_def PermRecordsPut_def PermRecordsDelete_def PermRecordsIncrement_def
  PermRecordsBatch_def PermRecordsEnumerate_def PermRecordsWatch_def PermIamGet_def PermIamSet_def
  PermBackupsCreate_def PermBackupsRestore_def PermProofsRead_def PermClusterAdmin_def

definition AllPermissions :: "string list" where
  "AllPermissions =
     [PermRecordsGet, PermRecordsPut, PermRecordsDelete, PermRecordsIncrement,
      PermRecordsBatch, PermRecordsEnumerate, PermRecordsWatch,
      PermIamGet, PermIamSet, PermBackupsCreate, PermBackupsRestore, PermProofsRead, PermClusterAdmin]"

definition IsPermission :: "string \<Rightarrow> bool" where
  "IsPermission p = list_ex (\<lambda>known. known = p) AllPermissions"

definition RoleAdmin :: string where "RoleAdmin = ''roles/cdb.admin''"

definition PredefinedRoles :: "string \<rightharpoonup> string list" where
  "PredefinedRoles =
     (let viewer = [PermRecordsGet, PermRecordsEnumerate, PermRecordsWatch];
          editor = [PermRecordsPut, PermRecordsDelete, PermRecordsIncrement, PermRecordsBatch] @ viewer
      in [''roles/cdb.viewer'' \<mapsto> viewer,
          ''roles/cdb.editor'' \<mapsto> editor,
          ''roles/cdb.auditor'' \<mapsto> [PermProofsRead] @ viewer,
          ''roles/cdb.admin'' \<mapsto>
            [PermRecordsGet, PermRecordsPut, PermRecordsDelete, PermRecordsIncrement,
             PermRecordsBatch, PermRecordsEnumerate, PermRecordsWatch,
             PermIamGet, PermIamSet, PermBackupsCreate, PermBackupsRestore, PermProofsRead, PermClusterAdmin]])"

definition EffectivePermission :: "string \<Rightarrow> string \<Rightarrow> string" where
  "EffectivePermission perm tenant =
     (if tenant \<noteq> SystemTenant then perm
      else if perm = PermRecordsGet \<or> perm = PermRecordsEnumerate \<or> perm = PermRecordsWatch then PermIamGet
      else PermIamSet)"

section \<open>The snapshot and its decision\<close>

text \<open>A Go map read without presence test gives the zero value for a missing key.\<close>

definition mget :: "('k \<rightharpoonup> 'v) \<Rightarrow> 'v \<Rightarrow> 'k \<Rightarrow> 'v" where
  "mget m z k = (case m k of Some v \<Rightarrow> v | None \<Rightarrow> z)"

lemma mget_upd [simp]: "mget (m(k \<mapsto> v)) z k' = (if k' = k then v else mget m z k')"
  by (simp add: mget_def)

lemma mget_empty [simp]: "mget Map.empty z k = z"
  by (simp add: mget_def)

record Snapshot =
  Admins :: "string \<rightharpoonup> bool"
  Disabled :: "string \<rightharpoonup> bool"
  MemberGroups :: "string \<rightharpoonup> string list"
  Roles :: "string \<rightharpoonup> string list"
  Policies :: "string \<rightharpoonup> Binding list"

definition NewSnapshot :: Snapshot where
  "NewSnapshot = \<lparr>Admins = Map.empty, Disabled = Map.empty, MemberGroups = Map.empty,
     Roles = PredefinedRoles, Policies = Map.empty\<rparr>"

definition scopes :: "string \<Rightarrow> string \<Rightarrow> string list" where
  "scopes tenant region =
     (if tenant \<noteq> '''' \<and> region \<noteq> '''' then [''r/'' @ tenant @ ''/'' @ region] else [])
     @ (if tenant \<noteq> '''' then [''t/'' @ tenant] else []) @ [''i'']"

text \<open>The inner loops: over the members of a binding, and over the permissions of its role.\<close>

fun any_member :: "(string \<Rightarrow> bool) \<Rightarrow> string list \<Rightarrow> bool" where
  "any_member members [] = False"
| "any_member members (m # ms) = (if members m then True else any_member members ms)"

fun bindings_grant :: "Snapshot \<Rightarrow> (string \<Rightarrow> bool) \<Rightarrow> string \<Rightarrow> Binding list \<Rightarrow> bool" where
  "bindings_grant s members permission [] = False"
| "bindings_grant s members permission (b # bs) =
     (if \<not> any_member members (bi_Members b) then bindings_grant s members permission bs
      else if list_ex (\<lambda>p. p = permission) (mget (Roles s) [] (bi_Role b)) then True
      else bindings_grant s members permission bs)"

definition Snapshot_Authorize :: "Snapshot \<Rightarrow> string \<Rightarrow> string \<Rightarrow> string \<Rightarrow> string \<Rightarrow> bool" where
  "Snapshot_Authorize s princ permission tenant region =
     (if princ = '''' \<or> mget (Disabled s) False princ then False
      else if mget (Admins s) False princ then True
      else let members = (\<lambda>m. m = princ \<or> m \<in> set (mget (MemberGroups s) [] princ)) in
        list_ex (\<lambda>scope. bindings_grant s members permission (mget (Policies s) [] scope))
          (scopes tenant region))"

definition PolicyScopeKey :: "string \<Rightarrow> string option" where
  "PolicyScopeKey minor =
     (if minor = PolicyInstance then Some ''i''
      else if prefix PolicyTenantPrefix minor then Some (''t/'' @ drop (length PolicyTenantPrefix) minor)
      else if prefix PolicyRegionPrefix minor then Some (''r/'' @ drop (length PolicyRegionPrefix) minor)
      else None)"

section \<open>What a decision means\<close>

text \<open>\<open>speaks_for\<close>: the names under which a principal can be bound. \<open>granted\<close>: some binding attached
  to one of the scopes that contain the addressed place names the principal and a role with the
  permission.\<close>

definition speaks_for :: "Snapshot \<Rightarrow> string \<Rightarrow> string set" where
  "speaks_for s princ = insert princ (set (mget (MemberGroups s) [] princ))"

definition granted :: "Snapshot \<Rightarrow> string \<Rightarrow> string \<Rightarrow> string \<Rightarrow> bool" where
  "granted s princ permission scope \<longleftrightarrow>
     (\<exists>b \<in> set (mget (Policies s) [] scope). set (bi_Members b) \<inter> speaks_for s princ \<noteq> {}
        \<and> permission \<in> set (mget (Roles s) [] (bi_Role b)))"

definition allowed :: "Snapshot \<Rightarrow> string \<Rightarrow> string \<Rightarrow> string \<Rightarrow> string \<Rightarrow> bool" where
  "allowed s princ permission tenant region \<longleftrightarrow>
     princ \<noteq> '''' \<and> \<not> mget (Disabled s) False princ
     \<and> (mget (Admins s) False princ
        \<or> granted s princ permission ''i''
        \<or> tenant \<noteq> '''' \<and> granted s princ permission (''t/'' @ tenant)
        \<or> tenant \<noteq> '''' \<and> region \<noteq> '''' \<and> granted s princ permission (''r/'' @ tenant @ ''/'' @ region))"

lemma any_member_iff: "any_member P ms \<longleftrightarrow> (\<exists>m \<in> set ms. P m)"
  by (induction ms) auto

lemma bindings_grant_iff:
  "bindings_grant s P perm bs \<longleftrightarrow>
     (\<exists>b \<in> set bs. (\<exists>m \<in> set (bi_Members b). P m) \<and> perm \<in> set (mget (Roles s) [] (bi_Role b)))"
  by (induction bs) (auto simp: any_member_iff list_ex_iff)

lemma bindings_grant_granted:
  "bindings_grant s (\<lambda>m. m = princ \<or> m \<in> set (mget (MemberGroups s) [] princ)) perm
     (mget (Policies s) [] scope) = granted s princ perm scope"
  by (auto simp: bindings_grant_iff granted_def speaks_for_def)

lemma Snapshot_Authorize_allowed: "Snapshot_Authorize s princ perm tenant region \<longleftrightarrow> allowed s princ perm tenant region"
  by (auto simp: Snapshot_Authorize_def allowed_def bindings_grant_granted scopes_def Let_def)

section \<open>Scope keys\<close>

text \<open>\<open>PolicyScopeKey\<close> inverts the minors that hold a scope's policy.\<close>

lemma PolicyScopeKey_minors:
  "PolicyScopeKey PolicyInstance = Some ''i''"
  "PolicyScopeKey (PolicyTenantMinor t) = Some (''t/'' @ t)"
  "PolicyScopeKey (PolicyRegionMinor t r) = Some (''r/'' @ t @ ''/'' @ r)"
  by (simp_all add: PolicyScopeKey_def PolicyTenantMinor_def PolicyRegionMinor_def layout_defs)

lemma PolicyScopeKey_inject: "PolicyScopeKey m = Some sc \<Longrightarrow> PolicyScopeKey m' = Some sc \<Longrightarrow> m = m'"
  by (auto simp: PolicyScopeKey_def layout_defs prefix_def split: if_splits)

text \<open>Names free of the separator give distinct region scopes; with a separator in a name two
  different places share one.\<close>

lemma split_at_slash:
  assumes "t @ ''/'' @ r = t' @ ''/'' @ r'" "CHR ''/'' \<notin> set t" "CHR ''/'' \<notin> set t'"
  shows "t = t' \<and> r = r'"
  using assms
proof (induction t arbitrary: t')
  case Nil
  then show ?case by (cases t') auto
next
  case (Cons c t)
  then obtain u where "t' = c # u"
    by (cases t') auto
  with Cons show ?case by simp
qed

lemma scopes_disjoint:
  assumes "CHR ''/'' \<notin> set t" "CHR ''/'' \<notin> set t'" "sc \<in> set (scopes t r)" "sc \<in> set (scopes t' r')" "sc \<noteq> ''i''"
  shows "t = t'"
  using assms split_at_slash [of t r t' r'] by (auto simp: scopes_def split: if_splits)

text \<open>Decisions depend only on the policies of the scopes that contain the addressed place.\<close>

lemma allowed_local:
  assumes "\<And>sc. sc \<in> set (scopes tenant region) \<Longrightarrow> P sc = Policies s sc"
  shows "allowed (s\<lparr>Policies := P\<rparr>) princ perm tenant region = allowed s princ perm tenant region"
proof -
  have "granted (s\<lparr>Policies := P\<rparr>) princ perm sc = granted s princ perm sc" if "sc \<in> set (scopes tenant region)" for sc
    using assms [OF that] by (simp add: granted_def speaks_for_def mget_def)
  then show ?thesis
    by (auto simp: allowed_def scopes_def)
qed

text \<open>The permissions of the predefined roles.\<close>

lemma predefined_permissions: "PredefinedRoles n = Some ps \<Longrightarrow> set ps \<subseteq> set AllPermissions"
  by (auto simp: PredefinedRoles_def AllPermissions_def Let_def split: if_splits)

lemma EffectivePermission_system:
  "EffectivePermission perm SystemTenant \<in> {PermIamGet, PermIamSet}"
  "tenant \<noteq> SystemTenant \<Longrightarrow> EffectivePermission perm tenant = perm"
  by (simp_all add: EffectivePermission_def)

end
