(* ===== verification/Access.thy ===== *)
theory Access
  imports Policy Storage_Reads
begin

text \<open>
  Authentication and authorization of the data plane: \<open>AuthService\<close> (pkg/server/auth.go),
  \<open>PolicyService\<close> (pkg/server/policy_service.go), the request guards (pkg/server/authz_guard.go), and
  the two block senders of pkg/server/vrpc_data.go that the scans are given. The principal of a
  request context and the peer certificates of a connection are arguments.
\<close>

section \<open>Block senders\<close>

text \<open>\<open>collectSender\<close> buffers; its state is the buffer.\<close>

definition collectSender_Send :: "Record list send" where
  "collectSender_Send records block = (None, records @ block)"

text \<open>\<open>chanBlockSender\<close> passes records to a channel. Its state is what the receiver has taken;
  \<open>stop n\<close> says that the select after \<open>n\<close> deliveries takes the branch \<open>ctx.Done()\<close>, with the error
  \<open>err\<close>.\<close>

fun chanBlockSender_Send :: "(nat \<Rightarrow> bool) \<Rightarrow> go_error \<Rightarrow> Record list send" where
  "chanBlockSender_Send stop err out [] = (None, out)"
| "chanBlockSender_Send stop err out (rec # block) =
     (if stop (length out) then (Some err, out) else chanBlockSender_Send stop err (out @ [rec]) block)"

lemma chanBlockSender_ok: "chanBlockSender_Send stop err out b = (None, out') \<Longrightarrow> out' = out @ b"
  by (induction b arbitrary: out) (fastforce split: if_splits)+

lemma chanBlockSender_err:
  "chanBlockSender_Send stop err out b = (Some e, out') \<Longrightarrow> \<exists>p. prefix p b \<and> out' = out @ p"
proof (induction b arbitrary: out)
  case (Cons r b)
  show ?case
  proof (cases "stop (length out)")
    case False
    with Cons.prems have "chanBlockSender_Send stop err (out @ [r]) b = (Some e, out')"
      by simp
    from Cons.IH [OF this] obtain p where "prefix p b" "out' = out @ r # p"
      by auto
    then show ?thesis by (intro exI [of _ "r # p"]) simp
  qed (use Cons.prems in auto)
qed simp

interpretation collector: block_sender collectSender_Send "\<lambda>records. records"
  by unfold_locales (simp_all add: collectSender_Send_def)

interpretation channel: block_sender "chanBlockSender_Send stop err" "\<lambda>out. out" for stop err
  by unfold_locales (blast dest: chanBlockSender_ok chanBlockSender_err)+

section \<open>AuthService\<close>

text \<open>A handshake credential that is a map, read through \<open>GetString(k).String()\<close>, or anything else.\<close>

type_synonym credential = "(string \<Rightarrow> string) option"

text \<open>The verified peer certificates: SAN URIs and common name of each, leaf first.\<close>

type_synonym peer_certs = "(string list \<times> string) list option"

definition load :: "'db runtime \<Rightarrow> 'v iam_value_api \<Rightarrow> time \<Rightarrow> 'db KeyValueStorageCtx \<Rightarrow> string \<Rightarrow> iam_kind
    \<Rightarrow> iam_record option" where
  "load E A now s minor kind =
     (case Get E now s \<lparr>kr_Key = Some (iam_Key minor), kr_HeadOnly = False, kr_Timeout = 0\<rparr> of
        Inl _ \<Rightarrow> None
      | Inr rec \<Rightarrow> if length (rec_Value rec) = 0 then None else decoded A (rec_Value rec) kind)"

definition AuthenticatePassword :: "'db runtime \<Rightarrow> 'v iam_value_api \<Rightarrow> argon_api \<Rightarrow> time \<Rightarrow> 'db KeyValueStorageCtx
    \<Rightarrow> string \<Rightarrow> string \<Rightarrow> string result" where
  "AuthenticatePassword E A G now s name pass =
     (case load E A now s (UserPrefix @ name) KUser of
        Some (IUser rec) \<Rightarrow>
          if us_Disabled rec then Inl (Msg ''invalid user credentials'')
          else bindE (VerifyPassword G (us_PasswordHash rec) pass)
            (\<lambda>ok. if \<not> ok then Inl (Msg ''invalid user credentials'') else Inr (PrincipalUser name))
      | _ \<Rightarrow> Inl (Msg ''invalid user credentials''))"

definition AuthenticateToken :: "'db runtime \<Rightarrow> 'v iam_value_api \<Rightarrow> time \<Rightarrow> 'db KeyValueStorageCtx \<Rightarrow> string
    \<Rightarrow> string result" where
  "AuthenticateToken E A now s token =
     (case load E A now s (TokenIndexKey (HashToken token)) KToken of
        Some (IToken rec) \<Rightarrow>
          if tk_Principal rec = '''' then Inl (Msg ''invalid token'')
          else if tk_ExpiresAt rec \<noteq> 0 \<and> now > sint (tk_ExpiresAt rec) then Inl (Msg ''token expired'')
          else Inr (tk_Principal rec)
      | _ \<Rightarrow> Inl (Msg ''invalid token''))"

fun first_registered :: "'db runtime \<Rightarrow> 'v iam_value_api \<Rightarrow> time \<Rightarrow> 'db KeyValueStorageCtx \<Rightarrow> string list
    \<Rightarrow> string option" where
  "first_registered E A now s [] = None"
| "first_registered E A now s (ident # idents) =
     (case load E A now s (CertPrefix @ ident) KCertIndex of
        Some (ICertIndex idx) \<Rightarrow>
          if ci_Principal idx \<noteq> '''' then Some (ci_Principal idx) else first_registered E A now s idents
      | _ \<Rightarrow> first_registered E A now s idents)"

definition certificatePrincipal :: "'db runtime \<Rightarrow> 'v iam_value_api \<Rightarrow> time \<Rightarrow> 'db KeyValueStorageCtx \<Rightarrow> peer_certs
    \<Rightarrow> string option" where
  "certificatePrincipal E A now s certs =
     (case certs of
        Some ((uris, cn) # _) \<Rightarrow> first_registered E A now s (uris @ (if cn \<noteq> '''' then [cn] else []))
      | _ \<Rightarrow> None)"

definition passwordPrincipal where
  "passwordPrincipal E A G now s m = AuthenticatePassword E A G now s (m ''user'') (m ''pass'')"

definition tokenPrincipal where
  "tokenPrincipal E A now s m = AuthenticateToken E A now s (m ''token'')"

definition Authenticate :: "'db runtime \<Rightarrow> 'v iam_value_api \<Rightarrow> argon_api \<Rightarrow> time \<Rightarrow> 'db KeyValueStorageCtx
    \<Rightarrow> peer_certs \<Rightarrow> credential \<Rightarrow> string result" where
  "Authenticate E A G now s certs credential =
     (case credential of
        Some m \<Rightarrow>
          if m ''method'' = ''password'' then passwordPrincipal E A G now s m
          else if m ''method'' = ''token'' then tokenPrincipal E A now s m
          else Inl (Msg ''unsupported credential method'')
      | None \<Rightarrow>
          (case certificatePrincipal E A now s certs of
             Some princ \<Rightarrow> Inr princ
           | None \<Rightarrow> Inl (Msg ''authentication required'')))"

section \<open>PolicyService\<close>

record PolicyService =
  ps_Enabled :: bool
  ps_snap :: "Snapshot option"
  ps_dirty :: bool

text \<open>One turn of the loop of \<open>rebuild\<close>.\<close>

definition absorb :: "'v iam_value_api \<Rightarrow> string \<Rightarrow> bytes \<Rightarrow> Snapshot \<Rightarrow> Snapshot" where
  "absorb A minor val snap =
     (if prefix UserPrefix minor then
        (case decoded A val KUser of
           Some (IUser u) \<Rightarrow>
             (let p = PrincipalUser (us_Name u) in
              snap\<lparr>Admins := (Admins snap)(p \<mapsto> us_Admin u), Disabled := (Disabled snap)(p \<mapsto> us_Disabled u)\<rparr>)
         | _ \<Rightarrow> snap)
      else if prefix ServiceAccountPrefix minor then
        (case decoded A val KServiceAccount of
           Some (IServiceAccount sa) \<Rightarrow>
             snap\<lparr>Disabled := (Disabled snap)(PrincipalServiceAccount (sa_Name sa) \<mapsto> sa_Disabled sa)\<rparr>
         | _ \<Rightarrow> snap)
      else if prefix GroupPrefix minor then
        (case decoded A val KGroup of
           Some (IGroup g) \<Rightarrow>
             foldl (\<lambda>snap m. snap\<lparr>MemberGroups := (MemberGroups snap)
                 (m \<mapsto> mget (MemberGroups snap) [] m @ [PrincipalGroup (gr_Name g)])\<rparr>) snap (gr_Members g)
         | _ \<Rightarrow> snap)
      else if prefix RolePrefix minor then
        (case decoded A val KRole of
           Some (IRole r) \<Rightarrow>
             if Roles snap (ro_Name r) = None
             then snap\<lparr>Roles := (Roles snap)(ro_Name r \<mapsto> ro_Permissions r)\<rparr> else snap
         | _ \<Rightarrow> snap)
      else
        (case PolicyScopeKey minor of
           None \<Rightarrow> snap
         | Some scope \<Rightarrow>
             (case decoded A val KPolicy of
                Some (IPolicy p) \<Rightarrow> snap\<lparr>Policies := (Policies snap)(scope \<mapsto> Bindings p)\<rparr>
              | _ \<Rightarrow> snap)))"

definition absorb_record :: "'v iam_value_api \<Rightarrow> Snapshot \<Rightarrow> Record \<Rightarrow> Snapshot" where
  "absorb_record A snap rec =
     (case rec_Key rec of
        None \<Rightarrow> snap
      | Some k \<Rightarrow> if length (rec_Value rec) = 0 then snap
                  else absorb A (string_of (MinorKey k)) (rec_Value rec) snap)"

definition iam_area :: Key where
  "iam_area = \<lparr>MajorKey = bytes_of SystemTenant, RegionName = bytes_of IamRegion, MinorKey = [], Timestamp = None\<rparr>"

definition rebuild :: "'db runtime \<Rightarrow> 'v iam_value_api \<Rightarrow> time \<Rightarrow> 'db KeyValueStorageCtx \<Rightarrow> PolicyService
    \<Rightarrow> go_error option \<times> PolicyService" where
  "rebuild E A now s t =
     (case GetArea E now s \<lparr>kr_Key = Some iam_area, kr_HeadOnly = False, kr_Timeout = 0\<rparr> RegionNameField
             collectSender_Send [] of
        (Some e, _) \<Rightarrow> (Some e, t)
      | (None, records) \<Rightarrow> (None, t\<lparr>ps_snap := Some (foldl (absorb_record A) NewSnapshot records)\<rparr>))"

definition PolicyService_PostConstruct where
  "PolicyService_PostConstruct E A now s t =
     (if \<not> ps_Enabled t then (Inr None, t)
      else case rebuild E A now s t of
        (Some e, t) \<Rightarrow> (Inl e, t)
      | (None, t) \<Rightarrow>
          (case EncodeKeyPrefix (uuid E) \<lparr>MajorKey = bytes_of SystemTenant, RegionName = [], MinorKey = [],
                    Timestamp = None\<rparr> MajorKeyField of
             Inl e \<Rightarrow> (Inl e, t)
           | Inr watched \<Rightarrow> (Inr (Some watched), t)))"

text \<open>The watch callback installed there.\<close>

definition invalidate :: "store_event \<Rightarrow> PolicyService \<Rightarrow> bool \<times> PolicyService" where
  "invalidate ev t = (True, t\<lparr>ps_dirty := True\<rparr>)"

definition Authorize :: "'db runtime \<Rightarrow> 'v iam_value_api \<Rightarrow> time \<Rightarrow> 'db KeyValueStorageCtx \<Rightarrow> PolicyService option
    \<Rightarrow> string \<Rightarrow> string \<Rightarrow> string \<Rightarrow> string \<Rightarrow> go_error option \<times> PolicyService option" where
  "Authorize E A now s pol princ permission tenant region =
     (case pol of
        None \<Rightarrow> (None, pol)
      | Some t \<Rightarrow>
          if \<not> ps_Enabled t then (None, pol)
          else
            let t = (if ps_dirty t
                     then (case rebuild E A now s (t\<lparr>ps_dirty := False\<rparr>) of
                             (Some _, t) \<Rightarrow> t\<lparr>ps_dirty := True\<rparr>
                           | (None, t) \<Rightarrow> t)
                     else t);
                effective = EffectivePermission permission tenant in
            (case ps_snap t of
               Some snap \<Rightarrow>
                 if Snapshot_Authorize snap princ effective tenant region then (None, Some t)
                 else (Some (PermissionDenied princ effective tenant region), Some t)
             | None \<Rightarrow> (Some (PermissionDenied princ effective tenant region), Some t)))"

section \<open>Guards\<close>

definition scopeOf :: "Key option \<Rightarrow> string \<times> string" where
  "scopeOf key = (case key of None \<Rightarrow> ('''', '''')
     | Some k \<Rightarrow> (string_of (MajorKey k), string_of (RegionName k)))"

text \<open>\<open>fn\<close> acts on a state \<open>'t\<close> (the node); a denial returns before it runs.\<close>

definition guardKey ::
  "(PolicyService option \<Rightarrow> string \<Rightarrow> string \<Rightarrow> string \<Rightarrow> string \<Rightarrow> go_error option \<times> PolicyService option)
   \<Rightarrow> string \<Rightarrow> ('req \<Rightarrow> Key option) \<Rightarrow> ('t \<Rightarrow> 'req \<Rightarrow> 'resp result \<times> 't)
   \<Rightarrow> string \<Rightarrow> PolicyService option \<times> 't \<Rightarrow> 'req \<Rightarrow> 'resp result \<times> PolicyService option \<times> 't" where
  "guardKey authorize perm keyOf fn princ st req =
     (let (tenant, region) = scopeOf (keyOf req) in
      case authorize (fst st) princ perm tenant region of
        (Some err, pol) \<Rightarrow> (Inl err, pol, snd st)
      | (None, pol) \<Rightarrow> (let (res, t) = fn (snd st) req in (res, pol, t)))"

definition batchScope :: "BatchRequest \<Rightarrow> (string \<times> string) option" where
  "batchScope req =
     (case Records req of
        [] \<Rightarrow> Some ('''', '''')
      | r # rs \<Rightarrow>
          (let sc = scopeOf (rr_Key r) in
           if list_ex (\<lambda>r. scopeOf (rr_Key r) \<noteq> sc) rs then None else Some sc))"

section \<open>Facts\<close>

subsection \<open>Collected areas\<close>

lemma map_filter_cong_set: "\<forall>x \<in> set xs. f x = g x \<Longrightarrow> List.map_filter f xs = List.map_filter g xs"
  by (induction xs) (simp_all add: map_filter_simps split: option.split)

lemma map_filter_map_fun: "List.map_filter f (map g xs) = List.map_filter (f \<circ> g) xs"
  by (induction xs) (simp_all add: map_filter_simps split: option.split)

text \<open>The live rows of the cells whose key carries a prefix, in key order.\<close>

definition cell_row :: "'db runtime \<Rightarrow> time \<Rightarrow> (bytes \<rightharpoonup> cell) \<Rightarrow> bytes \<Rightarrow> (Key \<times> u64 \<times> u64 \<times> i32 \<times> bytes) option" where
  "cell_row E now cs b =
     (case DecodeKey (uuid E) b of
        Inl _ \<Rightarrow> None
      | Inr key \<Rightarrow> map_option (\<lambda>c. (key, answer False c)) (live E now (cs b)))"

definition area_rows :: "'db runtime \<Rightarrow> time \<Rightarrow> (bytes \<rightharpoonup> cell) \<Rightarrow> bytes \<Rightarrow> (Key \<times> u64 \<times> u64 \<times> i32 \<times> bytes) list" where
  "area_rows E now cs p = List.map_filter (cell_row E now cs) (sorted_list_of_set {b \<in> dom cs. prefix p b})"

lemma set_map_filter_iff: "y \<in> set (List.map_filter f xs) \<longleftrightarrow> (\<exists>x \<in> set xs. f x = Some y)"
  by (induction xs) (auto simp: map_filter_simps split: option.splits)

lemma area_rows_iff:
  "finite (dom cs) \<Longrightarrow> row \<in> set (area_rows E now cs p) \<longleftrightarrow>
     (\<exists>b. b \<in> dom cs \<and> prefix p b \<and> cell_row E now cs b = Some row)"
  by (simp add: area_rows_def set_map_filter_iff)

lemma area_rows_cong:
  assumes "\<And>b. prefix p b \<Longrightarrow> cs b = cs' b"
  shows "area_rows E now cs p = area_rows E now cs' p"
proof -
  have keys: "{b \<in> dom cs. prefix p b} = {b \<in> dom cs'. prefix p b}"
  proof (rule Collect_cong)
    show "b \<in> dom cs \<and> prefix p b \<longleftrightarrow> b \<in> dom cs' \<and> prefix p b" for b
      using assms [of b] by (cases "prefix p b") (simp_all add: domIff)
  qed
  have row: "cell_row E now cs b = cell_row E now cs' b" if "prefix p b" for b
    using assms [OF that] by (cases "DecodeKey (uuid E) b") (simp_all add: cell_row_def)
  have "prefix p b" if "b \<in> set (sorted_list_of_set {b \<in> dom cs'. prefix p b})" for b
    using that by (cases "finite {b \<in> dom cs'. prefix p b}") simp_all
  then have "\<forall>b \<in> set (sorted_list_of_set {b \<in> dom cs'. prefix p b}). cell_row E now cs b = cell_row E now cs' b"
    using row by blast
  then show ?thesis
    unfolding area_rows_def keys by (rule map_filter_cong_set)
qed

lemma contents_rows:
  assumes "runtime_ok E"
  shows "List.map_filter (decode_live E now False) (filter (\<lambda>(k, _). prefix p k) (contents (badger E) (db s)))
    = area_rows E now (cells E s) p"
proof -
  let ?ps = "filter (\<lambda>(k, _). prefix p k) (contents (badger E) (db s))"
  have ord: "ordered_keys (contents (badger E) (db s))"
    by (rule badger_okD(1) [OF runtime_okD(1) [OF assms]])
  then have sub: "ordered_keys ?ps"
    by (metis (mono_tags) sorted_wrt_filter sorted_wrt_map)
  have keys: "set (map fst ?ps) = {b \<in> dom (cells E s). prefix p b}"
    by (auto simp: dom_cells image_iff)
  have list: "sorted_list_of_set {b \<in> dom (cells E s). prefix p b} = map fst ?ps"
    unfolding keys [symmetric] by (rule sorted_list_of_set.idem_if_sorted_distinct)
      (use sub in \<open>simp_all add: strict_sorted_iff\<close>)
  have "decode_live E now False x = cell_row E now (cells E s) (fst x)"
    if "x \<in> set ?ps" for x
  proof -
    obtain k v m where x: "x = (k, v, m)" by (cases x) auto
    then have "view (badger E) (db s) k = Some (v, m)"
      using that ordered_map_of_set [OF ord] by (auto simp: view_def)
    then have "cells E s k = Some (cell_of (store E) (v, m))"
      by (simp add: cells_def txn_cells_def)
    then show ?thesis
      by (cases "DecodeKey (uuid E) k") (simp_all add: x decode_live_def cell_row_def)
  qed
  then have "List.map_filter (decode_live E now False) ?ps = List.map_filter (cell_row E now (cells E s)) (map fst ?ps)"
    unfolding map_filter_map_fun by (intro map_filter_cong_set) simp
  then show ?thesis
    by (simp add: area_rows_def list)
qed

lemma visited_keys: "\<forall>r \<in> set (visited E now ho xs). rec_Key r \<noteq> None \<and> rec_Head r \<noteq> None"
proof -
  have "rec_Key r \<noteq> None \<and> rec_Head r \<noteq> None" if "visit E now ho x = Inr (Some r)" for x r
    using that by (auto simp: visit_def FetchRecord_def RecordNotFound_def RecordHead_def RecordValue_def
        Let_def split_beta split: sum.splits if_splits)
  then show ?thesis
    by (auto simp: visited_def List.map_filter_def split: sum.splits)
qed

text \<open>A scan into the buffer gives the live rows of the area.\<close>

lemma collect_area:
  assumes "runtime_ok E" "badger_up (badger E)" "keys_wf E s"
    and "kr_Key q = Some k" "\<not> kr_HeadOnly q" "EncodeKeyPrefix (uuid E) k f = Inr p"
  obtains recs where "GetArea E now s q f collectSender_Send [] = (None, recs)"
    "map row_of recs = area_rows E now (cells E s) p"
    "\<forall>r \<in> set recs. rec_Key r \<noteq> None \<and> rec_Head r \<noteq> None"
proof -
  let ?it = "iterate (badger E) (db s) False p p"
  note rows = iterate_rows [OF assms(1-3), of now False False p p]
  have "fst (area_loop E now False collectSender_Send [] [] ?it) = None"
    by (rule area_loop_never_fails) (use rows in \<open>simp_all add: collectSender_Send_def\<close>)
  then obtain recs where loop: "area_loop E now False collectSender_Send [] [] ?it = (None, recs)"
    by (metis prod.collapse)
  then have recs: "recs = visited E now False ?it"
    using collector.area_loop_delivers [OF loop] rows by simp
  have "map row_of recs = area_rows E now (cells E s) p"
    using rows contents_rows [OF assms(1)] recs
      forward_scan [OF badger_okD(1) [OF runtime_okD(1) [OF assms(1)]]] by simp
  moreover have "GetArea E now s q f collectSender_Send [] = (None, recs)"
    using assms(4-6) loop by (simp add: GetArea_def)
  ultimately show thesis
    using that visited_keys recs by blast
qed

subsection \<open>The compiled policy\<close>

definition iam_prefix :: bytes where
  "iam_prefix = field_bytes (bytes_of SystemTenant) @ field_bytes (bytes_of IamRegion)"

definition absorb_row :: "'v iam_value_api \<Rightarrow> Snapshot \<Rightarrow> Key \<times> u64 \<times> u64 \<times> i32 \<times> bytes \<Rightarrow> Snapshot" where
  "absorb_row A snap row = (case row of (k, _, _, _, v) \<Rightarrow>
     if v = [] then snap else absorb A (string_of (MinorKey k)) v snap)"

definition compiled :: "'db runtime \<Rightarrow> 'v iam_value_api \<Rightarrow> time \<Rightarrow> (bytes \<rightharpoonup> cell) \<Rightarrow> Snapshot" where
  "compiled E A now cs = foldl (absorb_row A) NewSnapshot (area_rows E now cs iam_prefix)"

lemma absorb_record_row:
  assumes "rec_Key r \<noteq> None" "rec_Head r \<noteq> None"
  shows "absorb_record A snap r = absorb_row A snap (row_of r)"
  using assms by (auto simp: absorb_record_def absorb_row_def row_of_def summary_def)

lemma absorb_records_rows:
  "\<forall>r \<in> set recs. rec_Key r \<noteq> None \<and> rec_Head r \<noteq> None \<Longrightarrow>
   foldl (absorb_record A) snap recs = foldl (absorb_row A) snap (map row_of recs)"
  by (induction recs arbitrary: snap) (simp_all add: absorb_record_row)

lemma rebuild_compiled:
  assumes "runtime_ok E" "badger_up (badger E)" "keys_wf E s"
  shows "rebuild E A now s t = (None, t\<lparr>ps_snap := Some (compiled E A now (cells E s))\<rparr>)"
proof -
  obtain recs where "GetArea E now s \<lparr>kr_Key = Some iam_area, kr_HeadOnly = False, kr_Timeout = 0\<rparr>
      RegionNameField collectSender_Send [] = (None, recs)"
    "map row_of recs = area_rows E now (cells E s) iam_prefix"
    "\<forall>r \<in> set recs. rec_Key r \<noteq> None \<and> rec_Head r \<noteq> None"
    by (rule collect_area [OF assms, where q = "\<lparr>kr_Key = Some iam_area, kr_HeadOnly = False, kr_Timeout = 0\<rparr>"
          and k = iam_area and f = RegionNameField and p = iam_prefix])
       (simp_all add: EncodeKeyPrefix_layout iam_area_def iam_prefix_def)
  then show ?thesis
    by (simp add: rebuild_def compiled_def absorb_records_rows)
qed

lemma compiled_cong:
  assumes "\<And>b. prefix iam_prefix b \<Longrightarrow> cs b = cs' b"
  shows "compiled E A now cs = compiled E A now cs'"
  unfolding compiled_def using area_rows_cong [of iam_prefix cs cs' E now] assms by simp

text \<open>The decision of an enabled service with an up-to-date snapshot.\<close>

definition current :: "'db runtime \<Rightarrow> 'v iam_value_api \<Rightarrow> time \<Rightarrow> (bytes \<rightharpoonup> cell) \<Rightarrow> PolicyService \<Rightarrow> bool" where
  "current E A now cs t \<longleftrightarrow> ps_dirty t \<or> ps_snap t = Some (compiled E A now cs)"

lemma Authorize_current:
  assumes "runtime_ok E" "badger_up (badger E)" "keys_wf E s" "ps_Enabled t" "current E A now (cells E s) t"
  shows "Authorize E A now s (Some t) princ perm tenant region =
    ((if allowed (compiled E A now (cells E s)) princ (EffectivePermission perm tenant) tenant region then None
      else Some (PermissionDenied princ (EffectivePermission perm tenant) tenant region)),
     Some (t\<lparr>ps_dirty := False, ps_snap := Some (compiled E A now (cells E s))\<rparr>))"
proof (cases "ps_dirty t")
  case True
  then show ?thesis
    using assms(4) by (simp add: Authorize_def rebuild_compiled [OF assms(1-3)] Snapshot_Authorize_allowed Let_def)
next
  case False
  then have "t\<lparr>ps_dirty := False, ps_snap := Some (compiled E A now (cells E s))\<rparr> = t"
    using assms(5) by (cases t) (simp add: current_def)
  with False show ?thesis
    using assms(4,5) by (simp add: Authorize_def current_def Snapshot_Authorize_allowed Let_def)
qed

subsection \<open>Records read by the authenticator\<close>

definition live_value :: "'db runtime \<Rightarrow> time \<Rightarrow> (bytes \<rightharpoonup> cell) \<Rightarrow> string \<Rightarrow> bytes option" where
  "live_value E now cs minor = (case live E now (cs (entry_key (uuid E) (iam_Key minor))) of
     Some c \<Rightarrow> if c_value c = [] then None else Some (c_value c) | None \<Rightarrow> None)"

lemma load_live:
  assumes "runtime_ok E" "badger_up (badger E)"
  shows "load E A now s minor kind
    = (case live_value E now (cells E s) minor of None \<Rightarrow> None | Some v \<Rightarrow> decoded A v kind)"
proof -
  let ?q = "\<lparr>kr_Key = Some (iam_Key minor), kr_HeadOnly = False, kr_Timeout = 0\<rparr>"
  obtain r where r: "Get E now s ?q = Inr r"
    "summary r = map_option (answer False) (live E now (cells E s (entry_key (uuid E) (iam_Key minor))))"
    using Get_cells [OF assms(1) _ readable_up [OF assms(2)], of ?q "iam_Key minor" now s] by auto
  show ?thesis
  proof (cases "live E now (cells E s (entry_key (uuid E) (iam_Key minor)))")
    case None
    with r(2) have "rec_Head r = None"
      by (simp add: summary_def)
    then have "rec_Value r = []"
      using r(1) by (auto simp: Get_def FetchRecord_def RecordNotFound_def RecordHead_def RecordValue_def Let_def
          split_beta split: sum.splits if_splits)
    with r(1) None show ?thesis
      by (simp add: load_def live_value_def)
  next
    case (Some c)
    with r(2) have "rec_Value r = c_value c"
      by (auto simp: summary_def answer_def)
    with r(1) Some show ?thesis
      by (simp add: load_def live_value_def)
  qed
qed

subsection \<open>Guards\<close>

lemma guardKey_denied:
  assumes "authorize (fst st) princ perm (fst (scopeOf (keyOf req))) (snd (scopeOf (keyOf req))) = (Some err, pol)"
  shows "guardKey authorize perm keyOf fn princ st req = (Inl err, pol, snd st)"
  using assms by (simp add: guardKey_def split_beta)

lemma guardKey_allowed:
  assumes "authorize (fst st) princ perm (fst (scopeOf (keyOf req))) (snd (scopeOf (keyOf req))) = (None, pol)"
  shows "guardKey authorize perm keyOf fn princ st req = (fst (fn (snd st) req), pol, snd (fn (snd st) req))"
  using assms by (simp add: guardKey_def split_beta)

lemma batchScope_uniform:
  "batchScope q = Some sc \<Longrightarrow> r \<in> set (Records q) \<Longrightarrow> scopeOf (rr_Key r) = sc"
  by (cases "Records q") (auto simp: batchScope_def list_ex_iff Let_def split: if_splits)

end
