(* ===== verification/Wire.thy ===== *)
theory Wire
  imports Pb
begin

text \<open>
  The value-rpc codecs of the data plane (pkg/server/vrpc_data.go) and of the admin stream
  (pkg/server/admin.go): each request and reply struct to and from a map of named fields. The value
  package is a parameter with the constructors and accessors the codecs call; a decoder gives
  back what was encoded, except that the Timeout hints do not travel and an absent key arrives as
  an empty one.
\<close>

section \<open>The value package\<close>

record 'w wire_api =
  EmptyMap :: 'w
  map_Put :: "'w \<Rightarrow> string \<Rightarrow> 'w \<Rightarrow> 'w"
  mk_Raw :: "bytes \<Rightarrow> 'w"
  mk_Long :: "i64 \<Rightarrow> 'w"
  mk_Boolean :: "bool \<Rightarrow> 'w"
  EmptyList :: 'w
  list_Append :: "'w \<Rightarrow> 'w \<Rightarrow> 'w"
  is_Map :: "'w \<Rightarrow> bool"
  is_List :: "'w \<Rightarrow> bool"
  get_Raw :: "'w \<Rightarrow> string \<Rightarrow> bytes"
  get_Long :: "'w \<Rightarrow> string \<Rightarrow> i64"
  get_Boolean :: "'w \<Rightarrow> string \<Rightarrow> bool"
  GetMap :: "'w \<Rightarrow> string \<Rightarrow> 'w option"
  GetList :: "'w \<Rightarrow> string \<Rightarrow> 'w option"
  list_Len :: "'w \<Rightarrow> nat"
  GetMapAt :: "'w \<Rightarrow> nat \<Rightarrow> 'w option"

text \<open>What is relied on: a map answers a field with what was last put under it, at the type it was put
  with, an absent field with the zero value; a list keeps what is appended in order.\<close>

definition wire_ok :: "'w wire_api \<Rightarrow> bool" where
  "wire_ok W \<longleftrightarrow>
     is_Map W (EmptyMap W) \<and> (\<forall>m k v. is_Map W m \<longrightarrow> is_Map W (map_Put W m k v))
     \<and> (\<forall>k. get_Raw W (EmptyMap W) k = [] \<and> get_Long W (EmptyMap W) k = 0 \<and> \<not> get_Boolean W (EmptyMap W) k)
     \<and> (\<forall>m k v k'. is_Map W m \<longrightarrow> k' \<noteq> k \<longrightarrow>
          get_Raw W (map_Put W m k v) k' = get_Raw W m k' \<and> get_Long W (map_Put W m k v) k' = get_Long W m k'
          \<and> get_Boolean W (map_Put W m k v) k' = get_Boolean W m k' \<and> GetMap W (map_Put W m k v) k' = GetMap W m k'
          \<and> GetList W (map_Put W m k v) k' = GetList W m k')
     \<and> (\<forall>m k. is_Map W m \<longrightarrow>
          (\<forall>b. get_Raw W (map_Put W m k (mk_Raw W b)) k = b) \<and> (\<forall>n. get_Long W (map_Put W m k (mk_Long W n)) k = n)
          \<and> (\<forall>b. get_Boolean W (map_Put W m k (mk_Boolean W b)) k = b)
          \<and> (\<forall>v. is_Map W v \<longrightarrow> GetMap W (map_Put W m k v) k = Some v)
          \<and> (\<forall>v. is_List W v \<longrightarrow> GetList W (map_Put W m k v) k = Some v))
     \<and> is_List W (EmptyList W) \<and> list_Len W (EmptyList W) = 0
     \<and> (\<forall>l v. is_List W l \<longrightarrow> is_List W (list_Append W l v) \<and> list_Len W (list_Append W l v) = Suc (list_Len W l)
          \<and> (is_Map W v \<longrightarrow> GetMapAt W (list_Append W l v) (list_Len W l) = Some v)
          \<and> (\<forall>i < list_Len W l. GetMapAt W (list_Append W l v) i = GetMapAt W l i))"

section \<open>Keys\<close>

definition encodeKey :: "'w wire_api \<Rightarrow> Key option \<Rightarrow> 'w" where
  "encodeKey W key =
     (case key of
        None \<Rightarrow> EmptyMap W
      | Some k \<Rightarrow>
          let m = map_Put W (map_Put W (map_Put W (EmptyMap W)
                    ''major'' (mk_Raw W (MajorKey k))) ''region'' (mk_Raw W (RegionName k)))
                    ''minor'' (mk_Raw W (MinorKey k)) in
          case Timestamp k of
            Some ts \<Rightarrow> map_Put W (map_Put W (map_Put W m
                ''ts_most'' (mk_Long W (MostSigBits ts))) ''ts_least'' (mk_Long W (LeastSigBits ts)))
                ''ts'' (mk_Boolean W True)
          | None \<Rightarrow> m)"

definition decodeKey :: "'w wire_api \<Rightarrow> 'w option \<Rightarrow> Key option" where
  "decodeKey W mm =
     (case mm of
        None \<Rightarrow> None
      | Some m \<Rightarrow> Some
          \<lparr>MajorKey = get_Raw W m ''major'', RegionName = get_Raw W m ''region'', MinorKey = get_Raw W m ''minor'',
           Timestamp = (if get_Boolean W m ''ts''
             then Some \<lparr>MostSigBits = get_Long W m ''ts_most'', LeastSigBits = get_Long W m ''ts_least''\<rparr>
             else None)\<rparr>)"

definition asMap :: "'w wire_api \<Rightarrow> 'w \<Rightarrow> string \<Rightarrow> 'w result" where
  "asMap W v what = (if is_Map W v then Inr v else Inl (Msg (what @ '': expected a map'')))"

section \<open>Requests and replies\<close>

text \<open>A nil struct pointer encodes as the zero struct; the encoders below take the struct.\<close>

definition keyRequest_Encode :: "'w wire_api \<Rightarrow> KeyRequest \<Rightarrow> 'w" where
  "keyRequest_Encode W r =
     map_Put W (map_Put W (EmptyMap W) ''key'' (encodeKey W (kr_Key r)))
       ''head_only'' (mk_Boolean W (kr_HeadOnly r))"

definition keyRequest_Decode :: "'w wire_api \<Rightarrow> 'w \<Rightarrow> KeyRequest result" where
  "keyRequest_Decode W v = bindE (asMap W v ''key request'') (\<lambda>m.
     Inr \<lparr>kr_Key = decodeKey W (GetMap W m ''key''), kr_HeadOnly = get_Boolean W m ''head_only'', kr_Timeout = 0\<rparr>)"

definition recordRequest_Encode :: "'w wire_api \<Rightarrow> RecordRequest \<Rightarrow> 'w" where
  "recordRequest_Encode W r =
     map_Put W (map_Put W (map_Put W (map_Put W (map_Put W (map_Put W (map_Put W (EmptyMap W)
       ''key'' (encodeKey W (rr_Key r))) ''value'' (mk_Raw W (rr_Value r)))
       ''metadata'' (mk_Long W (scast (rr_Metadata r)))) ''ttl'' (mk_Long W (rr_TtlSeconds r)))
       ''cas'' (mk_Boolean W (rr_CompareAndSet r))) ''version'' (mk_Long W (rr_Version r)))
       ''expires_at'' (mk_Long W (rr_ExpiresAt r))"

definition recordRequest_Decode :: "'w wire_api \<Rightarrow> 'w \<Rightarrow> RecordRequest result" where
  "recordRequest_Decode W v = bindE (asMap W v ''record request'') (\<lambda>m.
     Inr \<lparr>rr_Key = decodeKey W (GetMap W m ''key''), rr_Value = get_Raw W m ''value'',
          rr_Metadata = ucast (get_Long W m ''metadata''), rr_TtlSeconds = get_Long W m ''ttl'',
          rr_CompareAndSet = get_Boolean W m ''cas'', rr_Version = get_Long W m ''version'', rr_Timeout = 0,
          rr_ExpiresAt = get_Long W m ''expires_at''\<rparr>)"

definition record_Encode :: "'w wire_api \<Rightarrow> Record \<Rightarrow> 'w" where
  "record_Encode W r =
     (let m = map_Put W (map_Put W (map_Put W (EmptyMap W)
                ''key'' (encodeKey W (rec_Key r))) ''value'' (mk_Raw W (rec_Value r)))
                ''found'' (mk_Boolean W (rec_Head r \<noteq> None)) in
      case rec_Head r of
        None \<Rightarrow> m
      | Some h \<Rightarrow>
          map_Put W (map_Put W (map_Put W (map_Put W m
            ''version'' (mk_Long W (hd_Version h))) ''expires_at'' (mk_Long W (hd_ExpiresAt h)))
            ''disk_size'' (mk_Long W (hd_DiskSize h))) ''metadata'' (mk_Long W (scast (hd_Metadata h))))"

definition record_Decode :: "'w wire_api \<Rightarrow> 'w \<Rightarrow> Record result" where
  "record_Decode W v = bindE (asMap W v ''record'') (\<lambda>m.
     Inr \<lparr>rec_Key = decodeKey W (GetMap W m ''key''),
          rec_Head = (if get_Boolean W m ''found''
            then Some \<lparr>hd_Version = get_Long W m ''version'', hd_ExpiresAt = get_Long W m ''expires_at'',
                       hd_DiskSize = get_Long W m ''disk_size'', hd_Metadata = ucast (get_Long W m ''metadata'')\<rparr>
            else None),
          rec_Value = get_Raw W m ''value''\<rparr>)"

definition status_Encode :: "'w wire_api \<Rightarrow> Status \<Rightarrow> 'w" where
  "status_Encode W s = map_Put W (EmptyMap W) ''updated'' (mk_Boolean W (Updated s))"

definition status_Decode :: "'w wire_api \<Rightarrow> 'w \<Rightarrow> Status result" where
  "status_Decode W v = bindE (asMap W v ''status'') (\<lambda>m. Inr \<lparr>Updated = get_Boolean W m ''updated''\<rparr>)"

definition incrementRequest_Encode :: "'w wire_api \<Rightarrow> IncrementRequest \<Rightarrow> 'w" where
  "incrementRequest_Encode W r =
     map_Put W (map_Put W (map_Put W (map_Put W (map_Put W (EmptyMap W)
       ''key'' (encodeKey W (ir_Key r))) ''initial'' (mk_Long W (ir_Initial r)))
       ''delta'' (mk_Long W (ir_Delta r))) ''ttl'' (mk_Long W (ir_TtlSeconds r)))
       ''expires_at'' (mk_Long W (ir_ExpiresAt r))"

definition incrementRequest_Decode :: "'w wire_api \<Rightarrow> 'w \<Rightarrow> IncrementRequest result" where
  "incrementRequest_Decode W v = bindE (asMap W v ''increment request'') (\<lambda>m.
     Inr \<lparr>ir_Key = decodeKey W (GetMap W m ''key''), ir_Initial = get_Long W m ''initial'',
          ir_Delta = get_Long W m ''delta'', ir_TtlSeconds = get_Long W m ''ttl'', ir_Timeout = 0,
          ir_ExpiresAt = get_Long W m ''expires_at''\<rparr>)"

definition incrementResponse_Encode :: "'w wire_api \<Rightarrow> IncrementResponse \<Rightarrow> 'w" where
  "incrementResponse_Encode W r =
     map_Put W (map_Put W (map_Put W (EmptyMap W) ''previous'' (mk_Long W (Previous r)))
       ''current'' (mk_Long W (Current r))) ''version'' (mk_Long W (ir_Version r))"

definition incrementResponse_Decode :: "'w wire_api \<Rightarrow> 'w \<Rightarrow> IncrementResponse result" where
  "incrementResponse_Decode W v = bindE (asMap W v ''increment response'') (\<lambda>m.
     Inr \<lparr>Previous = get_Long W m ''previous'', Current = get_Long W m ''current'', ir_Version = get_Long W m ''version''\<rparr>)"

definition watchRequest_Encode :: "'w wire_api \<Rightarrow> WatchRequest \<Rightarrow> 'w" where
  "watchRequest_Encode W r = map_Put W (EmptyMap W) ''prefix'' (encodeKey W (wr_Prefix r))"

definition watchRequest_Decode :: "'w wire_api \<Rightarrow> 'w \<Rightarrow> WatchRequest result" where
  "watchRequest_Decode W v = bindE (asMap W v ''watch request'') (\<lambda>m.
     Inr \<lparr>wr_Prefix = decodeKey W (GetMap W m ''prefix''), wr_Timeout = 0\<rparr>)"

text \<open>\<open>int64(e.Type)\<close> and \<open>pb.ChangeType(n)\<close>.\<close>

definition change_code :: "ChangeType \<Rightarrow> i64" where
  "change_code c = (case c of WATCH_SET \<Rightarrow> 0 | WATCH_DELETE \<Rightarrow> 1 | OtherChange n \<Rightarrow> scast n)"

definition change_of :: "i64 \<Rightarrow> ChangeType" where
  "change_of n = (let c = ucast n :: i32 in
     if c = 0 then WATCH_SET else if c = 1 then WATCH_DELETE else OtherChange c)"

definition watchEvent_Encode :: "'w wire_api \<Rightarrow> WatchEvent \<Rightarrow> 'w" where
  "watchEvent_Encode W e =
     map_Put W (map_Put W (map_Put W (map_Put W (EmptyMap W) ''key'' (encodeKey W (we_Key e)))
       ''value'' (mk_Raw W (we_Value e))) ''version'' (mk_Long W (we_Version e)))
       ''type'' (mk_Long W (change_code (we_Type e)))"

definition watchEvent_Decode :: "'w wire_api \<Rightarrow> 'w \<Rightarrow> WatchEvent result" where
  "watchEvent_Decode W v = bindE (asMap W v ''watch event'') (\<lambda>m.
     Inr \<lparr>we_Key = decodeKey W (GetMap W m ''key''), we_Value = get_Raw W m ''value'',
          we_Version = get_Long W m ''version'', we_Type = change_of (get_Long W m ''type'')\<rparr>)"

definition enumerateRequest_Encode :: "'w wire_api \<Rightarrow> EnumerateRequest \<Rightarrow> 'w" where
  "enumerateRequest_Encode W r =
     map_Put W (map_Put W (map_Put W (EmptyMap W) ''prefix'' (encodeKey W (er_Prefix r)))
       ''ordered'' (mk_Boolean W (er_Ordered r))) ''reverse'' (mk_Boolean W (er_Reverse r))"

definition enumerateRequest_Decode :: "'w wire_api \<Rightarrow> 'w \<Rightarrow> EnumerateRequest result" where
  "enumerateRequest_Decode W v = bindE (asMap W v ''enumerate request'') (\<lambda>m.
     Inr \<lparr>er_Prefix = decodeKey W (GetMap W m ''prefix''), er_Ordered = get_Boolean W m ''ordered'',
          er_Reverse = get_Boolean W m ''reverse'', er_Timeout = 0\<rparr>)"

definition batchRequest_Encode :: "'w wire_api \<Rightarrow> BatchRequest \<Rightarrow> 'w" where
  "batchRequest_Encode W r =
     (let list = foldl (\<lambda>list rec. list_Append W list (recordRequest_Encode W rec)) (EmptyList W) (Records r)
      in map_Put W (EmptyMap W) ''records'' list)"

fun decode_records :: "'w wire_api \<Rightarrow> 'w \<Rightarrow> nat list \<Rightarrow> RecordRequest list \<Rightarrow> RecordRequest list result" where
  "decode_records W list [] acc = Inr acc"
| "decode_records W list (i # is) acc =
     (case (case GetMapAt W list i of Some m \<Rightarrow> recordRequest_Decode W m
            | None \<Rightarrow> Inl (Msg ''record request: expected a map'')) of
        Inl e \<Rightarrow> Inl e
      | Inr rec \<Rightarrow> decode_records W list is (acc @ [rec]))"

definition batchRequest_Decode :: "'w wire_api \<Rightarrow> 'w \<Rightarrow> BatchRequest result" where
  "batchRequest_Decode W v = bindE (asMap W v ''batch request'') (\<lambda>m.
     case GetList W m ''records'' of
       None \<Rightarrow> Inr \<lparr>Records = [], br_Timeout = 0\<rparr>
     | Some list \<Rightarrow> bindE (decode_records W list [0..<list_Len W list] [])
         (\<lambda>rs. Inr \<lparr>Records = rs, br_Timeout = 0\<rparr>))"

section \<open>The backup stream\<close>

record backupFrame =
  bf_Data :: bytes
  bf_Version :: u64
  bf_Done :: bool

definition backupRequest_Encode :: "'w wire_api \<Rightarrow> u64 \<Rightarrow> 'w" where
  "backupRequest_Encode W since = map_Put W (EmptyMap W) ''since'' (mk_Long W since)"

definition backupRequest_Decode :: "'w wire_api \<Rightarrow> 'w \<Rightarrow> u64 result" where
  "backupRequest_Decode W v = (if is_Map W v then Inr (get_Long W v ''since'') else Inr 0)"

definition backupFrame_Encode :: "'w wire_api \<Rightarrow> backupFrame \<Rightarrow> 'w" where
  "backupFrame_Encode W f =
     (let m = map_Put W (EmptyMap W) ''done'' (mk_Boolean W (bf_Done f)) in
      if bf_Done f then map_Put W m ''version'' (mk_Long W (bf_Version f))
      else map_Put W m ''data'' (mk_Raw W (bf_Data f)))"

definition backupFrame_Decode :: "'w wire_api \<Rightarrow> 'w \<Rightarrow> backupFrame result" where
  "backupFrame_Decode W v =
     (if \<not> is_Map W v then Inl (Msg ''malformed backup frame'')
      else if get_Boolean W v ''done'' then Inr \<lparr>bf_Data = [], bf_Version = get_Long W v ''version'', bf_Done = True\<rparr>
      else Inr \<lparr>bf_Data = get_Raw W v ''data'', bf_Version = 0, bf_Done = False\<rparr>)"

section \<open>Facts\<close>

named_theorems wire_defs \<open>the codecs\<close>

declare keyRequest_Encode_def [wire_defs] keyRequest_Decode_def [wire_defs] recordRequest_Encode_def [wire_defs]
  recordRequest_Decode_def [wire_defs] record_Encode_def [wire_defs] record_Decode_def [wire_defs]
  status_Encode_def [wire_defs] status_Decode_def [wire_defs] incrementRequest_Encode_def [wire_defs]
  incrementRequest_Decode_def [wire_defs] incrementResponse_Encode_def [wire_defs]
  incrementResponse_Decode_def [wire_defs] watchRequest_Encode_def [wire_defs] watchRequest_Decode_def [wire_defs]
  watchEvent_Encode_def [wire_defs] watchEvent_Decode_def [wire_defs] enumerateRequest_Encode_def [wire_defs]
  enumerateRequest_Decode_def [wire_defs] backupRequest_Encode_def [wire_defs] backupRequest_Decode_def [wire_defs]
  backupFrame_Encode_def [wire_defs] backupFrame_Decode_def [wire_defs] asMap_def [wire_defs]

lemma wire_maps:
  assumes "wire_ok W"
  shows "is_Map W (EmptyMap W)" "is_Map W m \<Longrightarrow> is_Map W (map_Put W m k v)"
    "get_Raw W (EmptyMap W) k = []" "get_Long W (EmptyMap W) k = 0" "get_Boolean W (EmptyMap W) k = False"
    "is_Map W m \<Longrightarrow> k' \<noteq> k \<Longrightarrow> get_Raw W (map_Put W m k v) k' = get_Raw W m k'"
    "is_Map W m \<Longrightarrow> k' \<noteq> k \<Longrightarrow> get_Long W (map_Put W m k v) k' = get_Long W m k'"
    "is_Map W m \<Longrightarrow> k' \<noteq> k \<Longrightarrow> get_Boolean W (map_Put W m k v) k' = get_Boolean W m k'"
    "is_Map W m \<Longrightarrow> k' \<noteq> k \<Longrightarrow> GetMap W (map_Put W m k v) k' = GetMap W m k'"
    "is_Map W m \<Longrightarrow> k' \<noteq> k \<Longrightarrow> GetList W (map_Put W m k v) k' = GetList W m k'"
    "is_Map W m \<Longrightarrow> get_Raw W (map_Put W m k (mk_Raw W b)) k = b"
    "is_Map W m \<Longrightarrow> get_Long W (map_Put W m k (mk_Long W n)) k = n"
    "is_Map W m \<Longrightarrow> get_Boolean W (map_Put W m k (mk_Boolean W t)) k = t"
    "is_Map W m \<Longrightarrow> is_Map W v \<Longrightarrow> GetMap W (map_Put W m k v) k = Some v"
    "is_Map W m \<Longrightarrow> is_List W v \<Longrightarrow> GetList W (map_Put W m k v) k = Some v"
  using assms by (simp_all add: wire_ok_def)

lemma wire_lists:
  assumes "wire_ok W"
  shows "is_List W (EmptyList W)" "list_Len W (EmptyList W) = 0"
    "is_List W l \<Longrightarrow> is_List W (list_Append W l v)"
    "is_List W l \<Longrightarrow> list_Len W (list_Append W l v) = Suc (list_Len W l)"
    "is_List W l \<Longrightarrow> is_Map W v \<Longrightarrow> GetMapAt W (list_Append W l v) (list_Len W l) = Some v"
    "is_List W l \<Longrightarrow> i < list_Len W l \<Longrightarrow> GetMapAt W (list_Append W l v) i = GetMapAt W l i"
  using assms by (simp_all add: wire_ok_def)

lemma i32_via_i64: "ucast (scast (w :: i32) :: i64) = w"
  by (rule bit_word_eqI) (simp add: bit_simps)

text \<open>A key as the other side sees it.\<close>

definition emptyKey :: Key where
  "emptyKey = \<lparr>MajorKey = [], RegionName = [], MinorKey = [], Timestamp = None\<rparr>"

definition wireKey :: "Key option \<Rightarrow> Key option" where
  "wireKey k = (case k of None \<Rightarrow> Some emptyKey | Some k \<Rightarrow> Some k)"

lemma encodeKey_map: "wire_ok W \<Longrightarrow> is_Map W (encodeKey W k)"
  by (simp add: encodeKey_def wire_maps Let_def split: option.split)

lemma decodeKey_encodeKey: "wire_ok W \<Longrightarrow> decodeKey W (Some (encodeKey W k)) = wireKey k"
  by (auto simp: encodeKey_def decodeKey_def wire_maps Let_def wireKey_def emptyKey_def split: option.split)

lemma change_round_trip: "c \<noteq> OtherChange 0 \<Longrightarrow> c \<noteq> OtherChange 1 \<Longrightarrow> change_of (change_code c) = c"
  by (cases c) (auto simp: change_of_def change_code_def i32_via_i64 Let_def)

lemmas wire_simps = wire_maps encodeKey_map decodeKey_encodeKey i32_via_i64

lemma request_round_trips:
  assumes "wire_ok W"
  shows "keyRequest_Decode W (keyRequest_Encode W q) = Inr (q\<lparr>kr_Key := wireKey (kr_Key q), kr_Timeout := 0\<rparr>)"
    and "recordRequest_Decode W (recordRequest_Encode W r) = Inr (r\<lparr>rr_Key := wireKey (rr_Key r), rr_Timeout := 0\<rparr>)"
    and "incrementRequest_Decode W (incrementRequest_Encode W i) = Inr (i\<lparr>ir_Key := wireKey (ir_Key i), ir_Timeout := 0\<rparr>)"
    and "watchRequest_Decode W (watchRequest_Encode W w) = Inr (w\<lparr>wr_Prefix := wireKey (wr_Prefix w), wr_Timeout := 0\<rparr>)"
    and "enumerateRequest_Decode W (enumerateRequest_Encode W e) = Inr (e\<lparr>er_Prefix := wireKey (er_Prefix e), er_Timeout := 0\<rparr>)"
    and "backupRequest_Decode W (backupRequest_Encode W since) = Inr since"
  by (simp_all add: wire_defs wire_simps assms)

lemma reply_round_trips:
  assumes "wire_ok W"
  shows "record_Decode W (record_Encode W r) = Inr (r\<lparr>rec_Key := wireKey (rec_Key r)\<rparr>)"
    and "status_Decode W (status_Encode W s) = Inr s"
    and "incrementResponse_Decode W (incrementResponse_Encode W i) = Inr i"
    and "we_Type e \<noteq> OtherChange 0 \<Longrightarrow> we_Type e \<noteq> OtherChange 1 \<Longrightarrow>
      watchEvent_Decode W (watchEvent_Encode W e) = Inr (e\<lparr>we_Key := wireKey (we_Key e)\<rparr>)"
  by (cases "rec_Head r"; simp add: wire_defs wire_simps assms change_round_trip)+

lemma recordRequest_map: "wire_ok W \<Longrightarrow> is_Map W (recordRequest_Encode W r)"
  by (simp add: wire_defs wire_maps)

lemma encoded_list:
  assumes "wire_ok W" "is_List W l"
  shows "is_List W (foldl (\<lambda>l r. list_Append W l (recordRequest_Encode W r)) l rs)
    \<and> list_Len W (foldl (\<lambda>l r. list_Append W l (recordRequest_Encode W r)) l rs) = list_Len W l + length rs
    \<and> (\<forall>i < list_Len W l. GetMapAt W (foldl (\<lambda>l r. list_Append W l (recordRequest_Encode W r)) l rs) i = GetMapAt W l i)
    \<and> (\<forall>i < length rs. GetMapAt W (foldl (\<lambda>l r. list_Append W l (recordRequest_Encode W r)) l rs) (list_Len W l + i)
        = Some (recordRequest_Encode W (rs ! i)))"
  using assms(2)
proof (induction rs arbitrary: l)
  case (Cons r rs)
  let ?l = "list_Append W l (recordRequest_Encode W r)"
  note l = wire_lists [OF assms(1)]
  have IH: "is_List W ?l"
    using Cons.prems l(3) by blast
  note IH = Cons.IH [OF this]
  have "GetMapAt W (foldl (\<lambda>l r. list_Append W l (recordRequest_Encode W r)) ?l rs) (list_Len W l + i)
      = Some (recordRequest_Encode W ((r # rs) ! i))" if "i < length (r # rs)" for i
  proof (cases i)
    case 0
    then show ?thesis
      using IH l(4,5) [OF Cons.prems] recordRequest_map [OF assms(1)] by simp
  next
    case (Suc j)
    then show ?thesis
      using IH l(4) [OF Cons.prems] that by simp
  qed
  then show ?case
    using IH l(4,6) [OF Cons.prems] by simp
qed simp

lemma decode_records_encoded:
  assumes "wire_ok W" "\<And>i. i \<in> set is \<Longrightarrow> GetMapAt W l i = Some (recordRequest_Encode W (f i))"
  shows "decode_records W l is acc
    = Inr (acc @ map (\<lambda>i. (f i)\<lparr>rr_Key := wireKey (rr_Key (f i)), rr_Timeout := 0\<rparr>) is)"
  using assms(2) by (induction "is" arbitrary: acc) (simp_all add: request_round_trips(2) [OF assms(1)])

lemma batch_round_trip:
  assumes "wire_ok W"
  shows "batchRequest_Decode W (batchRequest_Encode W b)
    = Inr \<lparr>Records = map (\<lambda>r. r\<lparr>rr_Key := wireKey (rr_Key r), rr_Timeout := 0\<rparr>) (Records b), br_Timeout = 0\<rparr>"
proof -
  let ?l = "foldl (\<lambda>l r. list_Append W l (recordRequest_Encode W r)) (EmptyList W) (Records b)"
  note enc = encoded_list [OF assms wire_lists(1) [OF assms], of "Records b", simplified wire_lists(2) [OF assms]]
  have "decode_records W ?l [0..<list_Len W ?l] []
      = Inr (map (\<lambda>i. (Records b ! i)\<lparr>rr_Key := wireKey (rr_Key (Records b ! i)), rr_Timeout := 0\<rparr>) [0..<list_Len W ?l])"
    using decode_records_encoded [OF assms, of "[0..<list_Len W ?l]" ?l "(!) (Records b)" "[]"] enc by simp
  also have "map (\<lambda>i. (Records b ! i)\<lparr>rr_Key := wireKey (rr_Key (Records b ! i)), rr_Timeout := 0\<rparr>) [0..<list_Len W ?l]
      = map (\<lambda>r. r\<lparr>rr_Key := wireKey (rr_Key r), rr_Timeout := 0\<rparr>) (Records b)"
    using enc by (intro nth_equalityI) simp_all
  finally show ?thesis
    using enc by (simp add: batchRequest_Decode_def batchRequest_Encode_def asMap_def Let_def wire_maps assms)
qed

end
