(* ===== verification/Data_Plane.thy ===== *)
theory Data_Plane
  imports Access Wire Service "HOL-Library.Multiset"
begin

text \<open>
  The value-rpc data plane of pkg/server/vrpc_data.go: the guarded unary handlers over the key-value
  service, the enumerate and watch streams, and the backup and restore streams of
  pkg/server/admin.go. A handler acts on the policy service and the node; a stream is the list of
  what its receiver gets before it ends.
\<close>

section \<open>Unary handlers\<close>

definition NotLeaderPrefix :: string where "NotLeaderPrefix = ''not-leader:''"

definition redirectable :: "'resp result \<times> 't \<Rightarrow> 'resp result \<times> 't" where
  "redirectable p =
     (case fst p of
        Inl err \<Rightarrow> (case AsNotLeader err of
            Some (_, _, endpoint) \<Rightarrow> (Inl (Unavailable (NotLeaderPrefix @ endpoint)), snd p)
          | None \<Rightarrow> p)
      | Inr _ \<Rightarrow> p)"

type_synonym 'db node = "PolicyService option \<times> 'db FSM"

definition kv_get :: "'db runtime \<Rightarrow> 'w iam_value_api \<Rightarrow> time \<Rightarrow> string \<Rightarrow> 'db node \<Rightarrow> KeyRequest
    \<Rightarrow> Record result \<times> 'db node" where
  "kv_get E A now princ st =
     guardKey (Authorize E A now (fsm_Storage (snd st))) PermRecordsGet kr_Key
       (\<lambda>t q. (Service_Get E now t q, t)) princ st"

definition kv_getrecent :: "'db runtime \<Rightarrow> 'w iam_value_api \<Rightarrow> time \<Rightarrow> string \<Rightarrow> 'db node \<Rightarrow> KeyRequest
    \<Rightarrow> Record result \<times> 'db node" where
  "kv_getrecent E A now princ st =
     guardKey (Authorize E A now (fsm_Storage (snd st))) PermRecordsGet kr_Key
       (\<lambda>t q. (Service_GetRecent E now t q, t)) princ st"

definition kv_put :: "'db runtime \<Rightarrow> 'w iam_value_api \<Rightarrow> 'v value_api \<Rightarrow> time \<Rightarrow> raft_node option \<Rightarrow> commit \<Rightarrow> string
    \<Rightarrow> 'db node \<Rightarrow> RecordRequest \<Rightarrow> Status option result \<times> 'db node" where
  "kv_put E A V now rn commit princ st =
     guardKey (Authorize E A now (fsm_Storage (snd st))) PermRecordsPut rr_Key
       (\<lambda>t r. redirectable (Service_Put E V now rn commit t r)) princ st"

definition kv_touch :: "'db runtime \<Rightarrow> 'w iam_value_api \<Rightarrow> 'v value_api \<Rightarrow> time \<Rightarrow> raft_node option \<Rightarrow> commit \<Rightarrow> string
    \<Rightarrow> 'db node \<Rightarrow> RecordRequest \<Rightarrow> Status option result \<times> 'db node" where
  "kv_touch E A V now rn commit princ st =
     guardKey (Authorize E A now (fsm_Storage (snd st))) PermRecordsPut rr_Key
       (\<lambda>t r. redirectable (Service_Touch E V now rn commit t r)) princ st"

definition kv_remove :: "'db runtime \<Rightarrow> 'w iam_value_api \<Rightarrow> 'v value_api \<Rightarrow> time \<Rightarrow> raft_node option \<Rightarrow> commit \<Rightarrow> string
    \<Rightarrow> 'db node \<Rightarrow> KeyRequest \<Rightarrow> Status option result \<times> 'db node" where
  "kv_remove E A V now rn commit princ st =
     guardKey (Authorize E A now (fsm_Storage (snd st))) PermRecordsDelete kr_Key
       (\<lambda>t r. redirectable (Service_Remove E V now rn commit t r)) princ st"

definition kv_increment :: "'db runtime \<Rightarrow> 'w iam_value_api \<Rightarrow> 'v value_api \<Rightarrow> time \<Rightarrow> raft_node option \<Rightarrow> commit
    \<Rightarrow> string \<Rightarrow> 'db node \<Rightarrow> IncrementRequest \<Rightarrow> IncrementResponse option result \<times> 'db node" where
  "kv_increment E A V now rn commit princ st =
     guardKey (Authorize E A now (fsm_Storage (snd st))) PermRecordsIncrement ir_Key
       (\<lambda>t r. redirectable (Service_Increment E V now rn commit t r)) princ st"

definition guardedBatch :: "'db runtime \<Rightarrow> 'w iam_value_api \<Rightarrow> 'v value_api \<Rightarrow> time \<Rightarrow> raft_node option \<Rightarrow> commit
    \<Rightarrow> string \<Rightarrow> 'db node \<Rightarrow> BatchRequest \<Rightarrow> Status option result \<times> 'db node" where
  "guardedBatch E A V now rn commit princ st req =
     (case batchScope req of
        None \<Rightarrow> (Inl (InvalidArgument ''batch must target a single tenant and region''), st)
      | Some (tenant, region) \<Rightarrow>
          (case Authorize E A now (fsm_Storage (snd st)) (fst st) princ PermRecordsBatch tenant region of
             (Some err, pol) \<Rightarrow> (Inl err, pol, snd st)
           | (None, pol) \<Rightarrow>
               (let (res, t) = redirectable (Service_Batch E V now rn commit (snd st) req) in (res, pol, t))))"

section \<open>Enumerate\<close>

definition areaField :: "Key option \<Rightarrow> Field option" where
  "areaField key =
     (case key of
        None \<Rightarrow> None
      | Some k \<Rightarrow>
          if length (MinorKey k) > 0 then Some MinorKeyField
          else if length (RegionName k) > 0 then Some RegionNameField
          else if length (MajorKey k) > 0 then Some MajorKeyField
          else None)"

definition enumerate_scan :: "'db runtime \<Rightarrow> time \<Rightarrow> 'db KeyValueStorageCtx \<Rightarrow> EnumerateRequest \<Rightarrow> 's send \<Rightarrow> 's
    \<Rightarrow> go_error option \<times> 's" where
  "enumerate_scan E now s req send st =
     (case areaField (er_Prefix req) of
        Some field \<Rightarrow> GetArea E now s \<lparr>kr_Key = er_Prefix req, kr_HeadOnly = False, kr_Timeout = 0\<rparr> field send st
      | None \<Rightarrow> Scan E now s \<lparr>sr_HeadOnly = False\<rparr> send st)"

text \<open>\<open>less\<close> of the ordered stream; \<open>sort.Slice\<close> leaves the order of equal elements open, so the sorted
  sequence is what a sorting function \<open>srt\<close> makes of the buffer.\<close>

definition minor_of :: "Record \<Rightarrow> bytes" where
  "minor_of r = (case rec_Key r of Some k \<Rightarrow> MinorKey k | None \<Rightarrow> [])"

definition minor_less :: "bool \<Rightarrow> Record \<Rightarrow> Record \<Rightarrow> bool" where
  "minor_less reverse a b = (if reverse then minor_of b < minor_of a else minor_of a < minor_of b)"

definition Slice_sorts :: "((Record \<Rightarrow> Record \<Rightarrow> bool) \<Rightarrow> Record list \<Rightarrow> Record list) \<Rightarrow> bool" where
  "Slice_sorts srt \<longleftrightarrow> (\<forall>reverse xs. mset (srt (minor_less reverse) xs) = mset xs
     \<and> sorted_wrt (\<lambda>a b. \<not> minor_less reverse b a) (srt (minor_less reverse) xs))"

fun send_all :: "(nat \<Rightarrow> bool) \<Rightarrow> Record list \<Rightarrow> Record list \<Rightarrow> Record list" where
  "send_all stop out [] = out"
| "send_all stop out (rec # records) = (if stop (length out) then out else send_all stop (out @ [rec]) records)"

definition stream_records :: "'db runtime \<Rightarrow> time \<Rightarrow> ((Record \<Rightarrow> Record \<Rightarrow> bool) \<Rightarrow> Record list \<Rightarrow> Record list)
    \<Rightarrow> (nat \<Rightarrow> bool) \<Rightarrow> 'db KeyValueStorageCtx \<Rightarrow> EnumerateRequest \<Rightarrow> Record list" where
  "stream_records E now srt stop s req =
     (if \<not> er_Ordered req
      then snd (enumerate_scan E now s req (chanBlockSender_Send stop (Msg ''context canceled'')) [])
      else case enumerate_scan E now s req collectSender_Send [] of
        (Some e, _) \<Rightarrow> []
      | (None, records) \<Rightarrow> send_all stop [] (srt (minor_less (er_Reverse req)) records))"

definition kv_enumerate :: "'db runtime \<Rightarrow> 'w iam_value_api \<Rightarrow> time \<Rightarrow> ((Record \<Rightarrow> Record \<Rightarrow> bool) \<Rightarrow> Record list \<Rightarrow> Record list)
    \<Rightarrow> (nat \<Rightarrow> bool) \<Rightarrow> string \<Rightarrow> 'db node \<Rightarrow> EnumerateRequest \<Rightarrow> Record list result \<times> 'db node" where
  "kv_enumerate E A now srt stop princ st req =
     (let (tenant, region) = scopeOf (er_Prefix req) in
      case Authorize E A now (fsm_Storage (snd st)) (fst st) princ PermRecordsEnumerate tenant region of
        (Some err, pol) \<Rightarrow> (Inl err, pol, snd st)
      | (None, pol) \<Rightarrow> (Inr (stream_records E now srt stop (fsm_Storage (snd st)) req), pol, snd st))"

section \<open>Watch\<close>

text \<open>The hub hands a watcher the events whose key carries its prefix, in order (and may drop some):
  \<open>WatchRaw\<close> runs the callback on them until it answers False.\<close>

fun WatchRaw :: "bytes \<Rightarrow> (store_event \<Rightarrow> 'c \<Rightarrow> bool \<times> 'c) \<Rightarrow> store_event list \<Rightarrow> 'c \<Rightarrow> 'c" where
  "WatchRaw p cb [] c = c"
| "WatchRaw p cb (ev # evs) c =
     (if prefix p (ev_Key ev)
      then (case cb ev c of (True, c) \<Rightarrow> WatchRaw p cb evs c | (False, c) \<Rightarrow> c)
      else WatchRaw p cb evs c)"

definition watch_callback :: "uuid_api \<Rightarrow> (nat \<Rightarrow> bool) \<Rightarrow> store_event \<Rightarrow> WatchEvent list \<Rightarrow> bool \<times> WatchEvent list" where
  "watch_callback U stop ev out =
     (case DecodeKey U (ev_Key ev) of
        Inl _ \<Rightarrow> (True, out)
      | Inr key \<Rightarrow>
          let changeType = (if ev_Type ev = WATCH_DELETE then WATCH_DELETE else WATCH_SET) in
          if stop (length out) then (False, out)
          else (True, out @ [\<lparr>we_Key = Some key, we_Value = ev_Value ev, we_Version = ev_Version ev,
                             we_Type = changeType\<rparr>]))"

definition kv_watch :: "'db runtime \<Rightarrow> 'w iam_value_api \<Rightarrow> time \<Rightarrow> (nat \<Rightarrow> bool) \<Rightarrow> string \<Rightarrow> 'db node \<Rightarrow> WatchRequest
    \<Rightarrow> (store_event list \<Rightarrow> WatchEvent list) result \<times> 'db node" where
  "kv_watch E A now stop princ st req =
     (let (tenant, region) = scopeOf (wr_Prefix req) in
      case Authorize E A now (fsm_Storage (snd st)) (fst st) princ PermRecordsWatch tenant region of
        (Some err, pol) \<Rightarrow> (Inl err, pol, snd st)
      | (None, pol) \<Rightarrow>
          (case watchPrefix (uuid E) (wr_Prefix req) of
             Inl err \<Rightarrow> (Inl err, pol, snd st)
           | Inr p \<Rightarrow> (Inr (\<lambda>evs. WatchRaw p (watch_callback (uuid E) stop) evs []), pol, snd st)))"

section \<open>Backup and restore\<close>

definition backupChunk :: nat where "backupChunk = 64 * 1024"

text \<open>The copying loop over the pieces read from the pipe and how the pipe ended: \<open>Inr v\<close> is the end of
  the dump with its version.\<close>

fun backup_loop :: "(nat \<Rightarrow> bool) \<Rightarrow> backupFrame list \<Rightarrow> bytes list \<Rightarrow> u64 result \<Rightarrow> backupFrame list" where
  "backup_loop stop out [] fin =
     (case fin of
        Inl e \<Rightarrow> out
      | Inr v \<Rightarrow> if stop (length out) then out else out @ [\<lparr>bf_Data = [], bf_Version = v, bf_Done = True\<rparr>])"
| "backup_loop stop out (chunk # chunks) fin =
     (if length chunk > 0 then
        (if stop (length out) then out
         else backup_loop stop (out @ [\<lparr>bf_Data = chunk, bf_Version = 0, bf_Done = False\<rparr>]) chunks fin)
      else backup_loop stop out chunks fin)"

text \<open>\<open>reads\<close> is how the pipe hands out what was written to it, \<open>partial\<close> what a failing dump had
  written.\<close>

definition admin_backup :: "'db runtime \<Rightarrow> 'w iam_value_api \<Rightarrow> time \<Rightarrow> (bytes \<Rightarrow> bytes list) \<Rightarrow> bytes \<Rightarrow> (nat \<Rightarrow> bool)
    \<Rightarrow> string \<Rightarrow> 'db node \<Rightarrow> u64 \<Rightarrow> backupFrame list result \<times> 'db node" where
  "admin_backup E A now reads partial stop princ st since =
     (case Authorize E A now (fsm_Storage (snd st)) (fst st) princ PermBackupsCreate '''' '''' of
        (Some err, pol) \<Rightarrow> (Inl err, pol, snd st)
      | (None, pol) \<Rightarrow>
          (Inr (case Backup E (fsm_Storage (snd st)) since of
                  Inl e \<Rightarrow> backup_loop stop [] (reads partial) (Inl e)
                | Inr (dump, v) \<Rightarrow> backup_loop stop [] (reads dump) (Inr v)), pol, snd st))"

text \<open>The completion frame of a restore: the error text's presence.\<close>

datatype restore_reply = RestoreDone "go_error option"

text \<open>The frames of the client that are maps give the dump. \<open>consumed\<close> is how much of its input a
  failing load reads: when it stops short, the writing side of the pipe waits forever and no
  completion frame is sent (\<open>None\<close>).\<close>

definition admin_restore :: "'db runtime \<Rightarrow> 'w iam_value_api \<Rightarrow> 'm wire_api \<Rightarrow> time \<Rightarrow> raft_node option \<Rightarrow> (bytes \<Rightarrow> nat)
    \<Rightarrow> string \<Rightarrow> 'db node \<Rightarrow> 'm list \<Rightarrow> restore_reply option result \<times> 'db node" where
  "admin_restore E A W now rn consumed princ st inC =
     (case Authorize E A now (fsm_Storage (snd st)) (fst st) princ PermBackupsRestore '''' '''' of
        (Some err, pol) \<Rightarrow> (Inl err, pol, snd st)
      | (None, pol) \<Rightarrow>
          if replicates rn
          then (Inl (InvalidArgument ''restore is disabled while replication is active: restore into a fresh node, then bootstrap''),
                pol, snd st)
          else
            (let dump = concat (map (\<lambda>v. if is_Map W v then get_Raw W v ''data'' else []) inC);
                 (loadErr, s) = Load E (fsm_Storage (snd st)) dump;
                 t = (snd st)\<lparr>fsm_Storage := s\<rparr> in
             if loadErr \<noteq> None \<and> consumed dump < length dump then (Inr None, pol, t)
             else (Inr (Some (RestoreDone loadErr)), pol, t)))"

section \<open>Facts\<close>

subsection \<open>Streams\<close>

lemma send_all_prefix: "\<exists>p. prefix p rs \<and> send_all stop out rs = out @ p"
proof (induction rs arbitrary: out)
  case (Cons r rs)
  obtain p where "prefix p rs" "send_all stop (out @ [r]) rs = (out @ [r]) @ p"
    using Cons by blast
  then show ?case
    by (cases "stop (length out)") (auto intro: exI [of _ "r # p"])
qed simp

lemma send_all_complete: "(\<And>n. \<not> stop n) \<Longrightarrow> send_all stop out rs = out @ rs"
  by (induction rs arbitrary: out) simp_all

lemma chan_never_fails: "(\<And>n. \<not> stop n) \<Longrightarrow> fst (chanBlockSender_Send stop e out b) = None"
  by (induction b arbitrary: out) simp_all

text \<open>The prefix a scan runs over, and the live rows under it.\<close>

definition enumerate_prefix :: "uuid_api \<Rightarrow> Key option \<Rightarrow> bytes" where
  "enumerate_prefix U key = (case watchPrefix U key of Inr p \<Rightarrow> p | Inl _ \<Rightarrow> [])"

lemma enumerate_scan_loop:
  "enumerate_scan E now s req send st
     = area_loop E now False send st [] (iterate (badger E) (db s) False (enumerate_prefix (uuid E) (er_Prefix req))
         (enumerate_prefix (uuid E) (er_Prefix req)))"
  by (cases "er_Prefix req")
     (simp_all add: enumerate_scan_def areaField_def enumerate_prefix_def watchPrefix_def Scan_def GetArea_def
        EncodeKeyPrefix_layout)

lemma enumerate_visited:
  assumes "runtime_ok E" "badger_up (badger E)" "keys_wf E s"
  shows "map row_of (visited E now False (iterate (badger E) (db s) False p p)) = area_rows E now (cells E s) p"
    and "\<forall>x \<in> set (iterate (badger E) (db s) False p p). isOk (visit E now False x)"
  using iterate_rows [OF assms(1-3), of now False False p p] contents_rows [OF assms(1), of now p s]
    forward_scan [OF badger_okD(1) [OF runtime_okD(1) [OF assms(1)]]] by simp_all

lemma stream_unordered:
  assumes "runtime_ok E" "badger_up (badger E)" "keys_wf E s" "\<not> er_Ordered req"
  shows "prefix (map row_of (stream_records E now srt stop s req))
      (area_rows E now (cells E s) (enumerate_prefix (uuid E) (er_Prefix req)))"
    and "(\<And>n. \<not> stop n) \<Longrightarrow> map row_of (stream_records E now srt stop s req)
      = area_rows E now (cells E s) (enumerate_prefix (uuid E) (er_Prefix req))"
proof -
  let ?p = "enumerate_prefix (uuid E) (er_Prefix req)"
  let ?it = "iterate (badger E) (db s) False ?p ?p"
  let ?send = "chanBlockSender_Send stop (Msg ''context canceled'')"
  note vis = enumerate_visited [OF assms(1-3), where now = now and p = ?p]
  have loop: "enumerate_scan E now s req ?send [] = area_loop E now False ?send [] [] ?it"
    by (rule enumerate_scan_loop)
  obtain er out where out: "area_loop E now False ?send [] [] ?it = (er, out)"
    by (cases "area_loop E now False ?send [] [] ?it")
  have str: "stream_records E now srt stop s req = out"
    using assms(4) loop out by (simp add: stream_records_def)
  obtain q where "prefix q (visited E now False ?it)" "out = q"
    using channel.area_loop_prefix [OF out vis(2)] by auto
  then show "prefix (map row_of (stream_records E now srt stop s req)) (area_rows E now (cells E s) ?p)"
    unfolding str vis(1) [symmetric] by (simp add: map_mono_prefix)
  assume "\<And>n. \<not> stop n"
  then have "fst (area_loop E now False ?send [] [] ?it) = None"
    by (intro area_loop_never_fails chan_never_fails vis(2)) auto
  then have "area_loop E now False ?send [] [] ?it = (None, out)"
    using out by simp
  then have "out = visited E now False ?it"
    using channel.area_loop_delivers [OF _ vis(2)] by fastforce
  then show "map row_of (stream_records E now srt stop s req) = area_rows E now (cells E s) ?p"
    unfolding str vis(1) [symmetric] by simp
qed

lemma stream_ordered:
  assumes "runtime_ok E" "badger_up (badger E)" "keys_wf E s" "er_Ordered req" "Slice_sorts srt" "\<And>n. \<not> stop n"
  shows "mset (map row_of (stream_records E now srt stop s req))
      = mset (area_rows E now (cells E s) (enumerate_prefix (uuid E) (er_Prefix req)))"
    and "sorted_wrt (\<lambda>a b. \<not> minor_less (er_Reverse req) b a) (stream_records E now srt stop s req)"
proof -
  let ?p = "enumerate_prefix (uuid E) (er_Prefix req)"
  let ?it = "iterate (badger E) (db s) False ?p ?p"
  note vis = enumerate_visited [OF assms(1-3), where now = now and p = ?p]
  have "fst (area_loop E now False collectSender_Send [] [] ?it) = None"
    by (rule area_loop_never_fails) (use vis(2) in \<open>simp_all add: collectSender_Send_def\<close>)
  then obtain recs where recs: "area_loop E now False collectSender_Send [] [] ?it = (None, recs)"
    by (metis prod.collapse)
  then have all: "recs = visited E now False ?it"
    using collector.area_loop_delivers [OF recs vis(2)] by simp
  have str: "stream_records E now srt stop s req = srt (minor_less (er_Reverse req)) recs"
    using assms(4,6) recs by (simp add: stream_records_def enumerate_scan_loop send_all_complete)
  have sorts: "mset (srt (minor_less (er_Reverse req)) recs) = mset recs"
    "sorted_wrt (\<lambda>a b. \<not> minor_less (er_Reverse req) b a) (srt (minor_less (er_Reverse req)) recs)"
    using assms(5) unfolding Slice_sorts_def by blast+
  show "mset (map row_of (stream_records E now srt stop s req)) = mset (area_rows E now (cells E s) ?p)"
    using sorts(1) vis(1) str all by (metis mset_map)
  show "sorted_wrt (\<lambda>a b. \<not> minor_less (er_Reverse req) b a) (stream_records E now srt stop s req)"
    using sorts(2) str by simp
qed

subsection \<open>Authorization of the handlers\<close>

lemma redirectable_state: "snd (redirectable p) = snd p"
  by (simp add: redirectable_def split: sum.split option.split)

lemma redirectable_follower:
  assumes "fst p = Inl (NotLeader i a ep)"
  shows "redirectable p = (Inl (Unavailable (NotLeaderPrefix @ ep)), snd p)"
  using assms by (simp add: redirectable_def AsNotLeader_def)

text \<open>The watch callback forwards the decodable events, in order.\<close>

lemma watch_forwards:
  assumes "\<And>n. \<not> stop n"
  shows "WatchRaw p (watch_callback U stop) evs out = out @ List.map_filter (\<lambda>ev. case DecodeKey U (ev_Key ev) of
      Inl _ \<Rightarrow> None
    | Inr key \<Rightarrow> Some \<lparr>we_Key = Some key, we_Value = ev_Value ev, we_Version = ev_Version ev,
        we_Type = (if ev_Type ev = WATCH_DELETE then WATCH_DELETE else WATCH_SET)\<rparr>)
     (filter (\<lambda>ev. prefix p (ev_Key ev)) evs)"
  by (induction evs arbitrary: out)
     (simp_all add: watch_callback_def map_filter_simps assms Let_def split: sum.split)

lemma backup_loop_complete:
  assumes "\<And>n. \<not> stop n"
  shows "concat (map bf_Data (backup_loop stop out chunks (Inr v))) = concat (map bf_Data out) @ concat chunks
    \<and> last (backup_loop stop out chunks (Inr v)) = \<lparr>bf_Data = [], bf_Version = v, bf_Done = True\<rparr>
    \<and> (\<forall>f \<in> set (butlast (backup_loop stop out chunks (Inr v))). f \<in> set out \<or> \<not> bf_Done f \<and> bf_Data f \<in> set chunks)"
proof (induction chunks arbitrary: out)
  case Nil
  then show ?case using assms by simp
next
  case (Cons c chunks)
  show ?case
  proof (cases "c = []")
    case True
    with Cons [of out] show ?thesis by auto
  next
    case False
    with Cons [of "out @ [\<lparr>bf_Data = c, bf_Version = 0, bf_Done = False\<rparr>]"] assms show ?thesis
      by auto
  qed
qed

end
