(* ===== verification/Policy_Sync.thy ===== *)
theory Policy_Sync
  imports Access Data_Plane Storage_Props
begin

text \<open>
  How a node's policy snapshot follows its store (pkg/server/policy_service.go with the watch of
  \<open>PostConstruct\<close>): the events every writing method publishes cover the keys it changes, and the
  steps of the store, the watch and the authorizer keep the snapshot compiled from the current IAM
  records unless a change notice is still on its way.
\<close>

section \<open>Published events cover the changed keys\<close>

definition covers :: "'db runtime \<Rightarrow> 'db KeyValueStorageCtx \<Rightarrow> 'db KeyValueStorageCtx \<Rightarrow> bool" where
  "covers E s s' \<longleftrightarrow> (\<forall>h. hub s = Some h \<longrightarrow>
     (\<exists>evs. hub s' = Some (h @ evs) \<and> (\<forall>b. cells E s' b \<noteq> cells E s b \<longrightarrow> b \<in> ev_Key ` set evs)))"

lemma covers_refl [simp]: "covers E s s"
  by (simp add: covers_def)

lemma covers_notified:
  assumes "\<And>b. b \<noteq> k \<Longrightarrow> txn_cells E d b = cells E s b"
  shows "covers E s (notify (s\<lparr>db := d\<rparr>) k v t ver)"
proof -
  have "cells E (notify (s\<lparr>db := d\<rparr>) k v t ver) = txn_cells E d"
    by (simp add: cells_def notify_def split: option.split)
  then show ?thesis
    using assms by (auto simp: covers_def notify_hub)
qed

lemma view_cells:
  "view (badger E) d b = view (badger E) (db s) b \<Longrightarrow> txn_cells E d b = cells E s b"
  by (simp add: txn_cells_def cells_def)

lemma commit_entry_covers:
  assumes "runtime_ok E" "commit_entry E s m1 m2 k env m v ver reply = (res, s')"
  shows "covers E s s'"
proof -
  note bok = runtime_okD(1) [OF assms(1)]
  show ?thesis
  proof (cases "txn_SetEntry (badger E) (db s) k env m")
    case (Inr txn)
    show ?thesis
    proof (cases "txn_Commit (badger E) txn")
      case c: (Inr d)
      have "txn_cells E d b = cells E s b" if "b \<noteq> k" for b
        using that badger_okD(4) [OF bok Inr] commit_view [OF bok c] by (intro view_cells) simp
      then have "covers E s (notify (s\<lparr>db := d\<rparr>) k v WATCH_SET ver)"
        by (rule covers_notified)
      then show ?thesis
        using assms(2) Inr c by (auto simp: commit_entry_def)
    qed (use assms(2) Inr in \<open>auto simp: commit_entry_def\<close>)
  qed (use assms(2) in \<open>auto simp: commit_entry_def\<close>)
qed

lemma Put_covers: "runtime_ok E \<Longrightarrow> Put E now s r cv = (res, s') \<Longrightarrow> covers E s s'"
  by (auto simp: Put_def Let_def split_beta split: option.splits sum.splits if_splits dest: commit_entry_covers)

lemma Touch_covers: "runtime_ok E \<Longrightarrow> Touch E now s r cv = (res, s') \<Longrightarrow> covers E s s'"
  by (auto simp: Touch_def Let_def split_beta split: option.splits sum.splits if_splits dest: commit_entry_covers)

lemma Increment_covers: "runtime_ok E \<Longrightarrow> Increment E now s r cv = (res, s') \<Longrightarrow> covers E s s'"
  by (auto simp: Increment_def Let_def split_beta split: option.splits sum.splits if_splits dest: commit_entry_covers)

lemma Remove_covers:
  assumes "runtime_ok E" "Remove E s q = (res, s')"
  shows "covers E s s'"
proof -
  note bok = runtime_okD(1) [OF assms(1)]
  have step: "txn_cells E d b = cells E s b"
    if "txn_Delete (badger E) (db s) k = Inr txn" "txn_Commit (badger E) txn = Inr d" "b \<noteq> k" for k txn d b
    using that badger_okD(5) [OF bok] commit_view [OF bok] by (intro view_cells) simp
  show ?thesis
    using assms(2) by (auto simp: Remove_def Let_def split_beta intro!: covers_notified step
        split: option.splits sum.splits)
qed

lemma spec_Reclaim_listed: "snd (spec_Reclaim cs es) b \<noteq> cs b \<Longrightarrow> b \<in> set (fst (spec_Reclaim cs es))"
proof (induction es arbitrary: cs)
  case (Cons e es)
  show ?case
  proof (cases "reclaims cs e")
    case True
    define cs' where "cs' = cs(EntryKey e := None)"
    have "cs' b = cs b" if "b \<noteq> EntryKey e"
      using that by (simp add: cs'_def)
    with True Cons.prems Cons.IH [of cs'] show ?thesis
      by (cases "b = EntryKey e") (auto simp: split_beta cs'_def [symmetric])
  qed (use Cons in simp)
qed simp

lemma Reclaim_covers:
  assumes "runtime_ok E" "Reclaim E s q = (res, s')"
  shows "covers E s s'"
proof (cases res)
  case (Inr n)
  with assms have ok: "Reclaim E s q = (Inr n, s')" by simp
  show ?thesis
    unfolding covers_def
  proof (intro allI impI)
    fix h assume "hub s = Some h"
    then have "hub s' = Some (h @ map delete_event (fst (spec_Reclaim (cells E s) (Entries q))))"
      using Reclaim_hub [OF assms(1) ok] by simp
    moreover have "cells E s' b \<noteq> cells E s b \<Longrightarrow>
        b \<in> ev_Key ` set (map delete_event (fst (spec_Reclaim (cells E s) (Entries q))))" for b
      using Reclaim_refines [OF assms(1) ok] spec_Reclaim_listed [of "cells E s" "Entries q" b]
      by (auto simp: image_iff delete_event_def)
    ultimately show "\<exists>evs. hub s' = Some (h @ evs) \<and> (\<forall>b. cells E s' b \<noteq> cells E s b \<longrightarrow> b \<in> ev_Key ` set evs)"
      by blast
  qed
next
  case (Inl e)
  with assms(2) have "s' = s" by (auto dest: Reclaim_error)
  then show ?thesis by simp
qed

lemma batch_loop_changes:
  assumes "runtime_ok E" "batch_loop E now cv d p rs = Inr (d', p')"
  shows "\<exists>q. p' = p @ q \<and> (\<forall>b. txn_cells E d' b \<noteq> txn_cells E d b \<longrightarrow> b \<in> ch_key ` set q)"
  using assms(2)
proof (induction rs arbitrary: d p)
  case (Cons r rs)
  then obtain k ver env m txn where set: "txn_SetEntry (badger E) d (entry_key (uuid E) k) env m = Inr txn"
    and loop: "batch_loop E now cv txn (p @ [\<lparr>ch_key = entry_key (uuid E) k, ch_value = rr_Value r, ch_version = ver\<rparr>]) rs
      = Inr (d', p')"
    by (fastforce simp: runtime_okD(4) [OF assms(1)] Let_def split: option.splits sum.splits if_splits)
  have same: "txn_cells E txn b = txn_cells E d b" if "b \<noteq> entry_key (uuid E) k" for b
    using that badger_okD(4) [OF runtime_okD(1) [OF assms(1)] set] by (simp add: txn_cells_def)
  obtain q where q: "p' = (p @ [\<lparr>ch_key = entry_key (uuid E) k, ch_value = rr_Value r, ch_version = ver\<rparr>]) @ q"
    "\<forall>b. txn_cells E d' b \<noteq> txn_cells E txn b \<longrightarrow> b \<in> ch_key ` set q"
    using Cons.IH [OF loop] by blast
  show ?case
  proof (intro exI conjI allI impI)
    show "p' = p @ (\<lparr>ch_key = entry_key (uuid E) k, ch_value = rr_Value r, ch_version = ver\<rparr> # q)"
      using q(1) by simp
    show "b \<in> ch_key ` set (\<lparr>ch_key = entry_key (uuid E) k, ch_value = rr_Value r, ch_version = ver\<rparr> # q)"
      if "txn_cells E d' b \<noteq> txn_cells E d b" for b
      using that q(2) same [of b] by (cases "b = entry_key (uuid E) k") auto
  qed
qed simp

lemma SetBatch_covers:
  assumes "runtime_ok E" "SetBatch E now s q cv = (res, s')"
  shows "covers E s s'"
proof (cases "batch_loop E now cv (db s) [] (Records q)")
  case (Inr dp)
  obtain d p where dp: "dp = (d, p)" by (cases dp)
  have ch: "txn_cells E d b \<noteq> cells E s b \<Longrightarrow> b \<in> ch_key ` set p" for b
    using batch_loop_changes [OF assms(1) Inr [unfolded dp]] by (auto simp: cells_def)
  show ?thesis
  proof (cases "txn_Commit (badger E) d")
    case c: (Inr d')
    then have s': "s' = foldl (\<lambda>s c. notify s (ch_key c) (ch_value c) WATCH_SET (ch_version c)) (s\<lparr>db := d'\<rparr>) p"
      using assms(2) Inr dp by (simp add: SetBatch_def)
    have "cells E s' = txn_cells E d"
      using txn_cells_commit [OF assms(1) c] by (simp add: s' cells_def [symmetric])
    moreover have "ev_Key ` set (map (\<lambda>x. \<lparr>ev_Key = ch_key x, ev_Value = ch_value x, ev_Type = WATCH_SET,
        ev_Version = ch_version x\<rparr>) p) = ch_key ` set p"
      by (simp add: image_image)
    ultimately show ?thesis
      using ch unfolding covers_def s' notify_fold_hub by auto
  qed (use assms(2) Inr dp in \<open>auto simp: SetBatch_def\<close>)
qed (use assms(2) in \<open>auto simp: SetBatch_def\<close>)

lemma storage_step_covers:
  assumes "runtime_ok E" "storage_step E s s'"
  shows "covers E s s'"
  using assms(2)
  by cases (blast intro: Put_covers Touch_covers Remove_covers Increment_covers SetBatch_covers
      Reclaim_covers assms(1))+

section \<open>The policy service beside the store\<close>

definition system_prefix :: bytes where
  "system_prefix = field_bytes (bytes_of SystemTenant)"

lemma iam_under_system: "prefix iam_prefix b \<Longrightarrow> prefix system_prefix b"
  by (auto simp: iam_prefix_def system_prefix_def prefix_def)

text \<open>The store, the policy service, and the change notices its watch has not handled. A hub that is
  behind drops a notice only while others are queued for the same watcher.\<close>

record 'db watched =
  wt_store :: "'db KeyValueStorageCtx"
  wt_policy :: PolicyService
  wt_pending :: "store_event list"

inductive watched_step :: "'db runtime \<Rightarrow> 'w iam_value_api \<Rightarrow> 'db watched \<Rightarrow> 'db watched \<Rightarrow> bool" for E A where
  store_write: "storage_step E (wt_store n) s' \<Longrightarrow> hub (wt_store n) = Some h \<Longrightarrow> hub s' = Some (h @ evs) \<Longrightarrow>
    watched_step E A n (n\<lparr>wt_store := s',
      wt_pending := wt_pending n @ filter (\<lambda>ev. prefix system_prefix (ev_Key ev)) evs\<rparr>)"
| notice: "wt_pending n = ev # evs \<Longrightarrow>
    watched_step E A n (n\<lparr>wt_policy := snd (invalidate ev (wt_policy n)), wt_pending := evs\<rparr>)"
| notice_dropped: "wt_pending n = evs @ [ev] \<Longrightarrow> evs \<noteq> [] \<Longrightarrow> watched_step E A n (n\<lparr>wt_pending := evs\<rparr>)"
| decide: "Authorize E A now (wt_store n) (Some (wt_policy n)) princ perm tenant region = (res, Some t) \<Longrightarrow>
    watched_step E A n (n\<lparr>wt_policy := t\<rparr>)"

text \<open>Unless a notice is queued or handled, the snapshot is what the current records compile to (at the
  clock of the last rebuild).\<close>

definition synced :: "'db runtime \<Rightarrow> 'w iam_value_api \<Rightarrow> 'db watched \<Rightarrow> bool" where
  "synced E A n \<longleftrightarrow> wt_pending n \<noteq> [] \<or> ps_dirty (wt_policy n)
     \<or> (\<exists>now. ps_snap (wt_policy n) = Some (compiled E A now (cells E (wt_store n))))"

lemma Authorize_synced:
  assumes "runtime_ok E" "badger_up (badger E)" "keys_wf E s" "ps_Enabled t"
    and "Authorize E A now s (Some t) princ perm tenant region = (res, Some t')"
  shows "ps_Enabled t' \<and> (if ps_dirty t then \<not> ps_dirty t' \<and> ps_snap t' = Some (compiled E A now (cells E s)) else t' = t)"
  using assms(4,5)
  by (auto simp: Authorize_def rebuild_compiled [OF assms(1-3)] Let_def split: if_splits option.splits)

lemma watched_step_synced:
  assumes "runtime_ok E" "badger_up (badger E)" "watched_step E A n n'"
    and "synced E A n" "ps_Enabled (wt_policy n)" "keys_wf E (wt_store n)"
  shows "synced E A n' \<and> ps_Enabled (wt_policy n') \<and> keys_wf E (wt_store n')"
  using assms(3)
proof cases
  case (store_write s' h evs)
  note wf = storage_step_keys_wf [OF assms(1) store_write(2) assms(6)]
  have cov: "cells E s' b \<noteq> cells E (wt_store n) b \<Longrightarrow> b \<in> ev_Key ` set evs" for b
    using storage_step_covers [OF assms(1) store_write(2)] store_write(3,4) by (auto simp: covers_def)
  have "synced E A n'"
  proof (cases "\<exists>b. prefix iam_prefix b \<and> cells E s' b \<noteq> cells E (wt_store n) b")
    case True
    then obtain ev where "ev \<in> set evs" "prefix iam_prefix (ev_Key ev)"
      using cov by blast
    then have "filter (\<lambda>ev. prefix system_prefix (ev_Key ev)) evs \<noteq> []"
      by (auto simp: filter_empty_conv intro: iam_under_system)
    then show ?thesis
      by (simp add: synced_def store_write(1))
  next
    case False
    then have "compiled E A now (cells E s') = compiled E A now (cells E (wt_store n))" for now
      by (intro compiled_cong) blast
    then show ?thesis
      using assms(4) by (auto simp: synced_def store_write(1))
  qed
  then show ?thesis
    using wf assms(5) by (simp add: store_write(1))
next
  case (notice ev evs)
  then show ?thesis
    using assms(5,6) by (simp add: synced_def invalidate_def)
next
  case (notice_dropped evs ev)
  then show ?thesis
    using assms(5,6) by (simp add: synced_def)
next
  case (decide now princ perm tenant region res t)
  note a = Authorize_synced [OF assms(1,2,6,5) decide(2)]
  show ?thesis
    using a assms(4-6) by (cases "ps_dirty (wt_policy n)") (auto simp: synced_def decide(1))
qed

lemma watched_steps_synced:
  assumes "runtime_ok E" "badger_up (badger E)" "(watched_step E A)\<^sup>*\<^sup>* n n'"
    and "synced E A n" "ps_Enabled (wt_policy n)" "keys_wf E (wt_store n)"
  shows "synced E A n' \<and> ps_Enabled (wt_policy n') \<and> keys_wf E (wt_store n')"
  using assms(3)
proof (induction rule: rtranclp_induct)
  case (step n1 n2)
  then show ?case
    using watched_step_synced [OF assms(1,2)] by blast
qed (use assms in blast)

end
