(* ===== verification/Access_Props.thy ===== *)
theory Access_Props
  imports Policy_Sync Service_Props
begin

text \<open>Properties of authentication, authorization and the data plane (pkg/iam, pkg/server).\<close>

section \<open>Instances for the concrete runs\<close>

text \<open>A value package for IAM records: a record packs to its position in a table.\<close>

definition iam_position :: "iam_record list \<Rightarrow> iam_record \<Rightarrow> nat" where
  "iam_position tab r = length (takeWhile (\<lambda>q. q \<noteq> r) tab)"

definition mem_iam :: "iam_record list \<Rightarrow> nat iam_value_api" where
  "mem_iam tab = \<lparr>
     iam_Marshal = (\<lambda>r. if r \<in> set tab then Inr (iam_position tab r) else Inl (Msg ''unknown record'')),
     iam_Pack = (\<lambda>n. Inr [word_of_nat n]),
     iam_Unpack = (\<lambda>b. case b of [w] \<Rightarrow> Inr (unat w) | _ \<Rightarrow> Inl (Msg ''malformed'')),
     iam_Unmarshal = (\<lambda>n k. if n < length tab \<and> iam_kind_of (tab ! n) = k then Inr (tab ! n)
        else Inl (Msg ''wrong type''))\<rparr>"

lemma iam_position_nth: "r \<in> set tab \<Longrightarrow> iam_position tab r < length tab \<and> tab ! iam_position tab r = r"
  unfolding iam_position_def by (induction tab) auto

lemma mem_iam_ok:
  assumes "length tab \<le> 256"
  shows "iam_value_ok (mem_iam tab)"
proof -
  have "iam_position tab r mod 256 = iam_position tab r" "iam_position tab r < length tab"
    "tab ! iam_position tab r = r" if "r \<in> set tab" for r
    using iam_position_nth [OF that] assms by simp_all
  then show ?thesis
    by (auto simp: iam_value_ok_def mem_iam_def unat_of_nat split: if_splits)
qed

definition mem_argon :: argon_api where
  "mem_argon = \<lparr>argon_Version = 19, IDKey = (\<lambda>p s t m h n. if t = 0 \<or> h = 0 then Inl Panic
     else Inr (take n (p @ replicate n 0)))\<rparr>"

lemma mem_argon_ok: "argon_ok mem_argon"
  by (auto simp: argon_ok_def mem_argon_def)

text \<open>A database in which one policy record makes the user \<open>u\<close> a viewer of the whole instance.\<close>

definition viewer_policy :: PolicyRecord where
  "viewer_policy = \<lparr>Bindings = [\<lparr>bi_Role = ''roles/cdb.viewer'', bi_Members = [''user:u'']\<rparr>]\<rparr>"

definition viewer_iam :: "nat iam_value_api" where
  "viewer_iam = mem_iam [IPolicy viewer_policy]"

definition viewer_cell :: bytes where
  "viewer_cell = entry_key mem_uuid (iam_Key PolicyInstance)"

definition viewer_db :: "entries KeyValueStorageCtx" where
  "viewer_db = \<lparr>db = [(viewer_cell, EncodeEnvelope mem_store 1 0 [0], 0)], hub = Some []\<rparr>"

lemma viewer_cells: "cells mem_runtime viewer_db
    = [viewer_cell \<mapsto> \<lparr>c_version = 1, c_expires = 0, c_value = [0], c_meta = 0\<rparr>]"
  using cell_of_encode [OF mem_runtime_ok, of 1 0 "[0]" 0]
  by (auto simp: cells_def txn_cells_def view_def viewer_db_def mem_badger_def canon_def fun_eq_iff)

lemma viewer_key: "key_fits (iam_Key PolicyInstance)" "prefix iam_prefix viewer_cell"
  by (simp_all add: key_fits_def iam_Key_def layout_defs MaxKeyLength_def viewer_cell_def entry_key_def row_key_def
      iam_prefix_def)

lemma viewer_wf: "keys_wf mem_runtime viewer_db"
  using viewer_key(1) by (auto simp: keys_wf_def viewer_cells viewer_cell_def)

lemma viewer_compiled:
  "compiled mem_runtime viewer_iam 0 (cells mem_runtime viewer_db)
     = NewSnapshot\<lparr>Policies := [''i'' \<mapsto> Bindings viewer_policy]\<rparr>"
proof -
  have keys: "{b \<in> dom (cells mem_runtime viewer_db). prefix iam_prefix b} = {viewer_cell}"
    using viewer_key(2) by (auto simp: viewer_cells)
  have dec: "DecodeKey mem_uuid viewer_cell = Inr (iam_Key PolicyInstance)"
    using runtime_okD(6) [OF mem_runtime_ok] viewer_key(1) by (simp add: viewer_cell_def sanitize_key_fits)
  have "area_rows mem_runtime 0 (cells mem_runtime viewer_db) iam_prefix = [(iam_Key PolicyInstance, 1, 0, 0, [0])]"
    unfolding area_rows_def keys
    by (simp add: map_filter_simps cell_row_def dec viewer_cells live_def answer_def mem_store_def)
  then show ?thesis
    by (simp add: compiled_def absorb_row_def absorb_def iam_Key_def layout_defs PolicyScopeKey_def decoded_def
        iam_Decode_def viewer_iam_def mem_iam_def NewSnapshot_def)
qed

lemma viewer_allowed: "allowed (compiled mem_runtime viewer_iam 0 (cells mem_runtime viewer_db)) ''user:u''
    PermRecordsEnumerate '''' ''''"
  by (simp add: viewer_compiled allowed_def granted_def speaks_for_def viewer_policy_def NewSnapshot_def
      PredefinedRoles_def Let_def mget_def)

definition viewer_service :: PolicyService where
  "viewer_service = \<lparr>ps_Enabled = True, ps_snap = None, ps_dirty = True\<rparr>"

definition viewer_node :: "entries node" where
  "viewer_node = (Some viewer_service, \<lparr>fsm_Storage = viewer_db, fsm_chain = Some genesis\<rparr>)"

lemma viewer_current: "ps_Enabled viewer_service" "current mem_runtime viewer_iam now cs viewer_service"
  by (simp_all add: viewer_service_def current_def)

section \<open>Authorization\<close>

text \<open>C18 The decision of a snapshot, computed by nested loops over scopes, bindings, members and
  permissions, is the declarative one: the principal is named, not disabled, and either an admin or
  bound, directly or through a group, to a role with the permission at the instance, at the
  addressed tenant, or at the addressed region; a region grant never applies to a tenant-wide request
  and a tenant grant never to an instance-wide one.\<close>

theorem decision_exact:
  "Snapshot_Authorize s princ perm tenant region \<longleftrightarrow>
     princ \<noteq> '''' \<and> \<not> mget (Disabled s) False princ
     \<and> (mget (Admins s) False princ
        \<or> granted s princ perm ''i''
        \<or> tenant \<noteq> '''' \<and> granted s princ perm (''t/'' @ tenant)
        \<or> tenant \<noteq> '''' \<and> region \<noteq> '''' \<and> granted s princ perm (''r/'' @ tenant @ ''/'' @ region))"
  by (simp add: Snapshot_Authorize_allowed allowed_def)

text \<open>Tenant isolation of grants: for tenant names without the separator, whatever is bound at the
  scopes of one tenant changes no decision about another tenant or about the instance.\<close>

lemma tenant_isolation:
  assumes "CHR ''/'' \<notin> set t" "CHR ''/'' \<notin> set t'" "t \<noteq> t'"
    and "\<And>sc. P sc \<noteq> Policies s sc \<Longrightarrow> sc \<noteq> ''i'' \<and> (\<exists>r. sc \<in> set (scopes t' r))"
  shows "Snapshot_Authorize (s\<lparr>Policies := P\<rparr>) princ perm t region = Snapshot_Authorize s princ perm t region"
proof -
  have "P sc = Policies s sc" if "sc \<in> set (scopes t region)" for sc
    using assms that scopes_disjoint by metis
  then show ?thesis
    unfolding Snapshot_Authorize_allowed by (rule allowed_local)
qed

text \<open>What a handler behind an up-to-date policy does: run, or refuse without touching the node.\<close>

definition gated :: "'db runtime \<Rightarrow> 'w iam_value_api \<Rightarrow> time \<Rightarrow> string \<Rightarrow> string \<Rightarrow> string \<times> string \<Rightarrow> PolicyService \<Rightarrow> 'db FSM
    \<Rightarrow> 'r result \<times> 'db FSM \<Rightarrow> 'r result \<times> 'db node" where
  "gated E A now princ perm sc p t act =
     (let snap = compiled E A now (cells E (fsm_Storage t)); perm = EffectivePermission perm (fst sc);
          p = p\<lparr>ps_dirty := False, ps_snap := Some snap\<rparr> in
      if allowed snap princ perm (fst sc) (snd sc) then (fst act, Some p, snd act)
      else (Inl (PermissionDenied princ perm (fst sc) (snd sc)), Some p, t))"

lemma guard_gated:
  assumes "runtime_ok E" "badger_up (badger E)" "keys_wf E (fsm_Storage t)" "ps_Enabled p"
    and "current E A now (cells E (fsm_Storage t)) p"
  shows "guardKey (Authorize E A now (fsm_Storage t)) perm keyOf fn princ (Some p, t) req
    = gated E A now princ perm (scopeOf (keyOf req)) p t (fn t req)"
  by (simp add: guardKey_def gated_def Authorize_current [OF assms] Let_def split_beta)







section \<open>Streams\<close>


definition insertion_sort :: "('a \<Rightarrow> 'a \<Rightarrow> bool) \<Rightarrow> 'a list \<Rightarrow> 'a list" where
  "insertion_sort lt xs = foldr (\<lambda>x ys. takeWhile (\<lambda>y. lt y x) ys @ x # dropWhile (\<lambda>y. lt y x) ys) xs []"

lemma insort_sorts: "Slice_sorts insertion_sort"
proof -
  let ?ins = "\<lambda>r x ys. takeWhile (\<lambda>y. minor_less r y x) ys @ x # dropWhile (\<lambda>y. minor_less r y x) ys"
  have tr: "\<not> minor_less r c a" if "\<not> minor_less r b a" "\<not> minor_less r c b" for r a b c
    using that by (auto simp: minor_less_def split: if_splits)
  have asym: "\<not> minor_less r x y" if "minor_less r y x" for r x y
    using that by (auto simp: minor_less_def split: if_splits)
  have ins: "sorted_wrt (\<lambda>a b. \<not> minor_less r b a) (?ins r x ys)" if "sorted_wrt (\<lambda>a b. \<not> minor_less r b a) ys" for r x ys
    using that
  proof (induction ys)
    case (Cons y ys)
    show ?case
    proof (cases "minor_less r y x")
      case True
      have "set (?ins r x ys) = insert x (set ys)"
        using takeWhile_dropWhile_id [of "\<lambda>y. minor_less r y x" ys] by (metis list.set(2) set_append Un_insert_right)
      with True Cons asym [OF True] show ?thesis by simp
    next
      case False
      with Cons tr [of r y x] show ?thesis by auto
    qed
  qed simp
  have "mset (foldr (?ins r) xs []) = mset xs \<and> sorted_wrt (\<lambda>a b. \<not> minor_less r b a) (foldr (?ins r) xs [])" for r xs
  proof (induction xs)
    case (Cons x xs)
    have "mset (?ins r x ys) = add_mset x (mset ys)" for ys
      using takeWhile_dropWhile_id [of "\<lambda>y. minor_less r y x" ys] by (metis mset.simps(2) mset_append union_mset_add_mset_right)
    with Cons ins show ?case by simp
  qed simp
  then show ?thesis
    by (simp add: Slice_sorts_def insertion_sort_def)
qed


text \<open>C32 An unscoped enumeration reads the system tenant: a caller who may enumerate at the instance, which
  takes no \<open>cdb.iam\<close> permission, is sent every live IAM record by an enumeration without prefix.\<close>

theorem unscoped_enumerate_reads_system:
  assumes "runtime_ok E" "badger_up (badger E)" "keys_wf E (fsm_Storage t)" "ps_Enabled p"
    and "current E A now (cells E (fsm_Storage t)) p" "Slice_sorts srt" "\<And>n. \<not> stop n"
    and "allowed (compiled E A now (cells E (fsm_Storage t))) princ PermRecordsEnumerate [] []"
    and "live E now (cells E (fsm_Storage t) (entry_key (uuid E) (iam_Key minor))) = Some c" "key_fits (iam_Key minor)"
  shows "\<exists>out pol. kv_enumerate E A now srt stop princ (Some p, t)
        \<lparr>er_Prefix = None, er_Ordered = False, er_Reverse = False, er_Timeout = 0\<rparr> = (Inr out, pol, t)
    \<and> (iam_Key minor, answer False c) \<in> row_of ` set out"
proof -
  let ?req = "\<lparr>er_Prefix = None, er_Ordered = False, er_Reverse = False, er_Timeout = 0\<rparr>"
  let ?cs = "cells E (fsm_Storage t)" and ?b = "entry_key (uuid E) (iam_Key minor)"
  have fin: "finite (dom ?cs)"
    by (simp add: dom_cells)
  have "?b \<in> dom ?cs"
    using assms(9) by (auto simp: live_def split: option.splits)
  moreover have "cell_row E now ?cs ?b = Some (iam_Key minor, answer False c)"
    using assms(9) runtime_okD(6) [OF assms(1)] by (simp add: cell_row_def sanitize_key_fits [OF assms(10)])
  ultimately have "(iam_Key minor, answer False c) \<in> set (area_rows E now ?cs [])"
    unfolding area_rows_iff [OF fin] by (intro exI [of _ ?b]) simp
  moreover have "map row_of (stream_records E now srt stop (fsm_Storage t) ?req) = area_rows E now ?cs []"
    using stream_unordered(2) [OF assms(1-3), where req = ?req and now = now and srt = srt and stop = stop] assms(7)
    by (simp add: enumerate_prefix_def watchPrefix_def)
  ultimately have "(iam_Key minor, answer False c) \<in> row_of ` set (stream_records E now srt stop (fsm_Storage t) ?req)"
    by (metis set_map)
  then show ?thesis
    using assms(8) by (simp add: kv_enumerate_def scopeOf_def Authorize_current [OF assms(1-5)] EffectivePermission_def
        layout_defs)
qed

theorem unscoped_enumerate_reads_system_witness:
  "\<exists>out pol. kv_enumerate mem_runtime viewer_iam 0
      insertion_sort
      (\<lambda>_. False) ''user:u'' viewer_node \<lparr>er_Prefix = None, er_Ordered = False, er_Reverse = False, er_Timeout = 0\<rparr>
      = (Inr out, pol, snd viewer_node) \<and> (iam_Key PolicyInstance, 1, 0, 0, [0]) \<in> row_of ` set out"
  using unscoped_enumerate_reads_system [OF mem_runtime_ok mem_runtime_up _ viewer_current insort_sorts,
      where t = "snd viewer_node" and princ = "''user:u''" and now = 0 and stop = "\<lambda>_. False"
      and minor = PolicyInstance and c = "\<lparr>c_version = 1, c_expires = 0, c_value = [0], c_meta = 0\<rparr>"]
    viewer_allowed viewer_wf viewer_key(1)
  by (simp add: viewer_node_def viewer_cells viewer_cell_def [symmetric] live_def answer_def mem_store_def)

section \<open>Passwords\<close>

text \<open>C31 A stored password hash verifies exactly the password it was made from: checking a candidate
  against the encoded hash recovers salt and parameters from the text and accepts the candidate when
  its argon2id key under that salt equals the original's, so the original password always passes.\<close>

theorem password_exact:
  assumes "argon_ok G" "HashPassword G (Inr salt) pw = Inr h"
  shows "VerifyPassword G h pw = Inr True
    \<and> (VerifyPassword G h pw' = Inr True \<longleftrightarrow>
       IDKey G (bytes_of pw') salt (of_nat argonTime) (of_nat argonMemoryKiB) (of_nat argonThreads) argonKeyLen
       = IDKey G (bytes_of pw) salt (of_nat argonTime) (of_nat argonMemoryKiB) (of_nat argonThreads) argonKeyLen)"
  using VerifyPassword_hash [OF assms, of pw] VerifyPassword_hash [OF assms, of pw']
  by (auto simp: bindE_def split: sum.splits)

theorem password_exact_witness:
  "\<exists>h. HashPassword mem_argon (Inr [7, 8]) ''secret'' = Inr h \<and> VerifyPassword mem_argon h ''secret'' = Inr True"
proof -
  obtain h where "HashPassword mem_argon (Inr [7, 8]) ''secret'' = Inr h"
    by (simp add: HashPassword_def mem_argon_def argonTime_def argonThreads_def)
  with password_exact [OF mem_argon_ok this] show ?thesis by blast
qed

section \<open>The wire\<close>

text \<open>A value package: maps as association lists.\<close>

datatype wire_value = WMap "(string \<times> wire_value) list" | WList "wire_value list" | WRaw bytes | WLong i64 | WBool bool

definition wfield :: "wire_value \<Rightarrow> string \<Rightarrow> wire_value option" where
  "wfield v k = (case v of WMap m \<Rightarrow> map_of m k | _ \<Rightarrow> None)"

definition as_wmap :: "wire_value option \<Rightarrow> wire_value option" where
  "as_wmap v = (case v of Some (WMap m) \<Rightarrow> Some (WMap m) | _ \<Rightarrow> None)"

definition mem_wire :: "wire_value wire_api" where
  "mem_wire = \<lparr>EmptyMap = WMap [], map_Put = (\<lambda>m k v. case m of WMap ps \<Rightarrow> WMap ((k, v) # ps) | _ \<Rightarrow> m),
     mk_Raw = WRaw, mk_Long = WLong, mk_Boolean = WBool, EmptyList = WList [],
     list_Append = (\<lambda>l v. case l of WList vs \<Rightarrow> WList (vs @ [v]) | _ \<Rightarrow> l),
     is_Map = (\<lambda>v. case v of WMap _ \<Rightarrow> True | _ \<Rightarrow> False), is_List = (\<lambda>v. case v of WList _ \<Rightarrow> True | _ \<Rightarrow> False),
     get_Raw = (\<lambda>m k. case wfield m k of Some (WRaw b) \<Rightarrow> b | _ \<Rightarrow> []),
     get_Long = (\<lambda>m k. case wfield m k of Some (WLong n) \<Rightarrow> n | _ \<Rightarrow> 0),
     get_Boolean = (\<lambda>m k. case wfield m k of Some (WBool b) \<Rightarrow> b | _ \<Rightarrow> False),
     GetMap = (\<lambda>m k. as_wmap (wfield m k)),
     GetList = (\<lambda>m k. case wfield m k of Some (WList l) \<Rightarrow> Some (WList l) | _ \<Rightarrow> None),
     list_Len = (\<lambda>l. case l of WList vs \<Rightarrow> length vs | _ \<Rightarrow> 0),
     GetMapAt = (\<lambda>l i. case l of WList vs \<Rightarrow> if i < length vs then as_wmap (Some (vs ! i)) else None | _ \<Rightarrow> None)\<rparr>"

lemma mem_wire_ok: "wire_ok mem_wire"
  by (simp add: wire_ok_def mem_wire_def wfield_def as_wmap_def nth_append split: wire_value.split)

text \<open>C30 The data-plane codecs lose nothing: decoding an encoded request or reply gives it back with the
  same widths and signs, batches in order, except that the Timeout hints do not travel and an absent
  key arrives as a key with empty fields.\<close>

theorem codecs_round_trip:
  assumes "wire_ok W"
  shows "keyRequest_Decode W (keyRequest_Encode W q) = Inr (q\<lparr>kr_Key := wireKey (kr_Key q), kr_Timeout := 0\<rparr>)
    \<and> recordRequest_Decode W (recordRequest_Encode W r) = Inr (r\<lparr>rr_Key := wireKey (rr_Key r), rr_Timeout := 0\<rparr>)
    \<and> incrementRequest_Decode W (incrementRequest_Encode W i) = Inr (i\<lparr>ir_Key := wireKey (ir_Key i), ir_Timeout := 0\<rparr>)
    \<and> watchRequest_Decode W (watchRequest_Encode W w) = Inr (w\<lparr>wr_Prefix := wireKey (wr_Prefix w), wr_Timeout := 0\<rparr>)
    \<and> enumerateRequest_Decode W (enumerateRequest_Encode W e) = Inr (e\<lparr>er_Prefix := wireKey (er_Prefix e), er_Timeout := 0\<rparr>)
    \<and> batchRequest_Decode W (batchRequest_Encode W b)
      = Inr \<lparr>Records = map (\<lambda>r. r\<lparr>rr_Key := wireKey (rr_Key r), rr_Timeout := 0\<rparr>) (Records b), br_Timeout = 0\<rparr>
    \<and> record_Decode W (record_Encode W rec) = Inr (rec\<lparr>rec_Key := wireKey (rec_Key rec)\<rparr>)
    \<and> status_Decode W (status_Encode W st) = Inr st
    \<and> incrementResponse_Decode W (incrementResponse_Encode W ir) = Inr ir
    \<and> (we_Type ev \<in> {WATCH_SET, WATCH_DELETE} \<longrightarrow>
         watchEvent_Decode W (watchEvent_Encode W ev) = Inr (ev\<lparr>we_Key := wireKey (we_Key ev)\<rparr>))"
  using request_round_trips [OF assms] reply_round_trips(1-3) [OF assms] reply_round_trips(4) [OF assms, of ev]
    batch_round_trip [OF assms] by auto

theorem codecs_round_trip_witness:
  "recordRequest_Decode mem_wire (recordRequest_Encode mem_wire (sample_put node_key [1, 2]))
     = Inr (sample_put node_key [1, 2])"
  using codecs_round_trip [OF mem_wire_ok, where r = "sample_put node_key [1, 2]"]
  by (simp add: sample_put_def wireKey_def)

end
