(* ===== verification/Quorum.thy ===== *)
theory Quorum
  imports Fsm Wire Access "HOL-Library.List_Lexorder" "HOL-Library.Char_ord"
begin

text \<open>
  Quorum certificates over chain heads: checkpoints and their signatures (pkg/ledger/checkpoint.go),
  the ledger certificate authority (pkg/ledger/ca.go), node keys (pkg/ledger/bls.go), the node signer
  (pkg/ledger/signer.go), the verification helpers (pkg/ledger/verify.go), and the attestation
  service of a node (pkg/replication/ledger_service.go). The signature schemes are parameters: what
  is relied on is that genuine signatures verify and aggregate, and, where a statement is about who
  signed, that a verifying signature among those in circulation was made by the key's holder.
  The arguments formatted into an error message are left out of it.
\<close>

section \<open>Signature schemes\<close>

record ('sk, 'pk) sig_api =
  bls_PublicKey :: "'sk \<Rightarrow> 'pk"
  bls_Marshal :: "'pk \<Rightarrow> bytes result"
  bls_Unmarshal :: "bytes \<Rightarrow> 'pk result"
  bls_Validate :: "'pk \<Rightarrow> bool"
  bls_Sign :: "'sk \<Rightarrow> bytes \<Rightarrow> bytes"
  bls_Verify :: "'pk \<Rightarrow> bytes \<Rightarrow> bytes \<Rightarrow> bool"
  bls_Aggregate :: "bytes list \<Rightarrow> bytes result"
  bls_VerifyAggregate :: "'pk list \<Rightarrow> bytes list \<Rightarrow> bytes \<Rightarrow> bool"
  ed_Public :: "bytes \<Rightarrow> bytes"
  ed_Sign :: "bytes \<Rightarrow> bytes \<Rightarrow> bytes"
  ed_Verify :: "bytes \<Rightarrow> bytes \<Rightarrow> bytes \<Rightarrow> bool"

text \<open>Correctness of the schemes: key encodings of one length that read back, signatures that verify,
  aggregates of signatures over distinct messages that verify.\<close>

definition sig_ok :: "('sk, 'pk) sig_api \<Rightarrow> bool" where
  "sig_ok S \<longleftrightarrow>
     (\<forall>k. \<exists>b. bls_Marshal S (bls_PublicKey S k) = Inr b \<and> length b = 96
        \<and> bls_Unmarshal S b = Inr (bls_PublicKey S k) \<and> bls_Validate S (bls_PublicKey S k))
     \<and> (\<forall>k m. bls_Verify S (bls_PublicKey S k) m (bls_Sign S k m))
     \<and> (\<forall>ks ms. ks \<noteq> [] \<longrightarrow> length ks = length ms \<longrightarrow> distinct ms \<longrightarrow>
          (\<exists>a. bls_Aggregate S (map2 (bls_Sign S) ks ms) = Inr a
             \<and> bls_VerifyAggregate S (map (bls_PublicKey S) ks) ms a))
     \<and> (\<forall>p m. ed_Verify S (ed_Public S p) m (ed_Sign S p m))"

section \<open>Node keys (bls.go)\<close>

definition ParseNodePublicKey :: "('sk, 'pk) sig_api \<Rightarrow> bytes \<Rightarrow> 'pk result" where
  "ParseNodePublicKey S data =
     bindE (bls_Unmarshal S data) (\<lambda>pub. if \<not> bls_Validate S pub then Inl (Msg ''ledger: invalid node public key'') else Inr pub)"

definition Aggregate :: "('sk, 'pk) sig_api \<Rightarrow> bytes list \<Rightarrow> bytes result" where
  "Aggregate S sigs = (if length sigs = 0 then Inl (Msg ''ledger: no signatures to aggregate'') else bls_Aggregate S sigs)"

definition VerifyAggregate :: "('sk, 'pk) sig_api \<Rightarrow> 'pk list \<Rightarrow> bytes list \<Rightarrow> bytes \<Rightarrow> bool" where
  "VerifyAggregate S pubs msgs aggSig =
     (if length pubs = 0 \<or> length pubs \<noteq> length msgs then False else bls_VerifyAggregate S pubs msgs aggSig)"

section \<open>Certificates (ca.go)\<close>

definition domainCert :: string where "domainCert = ''cdb/ledger/nodecert/v1''"
definition domainPoP :: string where "domainPoP = ''cdb/ledger/pop/v1''"
definition domainCkpt :: string where "domainCkpt = ''cdb/ledger/checkpoint/v1''"

record NodeCert =
  nc_NodeID :: string
  nc_PublicKey :: bytes
  nc_NotAfter :: i64
  nc_CASig :: bytes

definition ParseCA :: "bytes \<Rightarrow> bytes result" where
  "ParseCA seed = (if length seed \<noteq> 32 then Inl (Msg ''ledger: CA seed must be 32 bytes'') else Inr seed)"

definition ParseCAPublicKey :: "bytes \<Rightarrow> bytes result" where
  "ParseCAPublicKey data = (if length data \<noteq> 32 then Inl (Msg ''ledger: CA public key must be 32 bytes'') else Inr data)"

definition certBody :: "string \<Rightarrow> bytes \<Rightarrow> i64 \<Rightarrow> bytes" where
  "certBody nodeID pub notAfter = bytes_of domainCert @ [0] @ bytes_of nodeID @ [0] @ pub @ be64 notAfter"

definition popMessage :: "string \<Rightarrow> bytes \<Rightarrow> bytes" where
  "popMessage nodeID pub = bytes_of domainPoP @ [0] @ bytes_of nodeID @ [0] @ pub"

definition ProofOfPossession :: "('sk, 'pk) sig_api \<Rightarrow> 'sk \<Rightarrow> string \<Rightarrow> bytes result" where
  "ProofOfPossession S key nodeID =
     bindE (bls_Marshal S (bls_PublicKey S key)) (\<lambda>pub. Inr (bls_Sign S key (popMessage nodeID pub)))"

definition Issue :: "('sk, 'pk) sig_api \<Rightarrow> bytes \<Rightarrow> string \<Rightarrow> 'pk \<Rightarrow> bytes \<Rightarrow> i64 \<Rightarrow> NodeCert result" where
  "Issue S ca nodeID nodePub pop notAfter =
     bindE (bls_Marshal S nodePub) (\<lambda>pub.
       if \<not> bls_Verify S nodePub (popMessage nodeID pub) pop then Inl (Msg ''ledger: proof-of-possession failed'')
       else Inr \<lparr>nc_NodeID = nodeID, nc_PublicKey = pub, nc_NotAfter = notAfter,
                 nc_CASig = ed_Sign S ca (certBody nodeID pub notAfter)\<rparr>)"

text \<open>\<open>None\<close> is the nil pointer.\<close>

definition CA_Verify :: "('sk, 'pk) sig_api \<Rightarrow> bytes \<Rightarrow> NodeCert option \<Rightarrow> i64 \<Rightarrow> 'pk result" where
  "CA_Verify S p crt now =
     (case crt of None \<Rightarrow> Inl (Msg ''ledger: nil cert'')
      | Some cert \<Rightarrow>
      if nc_NotAfter cert \<noteq> 0 \<and> now \<noteq> 0 \<and> sint now > sint (nc_NotAfter cert)
      then Inl (Msg ''ledger: node cert expired'')
      else if \<not> ed_Verify S p (certBody (nc_NodeID cert) (nc_PublicKey cert) (nc_NotAfter cert)) (nc_CASig cert)
      then Inl (Msg ''ledger: node cert not signed by this CA'')
      else ParseNodePublicKey S (nc_PublicKey cert))"

text \<open>Certificates by node id; a stored pointer may be nil.\<close>

type_synonym CertBundle = "string \<rightharpoonup> NodeCert option"

section \<open>Checkpoints (checkpoint.go)\<close>

record Checkpoint =
  Height :: u64
  Term :: u64
  Digest :: bytes
  Unix :: i64

definition Checkpoint_Bytes :: "Checkpoint \<Rightarrow> bytes" where
  "Checkpoint_Bytes c = be64 (Height c) @ be64 (Term c) @ Digest c @ be64 (Unix c)"

definition signMessage :: "Checkpoint \<Rightarrow> string \<Rightarrow> bytes" where
  "signMessage c nodeID = bytes_of domainCkpt @ [0] @ Checkpoint_Bytes c @ [0] @ bytes_of nodeID"

definition SignCheckpoint :: "('sk, 'pk) sig_api \<Rightarrow> 'sk \<Rightarrow> string \<Rightarrow> Checkpoint \<Rightarrow> bytes" where
  "SignCheckpoint S key nodeID c = bls_Sign S key (signMessage c nodeID)"

record QuorumCertificate =
  qc_Checkpoint :: Checkpoint
  qc_Signers :: "string list"
  qc_AggSig :: bytes

text \<open>The signature map is an association list with distinct keys.\<close>

definition BuildQuorumCertificate :: "('sk, 'pk) sig_api \<Rightarrow> Checkpoint \<Rightarrow> (string \<times> bytes) list \<Rightarrow> QuorumCertificate result" where
  "BuildQuorumCertificate S c sigs =
     (if length sigs = 0 then Inl (Msg ''ledger: no signatures for quorum certificate'')
      else let ids = sort (map fst sigs);
               ordered = map (\<lambda>i. the (map_of sigs i)) ids in
        bindE (Aggregate S ordered) (\<lambda>agg. Inr \<lparr>qc_Checkpoint = c, qc_Signers = ids, qc_AggSig = agg\<rparr>))"

text \<open>The loop over the signers: the keys and messages collected, or the error that ends it.\<close>

fun collect_signers :: "('sk, 'pk) sig_api \<Rightarrow> bytes \<Rightarrow> Checkpoint \<Rightarrow> CertBundle \<Rightarrow> i64 \<Rightarrow> string list
    \<Rightarrow> 'pk list \<Rightarrow> bytes list \<Rightarrow> string list \<Rightarrow> ('pk list \<times> bytes list) result" where
  "collect_signers S ca c certs now seen pubs msgs [] = Inr (pubs, msgs)"
| "collect_signers S ca c certs now seen pubs msgs (i # ids) =
     (if i \<in> set seen then Inl (Msg ''ledger: duplicate signer'')
      else case certs i of
        None \<Rightarrow> Inl (Msg ''ledger: no cert for signer'')
      | Some cert \<Rightarrow>
          (case CA_Verify S ca cert now of
             Inl e \<Rightarrow> Inl (Wrapped ''ledger: signer'' e)
           | Inr pub \<Rightarrow> collect_signers S ca c certs now (i # seen) (pubs @ [pub]) (msgs @ [signMessage c i]) ids))"

definition VerifyQuorum :: "('sk, 'pk) sig_api \<Rightarrow> bytes \<Rightarrow> QuorumCertificate option \<Rightarrow> CertBundle \<Rightarrow> int \<Rightarrow> i64
    \<Rightarrow> go_error option" where
  "VerifyQuorum S ca q certs threshold now =
     (case q of None \<Rightarrow> Some (Msg ''ledger: empty quorum certificate'')
      | Some qc \<Rightarrow>
      if length (qc_Signers qc) = 0 then Some (Msg ''ledger: empty quorum certificate'')
      else if int (length (qc_Signers qc)) < threshold then Some (Msg ''ledger: quorum not met'')
      else case collect_signers S ca (qc_Checkpoint qc) certs now [] [] [] (qc_Signers qc) of
        Inl e \<Rightarrow> Some e
      | Inr (pubs, msgs) \<Rightarrow>
          if \<not> VerifyAggregate S pubs msgs (qc_AggSig qc) then Some (Msg ''ledger: aggregate signature invalid'')
          else None)"

section \<open>Verification helpers (verify.go)\<close>

definition AddCert :: "NodeCert \<Rightarrow> CertBundle \<Rightarrow> CertBundle" where
  "AddCert cert b = b(nc_NodeID cert \<mapsto> Some cert)"

definition MatchesHead :: "QuorumCertificate \<Rightarrow> u64 \<Rightarrow> bytes \<Rightarrow> go_error option" where
  "MatchesHead qc index digest =
     (if Height (qc_Checkpoint qc) \<noteq> index then Some (Msg ''ledger: checkpoint height != state head'')
      else if Digest (qc_Checkpoint qc) \<noteq> digest then Some (Msg ''ledger: checkpoint digest != state head'')
      else None)"

section \<open>The node signer (signer.go)\<close>

record 'sk NodeSigner =
  ns_key :: 'sk
  ns_cert :: NodeCert

definition NewNodeSigner :: "('sk, 'pk) sig_api \<Rightarrow> 'sk \<Rightarrow> NodeCert \<Rightarrow> 'sk NodeSigner result" where
  "NewNodeSigner S key cert =
     bindE (bls_Marshal S (bls_PublicKey S key)) (\<lambda>pub.
       if pub \<noteq> nc_PublicKey cert then Inl (Msg ''ledger: node cert does not certify this key'')
       else Inr \<lparr>ns_key = key, ns_cert = cert\<rparr>)"

text \<open>\<open>ReadFile\<close> reads a path, \<open>parseKey\<close> is the private scalar decoder of the BLS library, \<open>DecodeCert\<close>
  the value decoder of a certificate.\<close>

definition LoadNodeSigner :: "('sk, 'pk) sig_api \<Rightarrow> (string \<Rightarrow> bytes result) \<Rightarrow> (bytes \<Rightarrow> 'sk result)
    \<Rightarrow> (bytes \<Rightarrow> NodeCert result) \<Rightarrow> string \<Rightarrow> string \<Rightarrow> 'sk NodeSigner result" where
  "LoadNodeSigner S ReadFile parseKey DecodeCert keyPath certPath =
     (case ReadFile keyPath of Inl e \<Rightarrow> Inl (Wrapped ''ledger: read node key'' e)
      | Inr keyBytes \<Rightarrow>
     (case parseKey keyBytes of Inl e \<Rightarrow> Inl (Wrapped ''ledger: parse node key'' e)
      | Inr key \<Rightarrow>
     (case ReadFile certPath of Inl e \<Rightarrow> Inl (Wrapped ''ledger: read node cert'' e)
      | Inr certBytes \<Rightarrow>
     (case DecodeCert certBytes of Inl e \<Rightarrow> Inl (Wrapped ''ledger: parse node cert'' e)
      | Inr cert \<Rightarrow> NewNodeSigner S key cert))))"

definition NodeSigner_Sign :: "('sk, 'pk) sig_api \<Rightarrow> 'sk NodeSigner \<Rightarrow> Checkpoint \<Rightarrow> bytes" where
  "NodeSigner_Sign S s c = SignCheckpoint S (ns_key s) (nc_NodeID (ns_cert s)) c"

section \<open>The attestation service (ledger_service.go)\<close>

record attestation =
  at_ckpt :: Checkpoint
  at_nodeID :: string
  at_sig :: bytes
  at_cert :: bytes
  at_signed :: bool

text \<open>\<open>head\<close> is the node's \<open>FSM.ChainHead()\<close>; \<open>encodeCert\<close> packs a certificate for the reply.\<close>

definition Attest :: "('sk, 'pk) sig_api \<Rightarrow> (NodeCert \<Rightarrow> bytes result) \<Rightarrow> i64 \<Rightarrow> 'sk NodeSigner option \<Rightarrow> u64 \<times> digest
    \<Rightarrow> Checkpoint option \<Rightarrow> attestation" where
  "Attest S encodeCert now signer chain want =
     (let (index, digest) = chain;
          own = \<lparr>Height = index, Term = 0, Digest = digest, Unix = now\<rparr>;
          unsigned = (\<lambda>c. \<lparr>at_ckpt = c, at_nodeID = [], at_sig = [], at_cert = [], at_signed = False\<rparr>);
          sign = (\<lambda>ckpt. case signer of
              None \<Rightarrow> unsigned ckpt
            | Some s \<Rightarrow> \<lparr>at_ckpt = ckpt, at_nodeID = nc_NodeID (ns_cert s), at_sig = NodeSigner_Sign S s ckpt,
                        at_cert = (case encodeCert (ns_cert s) of Inr raw \<Rightarrow> raw | Inl _ \<Rightarrow> []), at_signed = True\<rparr>) in
      case want of
        None \<Rightarrow> sign own
      | Some w \<Rightarrow> if Height w \<noteq> index \<or> Digest w \<noteq> digest then unsigned own else sign w)"

text \<open>The text values and the presence test \<open>m.Get(k) != nil\<close> of the value library.\<close>

record 'w text_api =
  mk_Utf8 :: "string \<Rightarrow> 'w"
  get_Utf8 :: "'w \<Rightarrow> string \<Rightarrow> string"
  map_Has :: "'w \<Rightarrow> string \<Rightarrow> bool"

definition text_ok :: "'w wire_api \<Rightarrow> 'w text_api \<Rightarrow> bool" where
  "text_ok W T \<longleftrightarrow>
     (\<forall>m k v. is_Map W m \<longrightarrow> map_Has T (map_Put W m k v) k
        \<and> (\<forall>k'. k' \<noteq> k \<longrightarrow> map_Has T (map_Put W m k v) k' = map_Has T m k'
              \<and> get_Utf8 T (map_Put W m k v) k' = get_Utf8 T m k'))
     \<and> (\<forall>m k t. is_Map W m \<longrightarrow> get_Utf8 T (map_Put W m k (mk_Utf8 T t)) k = t)"

record digestResponse =
  dr_checkpoint :: Checkpoint
  dr_nodeID :: string
  dr_signature :: bytes
  dr_cert :: bytes

definition digestCodec_Encode :: "'w wire_api \<Rightarrow> 'w text_api \<Rightarrow> digestResponse \<Rightarrow> 'w" where
  "digestCodec_Encode W T r =
     (let c = dr_checkpoint r;
          m = map_Put W (EmptyMap W) ''height'' (mk_Long W (Height c));
          m = map_Put W m ''term'' (mk_Long W (Term c));
          m = map_Put W m ''digest'' (mk_Raw W (Digest c));
          m = map_Put W m ''unix'' (mk_Long W (Unix c));
          m = map_Put W m ''node_id'' (mk_Utf8 T (dr_nodeID r));
          m = map_Put W m ''signature'' (mk_Raw W (dr_signature r))
      in map_Put W m ''cert'' (mk_Raw W (dr_cert r)))"

definition wire_checkpoint :: "'w wire_api \<Rightarrow> 'w \<Rightarrow> Checkpoint" where
  "wire_checkpoint W m = \<lparr>Height = get_Long W m ''height'', Term = get_Long W m ''term'',
     Digest = get_Raw W m ''digest'', Unix = get_Long W m ''unix''\<rparr>"

definition digestCodec_Decode :: "'w wire_api \<Rightarrow> 'w text_api \<Rightarrow> 'w \<Rightarrow> digestResponse result" where
  "digestCodec_Decode W T v =
     (if \<not> is_Map W v then Inl (Msg ''malformed digest'')
      else Inr \<lparr>dr_checkpoint = wire_checkpoint W v, dr_nodeID = get_Utf8 T v ''node_id'',
                dr_signature = get_Raw W v ''signature'', dr_cert = get_Raw W v ''cert''\<rparr>)"

definition requestedCheckpoint :: "'w wire_api \<Rightarrow> 'w text_api \<Rightarrow> 'w \<Rightarrow> Checkpoint option" where
  "requestedCheckpoint W T req =
     (if \<not> is_Map W req \<or> \<not> map_Has T req ''height'' \<or> \<not> map_Has T req ''digest'' then None
      else Some (wire_checkpoint W req))"

definition ledger_digest :: "'db runtime \<Rightarrow> 'v value_api \<Rightarrow> 'a iam_value_api \<Rightarrow> ('sk, 'pk) sig_api \<Rightarrow> (NodeCert \<Rightarrow> bytes result)
    \<Rightarrow> 'w wire_api \<Rightarrow> 'w text_api \<Rightarrow> time \<Rightarrow> 'sk NodeSigner option \<Rightarrow> string
    \<Rightarrow> PolicyService option \<times> 'db FSM \<Rightarrow> 'w \<Rightarrow> digestResponse result \<times> PolicyService option \<times> 'db FSM" where
  "ledger_digest E V A S encodeCert W T now signer princ st req =
     (case Authorize E A now (fsm_Storage (snd st)) (fst st) princ PermProofsRead [] [] of
        (Some err, pol) \<Rightarrow> (Inl err, pol, snd st)
      | (None, pol) \<Rightarrow>
          (let (chain, t) = ChainHead E V now (snd st);
               a = Attest S encodeCert (word_of_int now) signer chain (requestedCheckpoint W T req)
           in (Inr \<lparr>dr_checkpoint = at_ckpt a, dr_nodeID = at_nodeID a, dr_signature = at_sig a, dr_cert = at_cert a\<rparr>,
               pol, t)))"

section \<open>Facts\<close>

subsection \<open>Messages\<close>

lemma signMessage_inject:
  assumes "signMessage c i = signMessage c' i'" "length (Digest c) = length (Digest c')"
  shows "c = c' \<and> i = i'"
proof -
  have "Checkpoint_Bytes c @ [0] @ bytes_of i = Checkpoint_Bytes c' @ [0] @ bytes_of i'"
    using assms(1) by (simp add: signMessage_def)
  moreover have "length (Checkpoint_Bytes c) = length (Checkpoint_Bytes c')"
    using assms(2) by (simp add: Checkpoint_Bytes_def)
  ultimately have "Checkpoint_Bytes c = Checkpoint_Bytes c'" "i = i'"
    by simp_all
  then show ?thesis
    using assms(2) by (simp add: Checkpoint_Bytes_def)
qed

lemma certBody_inject:
  assumes "certBody i p t = certBody i' p' t'" "length p = length p'"
  shows "i = i' \<and> p = p' \<and> t = t'"
proof -
  have "bytes_of i @ 0 # p @ be64 t = bytes_of i' @ 0 # p' @ be64 t'"
    using assms(1) by (simp add: certBody_def)
  moreover from this have "length (bytes_of i) = length (bytes_of i')"
    using assms(2) by (metis (no_types, lifting) add_right_cancel length_append length_Cons length_be64)
  ultimately show ?thesis
    using assms(2) by simp
qed

text \<open>Nothing signed for one purpose is a message of another.\<close>

lemma domains_separate:
  "signMessage c i \<noteq> popMessage j p" "signMessage c i \<noteq> certBody j p t" "popMessage i p \<noteq> certBody j q t"
  by (simp_all add: signMessage_def popMessage_def certBody_def domainCkpt_def domainPoP_def domainCert_def
      bytes_of_def)

subsection \<open>What verification establishes\<close>

lemma collect_signers_ok:
  assumes "collect_signers S ca c certs now seen pubs msgs ids = Inr (pubs', msgs')"
  shows "distinct ids \<and> set ids \<inter> set seen = {}
    \<and> msgs' = msgs @ map (signMessage c) ids
    \<and> (\<exists>ps. pubs' = pubs @ ps \<and> list_all2 (\<lambda>i p. \<exists>cert. certs i = Some cert \<and> CA_Verify S ca cert now = Inr p) ids ps)"
  using assms
proof (induction ids arbitrary: seen pubs msgs)
  case (Cons i ids)
  then obtain cert p where i: "i \<notin> set seen" "certs i = Some cert" "CA_Verify S ca cert now = Inr p"
    and rest: "collect_signers S ca c certs now (i # seen) (pubs @ [p]) (msgs @ [signMessage c i]) ids = Inr (pubs', msgs')"
    by (auto split: if_splits option.splits sum.splits)
  from Cons.IH [OF rest] i show ?case
    by auto
qed simp

lemma collect_signers_complete:
  assumes "distinct ids" "set ids \<inter> set seen = {}"
    and "list_all2 (\<lambda>i p. \<exists>cert. certs i = Some cert \<and> CA_Verify S ca cert now = Inr p) ids ps"
  shows "collect_signers S ca c certs now seen pubs msgs ids = Inr (pubs @ ps, msgs @ map (signMessage c) ids)"
  using assms(3,1,2)
proof (induction ids ps arbitrary: seen pubs msgs rule: list_all2_induct)
  case (Cons i ids p ps)
  then show ?case by auto
qed simp

lemma VerifyQuorum_ok:
  assumes "VerifyQuorum S ca (Some qc) certs threshold now = None"
  shows "distinct (qc_Signers qc)" "threshold \<le> int (length (qc_Signers qc))" "qc_Signers qc \<noteq> []"
    and "\<exists>pubs. list_all2 (\<lambda>i p. \<exists>cert. certs i = Some cert \<and> CA_Verify S ca cert now = Inr p) (qc_Signers qc) pubs
      \<and> bls_VerifyAggregate S pubs (map (signMessage (qc_Checkpoint qc)) (qc_Signers qc)) (qc_AggSig qc)"
proof -
  from assms obtain pubs msgs where
    c: "collect_signers S ca (qc_Checkpoint qc) certs now [] [] [] (qc_Signers qc) = Inr (pubs, msgs)"
    and v: "VerifyAggregate S pubs msgs (qc_AggSig qc)"
    and th: "qc_Signers qc \<noteq> []" "threshold \<le> int (length (qc_Signers qc))"
    by (auto simp: VerifyQuorum_def split: if_splits sum.splits)
  from collect_signers_ok [OF c] v th show "distinct (qc_Signers qc)" "threshold \<le> int (length (qc_Signers qc))" "qc_Signers qc \<noteq> []"
    "\<exists>pubs. list_all2 (\<lambda>i p. \<exists>cert. certs i = Some cert \<and> CA_Verify S ca cert now = Inr p) (qc_Signers qc) pubs
      \<and> bls_VerifyAggregate S pubs (map (signMessage (qc_Checkpoint qc)) (qc_Signers qc)) (qc_AggSig qc)"
    by (auto simp: VerifyAggregate_def split: if_splits)
qed

subsection \<open>Heights\<close>

text \<open>A state with a height that every effective step raises: along one history a height names one
  state.\<close>

locale growing_head =
  fixes step :: "'e \<Rightarrow> 's \<Rightarrow> 's"
    and height :: "'s \<Rightarrow> 'i::linorder"
  assumes grows: "step e s = s \<or> height s < height (step e s)"
begin

lemma run_mono: "height s \<le> height (fold step es s)"
proof (induction es arbitrary: s)
  case (Cons e es)
  have "height s \<le> height (step e s)"
    using grows [of e s] by auto
  with Cons [of "step e s"] show ?case by simp
qed simp

lemma run_same: "height (fold step es s) = height s \<Longrightarrow> fold step es s = s"
proof (induction es arbitrary: s)
  case (Cons e es)
  have "height (step e s) \<le> height s"
    using run_mono [of "step e s" es] Cons.prems by simp
  then have "step e s = s"
    using grows [of e s] by auto
  with Cons show ?case by simp
qed simp

lemma height_names_state:
  assumes "prefix p es" "prefix q es" "height (fold step p s) = height (fold step q s)"
  shows "fold step p s = fold step q s"
proof -
  have later: "fold step a s = fold step (a @ r) s" if "height (fold step a s) = height (fold step (a @ r) s)" for a r
    using run_same [of r "fold step a s"] that by simp
  from assms(1,2) have "prefix p q \<or> prefix q p"
    using prefix_same_cases by blast
  then show ?thesis
    using later assms(3) by (metis prefixE)
qed

end

interpretation chain: growing_head advance_entry hc_index
  by unfold_locales (auto simp: advance_entry_def Advance_def)

text \<open>What a node running this program ever signs with its ledger key: attestations of a head of its
  own history \<open>es\<close>, and the proofs of possession it hands to the certificate authority.\<close>

definition node_signs :: "('sk, 'pk) sig_api \<Rightarrow> 'sk NodeSigner \<Rightarrow> raft_log list \<Rightarrow> bytes \<Rightarrow> bool" where
  "node_signs S s es m \<longleftrightarrow>
     (\<exists>p enc now want a. prefix p es \<and> a = Attest S enc now (Some s) (Chain_Head (chain_of genesis p)) want
        \<and> at_signed a \<and> m = signMessage (at_ckpt a) (nc_NodeID (ns_cert s)))
     \<or> (\<exists>i pub. m = popMessage i pub)"

lemma Attest_head:
  assumes "at_signed (Attest S enc now signer (index, digest) want)"
  shows "Height (at_ckpt (Attest S enc now signer (index, digest) want)) = index"
    "Digest (at_ckpt (Attest S enc now signer (index, digest) want)) = digest"
    "\<exists>s. signer = Some s \<and> at_sig (Attest S enc now signer (index, digest) want)
       = SignCheckpoint S (ns_key s) (nc_NodeID (ns_cert s)) (at_ckpt (Attest S enc now signer (index, digest) want))"
  using assms by (auto simp: Attest_def Let_def NodeSigner_Sign_def split: option.splits if_splits)

lemma signMessage_same_id:
  "signMessage c i = signMessage c' i \<Longrightarrow> c = c'"
  using signMessage_inject [of c i c' i] arg_cong [of "signMessage c i" "signMessage c' i" length]
  by (simp add: signMessage_def Checkpoint_Bytes_def)

lemma node_signs_head:
  assumes "node_signs S s es (signMessage c (nc_NodeID (ns_cert s)))"
  shows "\<exists>p. prefix p es \<and> Height c = hc_index (chain_of genesis p) \<and> Digest c = hc_digest (chain_of genesis p)"
proof -
  from assms obtain p enc now want a where p: "prefix p es"
    and a: "a = Attest S enc now (Some s) (Chain_Head (chain_of genesis p)) want" "at_signed a"
      "signMessage c (nc_NodeID (ns_cert s)) = signMessage (at_ckpt a) (nc_NodeID (ns_cert s))"
    unfolding node_signs_def using domains_separate(1) by blast
  have "Height (at_ckpt a) = hc_index (chain_of genesis p)" "Digest (at_ckpt a) = hc_digest (chain_of genesis p)"
    using Attest_head(1,2) [of S enc now "Some s"] a(1,2) by (auto simp: Chain_Head_def)
  with p signMessage_same_id [OF a(3)] show ?thesis by auto
qed

text \<open>Two nodes whose histories are prefixes of one log never sign different digests for one height.\<close>

lemma node_signs_agree:
  assumes "node_signs S s es (signMessage c (nc_NodeID (ns_cert s)))" "prefix es log"
    and "node_signs S s' es' (signMessage c' (nc_NodeID (ns_cert s')))" "prefix es' log"
    and "Height c = Height c'"
  shows "Digest c = Digest c'"
proof -
  obtain p q where p: "prefix p es" "Height c = hc_index (chain_of genesis p)" "Digest c = hc_digest (chain_of genesis p)"
    and q: "prefix q es'" "Height c' = hc_index (chain_of genesis q)" "Digest c' = hc_digest (chain_of genesis q)"
    using node_signs_head [OF assms(1)] node_signs_head [OF assms(3)] by blast
  have "prefix p log" "prefix q log"
    using p(1) q(1) assms(2,4) prefix_order.trans by blast+
  then have "chain_of genesis p = chain_of genesis q"
    using chain.height_names_state [of p log q genesis] p(2) q(2) assms(5) by (simp add: chain_of_def)
  with p q show ?thesis by simp
qed

subsection \<open>Who signed\<close>

text \<open>A bundle built with \<open>AddCert\<close> files every certificate under its own node id.\<close>

definition keyed :: "CertBundle \<Rightarrow> bool" where
  "keyed b \<longleftrightarrow> (\<forall>i cert. b i = Some (Some cert) \<longrightarrow> nc_NodeID cert = i)"

lemma keyed_bundle: "keyed (\<lambda>_. None)" "keyed b \<Longrightarrow> keyed (AddCert cert b)"
  by (auto simp: keyed_def AddCert_def)

text \<open>\<open>did_sign p m\<close>: the holder of key \<open>p\<close> signed \<open>m\<close>. No aggregate in \<open>known\<close> verifies for keys whose
  holders did not sign.\<close>

definition unforged :: "('sk, 'pk) sig_api \<Rightarrow> bytes set \<Rightarrow> ('pk \<Rightarrow> bytes \<Rightarrow> bool) \<Rightarrow> bool" where
  "unforged S known did_sign \<longleftrightarrow>
     (\<forall>a \<in> known. \<forall>pubs msgs. distinct msgs \<longrightarrow> bls_VerifyAggregate S pubs msgs a \<longrightarrow> list_all2 did_sign pubs msgs)"

text \<open>The authority \<open>ca\<close> certified one 96-byte key for each member and nothing else; node ids have no
  zero byte, and no shorter string is a key.\<close>

definition ca_certifies :: "('sk, 'pk) sig_api \<Rightarrow> bytes \<Rightarrow> bytes set \<Rightarrow> string set \<Rightarrow> (string \<Rightarrow> bytes) \<Rightarrow> bool" where
  "ca_certifies S ca known members key \<longleftrightarrow>
     (\<forall>sig \<in> known. \<forall>m. ed_Verify S ca m sig \<longrightarrow> (\<exists>i \<in> members. \<exists>t. m = certBody i (key i) t))
     \<and> (\<forall>i \<in> members. 0 \<notin> set (bytes_of i) \<and> length (key i) = 96)
     \<and> (\<forall>b p. bls_Unmarshal S b = Inr p \<longrightarrow> 96 \<le> length b)"

lemma certBody_member:
  assumes "certBody i p t = certBody j q u" "0 \<notin> set (bytes_of j)" "length q = 96" "96 \<le> length p"
  shows "i = j \<and> p = q"
proof -
  have eq: "bytes_of i @ 0 # p @ be64 t = bytes_of j @ 0 # q @ be64 u"
    using assms(1) by (simp add: certBody_def)
  have len: "length (bytes_of i) + length p = length (bytes_of j) + length q"
    using arg_cong [OF eq, of length] by simp
  have "\<not> length (bytes_of i) < length (bytes_of j)"
  proof
    assume less: "length (bytes_of i) < length (bytes_of j)"
    then have "bytes_of j ! length (bytes_of i) = 0"
      using arg_cong [OF eq, of "\<lambda>b. b ! length (bytes_of i)"] by (simp only: nth_append_length nth_append) simp
    then show False
      using assms(2) less nth_mem by metis
  qed
  with len assms(3,4) have "length (bytes_of i) = length (bytes_of j)" "length p = length q" by simp_all
  then show ?thesis
    using eq by simp
qed

text \<open>A verified certificate: every listed signer is a member and its certified key signed the
  checkpoint under the signer's own id.\<close>

lemma verified_signer:
  assumes "VerifyQuorum S ca (Some qc) certs threshold now = None" "keyed certs"
    and "unforged S known did_sign" "qc_AggSig qc \<in> known"
    and "ca_certifies S ca issued members key"
    and "\<forall>i cert. certs i = Some (Some cert) \<longrightarrow> nc_CASig cert \<in> issued"
    and "i \<in> set (qc_Signers qc)"
  shows "i \<in> members \<and> (\<exists>pub. ParseNodePublicKey S (key i) = Inr pub \<and> did_sign pub (signMessage (qc_Checkpoint qc) i))"
proof -
  let ?m = "signMessage (qc_Checkpoint qc)"
  obtain pubs where pubs: "list_all2 (\<lambda>i p. \<exists>cert. certs i = Some cert \<and> CA_Verify S ca cert now = Inr p) (qc_Signers qc) pubs"
    and agg: "bls_VerifyAggregate S pubs (map ?m (qc_Signers qc)) (qc_AggSig qc)"
    using VerifyQuorum_ok(4) [OF assms(1)] by blast
  have "distinct (map ?m (qc_Signers qc))"
    using VerifyQuorum_ok(1) [OF assms(1)] by (auto simp: distinct_map inj_on_def dest: signMessage_inject)
  then have all: "list_all2 did_sign pubs (map ?m (qc_Signers qc))"
    using assms(3,4) agg by (simp add: unforged_def)
  obtain k where k: "k < length (qc_Signers qc)" "qc_Signers qc ! k = i"
    using assms(7) by (auto simp: in_set_conv_nth)
  obtain crt where crt: "certs i = Some crt" "CA_Verify S ca crt now = Inr (pubs ! k)"
    using list_all2_nthD [OF pubs k(1)] k(2) by auto
  then obtain cert where cert: "crt = Some cert" "nc_NodeID cert = i"
    "ed_Verify S ca (certBody i (nc_PublicKey cert) (nc_NotAfter cert)) (nc_CASig cert)"
    "ParseNodePublicKey S (nc_PublicKey cert) = Inr (pubs ! k)"
    using assms(2) by (auto simp: CA_Verify_def keyed_def split: option.splits if_splits)
  have "nc_CASig cert \<in> issued"
    using assms(6) crt(1) cert(1) by simp
  with assms(5) cert(3) obtain j t where j: "j \<in> members" "certBody i (nc_PublicKey cert) (nc_NotAfter cert) = certBody j (key j) t"
    unfolding ca_certifies_def by blast
  have "96 \<le> length (nc_PublicKey cert)"
    using cert(4) assms(5) by (auto simp: ParseNodePublicKey_def bindE_def ca_certifies_def split: sum.splits)
  then have "i = j \<and> nc_PublicKey cert = key j"
    using certBody_member [OF j(2)] j(1) assms(5) by (simp add: ca_certifies_def)
  moreover have "did_sign (pubs ! k) (?m i)"
    using list_all2_nthD2 [OF all, of k] k by simp
  ultimately show ?thesis
    using j(1) cert(4) by auto
qed

lemma quorums_meet:
  assumes "finite members" "set xs \<subseteq> members" "set ys \<subseteq> members" "distinct xs" "distinct ys"
    and "threshold \<le> int (length xs)" "threshold \<le> int (length ys)"
    and "faulty \<subseteq> members" "int (card members + card faulty) < 2 * threshold"
  shows "\<exists>i \<in> members - faulty. i \<in> set xs \<and> i \<in> set ys"
proof (rule ccontr)
  assume none: "\<not> ?thesis"
  then have sub: "set xs \<inter> set ys \<subseteq> faulty"
    using assms(2) by blast
  have "card (set xs) + card (set ys) = card (set xs \<union> set ys) + card (set xs \<inter> set ys)"
    by (rule card_Un_Int) simp_all
  also have "\<dots> \<le> card members + card faulty"
    using assms(1,2,3,8) sub by (intro add_mono card_mono) (auto intro: finite_subset)
  finally show False
    using assms(4-7,9) by (simp add: distinct_card)
qed

subsection \<open>The digest reply\<close>

text \<open>A reply decodes to what was encoded, and sent back as a request it asks for its checkpoint.\<close>

lemma digest_round_trip:
  assumes "wire_ok W" "text_ok W T"
  shows "digestCodec_Decode W T (digestCodec_Encode W T r) = Inr r"
    and "requestedCheckpoint W T (digestCodec_Encode W T r) = Some (dr_checkpoint r)"
  using assms(2)
  by (simp_all add: digestCodec_Decode_def digestCodec_Encode_def requestedCheckpoint_def wire_checkpoint_def
      wire_maps [OF assms(1)] text_ok_def Let_def)

end
