(* ===== verification/Quorum_Props.thy ===== *)
theory Quorum_Props
  imports Quorum Access_Props
begin

text \<open>
  Properties of the verifiable ledger: two quorum certificates never disagree on a height, the
  attestations of enough nodes always make a certificate that verifies, and a certificate is good
  for exactly the key and the time it was issued for.
\<close>

section \<open>Completeness\<close>

lemma sig_okD:
  assumes "sig_ok S"
  shows "bls_Verify S (bls_PublicKey S k) m (bls_Sign S k m)"
    and "ed_Verify S (ed_Public S p) m (ed_Sign S p m)"
    and "\<exists>b. bls_Marshal S (bls_PublicKey S k) = Inr b \<and> length b = 96 \<and> ParseNodePublicKey S b = Inr (bls_PublicKey S k)"
    and "ks \<noteq> [] \<Longrightarrow> length ks = length ms \<Longrightarrow> distinct ms \<Longrightarrow>
      \<exists>a. bls_Aggregate S (map2 (bls_Sign S) ks ms) = Inr a \<and> bls_VerifyAggregate S (map (bls_PublicKey S) ks) ms a"
proof -
  have keys: "\<exists>b. bls_Marshal S (bls_PublicKey S k) = Inr b \<and> length b = 96
      \<and> bls_Unmarshal S b = Inr (bls_PublicKey S k) \<and> bls_Validate S (bls_PublicKey S k)" for k
    using assms by (simp add: sig_ok_def)
  show "\<exists>b. bls_Marshal S (bls_PublicKey S k) = Inr b \<and> length b = 96 \<and> ParseNodePublicKey S b = Inr (bls_PublicKey S k)"
    using keys [of k] by (auto simp: ParseNodePublicKey_def bindE_def)
qed (use assms in \<open>simp_all add: sig_ok_def\<close>)

text \<open>A node enrolled by the authority: its proof of possession was accepted, and the certificate it got
  is the one its signer holds.\<close>

definition enrolled :: "('sk, 'pk) sig_api \<Rightarrow> bytes \<Rightarrow> string \<Rightarrow> i64 \<Rightarrow> 'sk NodeSigner \<Rightarrow> bool" where
  "enrolled S ca i notAfter s \<longleftrightarrow>
     (\<exists>pop. ProofOfPossession S (ns_key s) i = Inr pop
        \<and> Issue S ca i (bls_PublicKey S (ns_key s)) pop notAfter = Inr (ns_cert s)
        \<and> NewNodeSigner S (ns_key s) (ns_cert s) = Inr s)"

lemma enrolled_cert:
  assumes "sig_ok S" "enrolled S ca i t s"
  shows "nc_NodeID (ns_cert s) = i" "nc_NotAfter (ns_cert s) = t"
    and "t = 0 \<or> now = 0 \<or> sint now \<le> sint t \<Longrightarrow>
      CA_Verify S (ed_Public S ca) (Some (ns_cert s)) now = Inr (bls_PublicKey S (ns_key s))"
proof -
  obtain b where b: "bls_Marshal S (bls_PublicKey S (ns_key s)) = Inr b"
    "ParseNodePublicKey S b = Inr (bls_PublicKey S (ns_key s))"
    using sig_okD(3) [OF assms(1)] by blast
  have cert: "ns_cert s = \<lparr>nc_NodeID = i, nc_PublicKey = b, nc_NotAfter = t, nc_CASig = ed_Sign S ca (certBody i b t)\<rparr>"
    using assms(2) b(1) by (auto simp: enrolled_def Issue_def bindE_def split: if_splits)
  then show "nc_NodeID (ns_cert s) = i" "nc_NotAfter (ns_cert s) = t" by simp_all
  show "CA_Verify S (ed_Public S ca) (Some (ns_cert s)) now = Inr (bls_PublicKey S (ns_key s))"
    if "t = 0 \<or> now = 0 \<or> sint now \<le> sint t"
    using that cert b(2) sig_okD(2) [OF assms(1)] by (auto simp: CA_Verify_def)
qed

lemma Build_verifies:
  assumes "sig_ok S" "ids \<noteq> []" "distinct ids" "threshold \<le> int (length ids)"
    and certs: "\<forall>i \<in> set ids. \<exists>cert. certs i = Some cert \<and> CA_Verify S ca cert now = Inr (bls_PublicKey S (key i))"
  shows "\<exists>qc. BuildQuorumCertificate S c (map (\<lambda>i. (i, SignCheckpoint S (key i) i c)) ids) = Inr qc
    \<and> qc_Checkpoint qc = c \<and> set (qc_Signers qc) = set ids \<and> VerifyQuorum S ca (Some qc) certs threshold now = None"
proof -
  let ?ids = "sort ids" and ?sigs = "map (\<lambda>i. (i, SignCheckpoint S (key i) i c)) ids"
  have nonempty: "?ids \<noteq> []"
    using assms(2) by (metis length_0_conv length_sort)
  have names: "map fst ?sigs = ids" by (simp add: comp_def)
  have ordered: "map (\<lambda>i. the (map_of ?sigs i)) ?ids = map2 (bls_Sign S) (map key ?ids) (map (signMessage c) ?ids)"
  proof (rule nth_equalityI)
    fix k assume "k < length (map (\<lambda>i. the (map_of ?sigs i)) ?ids)"
    then have "k < length ?ids" by simp
    then have "?ids ! k \<in> set ids" by (metis nth_mem set_sort)
    with \<open>k < length ?ids\<close> show "map (\<lambda>i. the (map_of ?sigs i)) ?ids ! k
        = map2 (bls_Sign S) (map key ?ids) (map (signMessage c) ?ids) ! k"
      by (simp add: map_of_map_restrict restrict_map_def SignCheckpoint_def)
  qed simp
  have dist: "distinct (map (signMessage c) ?ids)"
    using assms(3) by (auto simp: distinct_map inj_on_def dest: signMessage_inject)
  obtain a where a: "bls_Aggregate S (map2 (bls_Sign S) (map key ?ids) (map (signMessage c) ?ids)) = Inr a"
    "bls_VerifyAggregate S (map (bls_PublicKey S) (map key ?ids)) (map (signMessage c) ?ids) a"
    using sig_okD(4) [OF assms(1) _ _ dist, of "map key ?ids"] assms(2)
    by (metis length_0_conv length_map length_sort)
  have coll: "collect_signers S ca c certs now [] [] [] ?ids
      = Inr (map (bls_PublicKey S) (map key ?ids), map (signMessage c) ?ids)"
    using collect_signers_complete [of ?ids "[]" certs S ca now "map (bls_PublicKey S) (map key ?ids)" c "[]" "[]"]
      assms(3) certs by (simp add: list_all2_conv_all_nth) (metis length_sort nth_mem set_sort)
  have build: "BuildQuorumCertificate S c ?sigs = Inr \<lparr>qc_Checkpoint = c, qc_Signers = ?ids, qc_AggSig = a\<rparr>"
    using a(1) assms(2) unfolding BuildQuorumCertificate_def names Let_def ordered
    by (simp add: Aggregate_def bindE_def)
  have "VerifyQuorum S ca (Some \<lparr>qc_Checkpoint = c, qc_Signers = ?ids, qc_AggSig = a\<rparr>) certs threshold now = None"
    using coll a(2) assms(2,4) nonempty by (simp add: VerifyQuorum_def VerifyAggregate_def)
  with build show ?thesis by simp
qed

section \<open>An executable scheme\<close>

text \<open>A scheme whose signature is the key and the message, each byte escaped, so that an aggregate, the
  concatenation of signatures, can be read in one way only.\<close>

fun escape :: "bytes \<Rightarrow> bytes" where
  "escape [] = [0]"
| "escape (b # bs) = 1 # b # escape bs"

definition plain_sig :: "(byte, byte) sig_api" where
  "plain_sig = \<lparr>bls_PublicKey = (\<lambda>k. k), bls_Marshal = (\<lambda>p. Inr (replicate 96 p)),
     bls_Unmarshal = (\<lambda>b. if length b < 96 then Inl (Msg ''short'') else Inr (hd b)), bls_Validate = (\<lambda>_. True),
     bls_Sign = (\<lambda>k m. k # escape m), bls_Verify = (\<lambda>p m s. s = p # escape m),
     bls_Aggregate = (\<lambda>ss. Inr (concat ss)),
     bls_VerifyAggregate = (\<lambda>ps ms a. length ps = length ms \<and> a = concat (map2 (\<lambda>p m. p # escape m) ps ms)),
     ed_Public = (\<lambda>p. p), ed_Sign = (\<lambda>p m. p @ m), ed_Verify = (\<lambda>p m s. s = p @ m)\<rparr>"

lemma plain_sig_ok: "sig_ok plain_sig"
  by (auto simp: sig_ok_def plain_sig_def)

lemma escape_inject: "escape a @ r = escape b @ q \<Longrightarrow> a = b \<and> r = q"
proof (induction a arbitrary: b)
  case Nil
  then show ?case by (cases b) auto
next
  case (Cons x a)
  then show ?case by (cases b) auto
qed

lemma plain_concat_inject:
  assumes "concat (map2 (\<lambda>p m. p # escape m) ps ms) = concat (map2 (\<lambda>p m. p # escape m) qs ns)"
    and "length ps = length ms" "length qs = length ns"
  shows "ps = qs \<and> ms = ns"
  using assms(2,1,3)
proof (induction ps ms arbitrary: qs ns rule: list_induct2)
  case Nil
  then show ?case by (cases qs; cases ns) auto
next
  case (Cons p ps m ms)
  then obtain q qs' n ns' where qs: "qs = q # qs'" "ns = n # ns'"
    by (cases qs; cases ns) auto
  from Cons.prems qs have "p = q" "escape m @ concat (map2 (\<lambda>p m. p # escape m) ps ms)
      = escape n @ concat (map2 (\<lambda>p m. p # escape m) qs' ns')" by simp_all
  moreover from this(2) have "m = n" "concat (map2 (\<lambda>p m. p # escape m) ps ms) = concat (map2 (\<lambda>p m. p # escape m) qs' ns')"
    using escape_inject by blast+
  ultimately show ?case
    using Cons.IH [of qs' ns'] Cons.prems(2) qs by simp
qed

definition plain_agg :: "(byte \<times> bytes) list \<Rightarrow> bytes" where
  "plain_agg ss = concat (map (\<lambda>(p, m). p # escape m) ss)"

lemma plain_unforged:
  assumes "\<forall>ss \<in> runs. \<forall>(p, m) \<in> set ss. did_sign p m"
  shows "unforged plain_sig (plain_agg ` runs) did_sign"
  unfolding unforged_def
proof (intro ballI allI impI)
  fix a pubs msgs
  assume "a \<in> plain_agg ` runs" "bls_VerifyAggregate plain_sig pubs msgs a"
  then obtain ss where ss: "ss \<in> runs" "length pubs = length msgs"
    "concat (map2 (\<lambda>p m. p # escape m) pubs msgs) = plain_agg ss"
    by (auto simp: plain_sig_def)
  have "plain_agg ss = concat (map2 (\<lambda>p m. p # escape m) (map fst ss) (map snd ss))"
    by (simp add: plain_agg_def zip_map_fst_snd)
  then have "pubs = map fst ss \<and> msgs = map snd ss"
    using plain_concat_inject ss(2,3) by (metis length_map)
  with assms ss(1) show "list_all2 did_sign pubs msgs"
    by (auto simp: list_all2_conv_all_nth split_beta dest: nth_mem)
qed

text \<open>A cluster of two nodes under the authority \<open>[7]\<close>, its log of one entry.\<close>

definition pair_key :: "string \<Rightarrow> byte" where
  "pair_key i = (if i = ''a'' then 1 else 2)"

definition pair_cert :: "string \<Rightarrow> NodeCert" where
  "pair_cert i = \<lparr>nc_NodeID = i, nc_PublicKey = replicate 96 (pair_key i), nc_NotAfter = 0,
     nc_CASig = 7 # certBody i (replicate 96 (pair_key i)) 0\<rparr>"

definition pair_signer :: "string \<Rightarrow> byte NodeSigner" where
  "pair_signer i = \<lparr>ns_key = pair_key i, ns_cert = pair_cert i\<rparr>"

definition pair_certs :: CertBundle where
  "pair_certs = AddCert (pair_cert ''b'') (AddCert (pair_cert ''a'') (\<lambda>_. None))"

definition pair_log :: "raft_log list" where
  "pair_log = [\<lparr>log_Index = 1, log_Term = 1, log_Data = [3]\<rparr>]"

definition pair_ckpt :: "i64 \<Rightarrow> Checkpoint" where
  "pair_ckpt u = \<lparr>Height = 1, Term = 0, Digest = hc_digest (chain_of genesis pair_log), Unix = u\<rparr>"

definition pair_sigs :: "i64 \<Rightarrow> (byte \<times> bytes) list" where
  "pair_sigs u = [(1, signMessage (pair_ckpt u) ''a''), (2, signMessage (pair_ckpt u) ''b'')]"

definition pair_qc :: "i64 \<Rightarrow> QuorumCertificate" where
  "pair_qc u = \<lparr>qc_Checkpoint = pair_ckpt u, qc_Signers = [''a'', ''b''], qc_AggSig = plain_agg (pair_sigs u)\<rparr>"

definition pair_signed :: "byte \<Rightarrow> bytes \<Rightarrow> bool" where
  "pair_signed p m \<longleftrightarrow> node_signs plain_sig (pair_signer (if p = 1 then ''a'' else ''b'')) pair_log m"

lemma pair_verifies: "VerifyQuorum plain_sig [7] (Some (pair_qc u)) pair_certs 2 0 = None"
  by (simp add: VerifyQuorum_def pair_qc_def pair_certs_def AddCert_def CA_Verify_def pair_cert_def plain_sig_def
      ParseNodePublicKey_def bindE_def VerifyAggregate_def plain_agg_def pair_sigs_def pair_key_def)

lemma pair_node_signs: "node_signs plain_sig (pair_signer i) pair_log (signMessage (pair_ckpt u) i)"
proof -
  have head: "Chain_Head (chain_of genesis pair_log) = (1, hc_digest (chain_of genesis pair_log))"
    by (simp add: Chain_Head_def pair_log_def advance_entry_def Advance_def genesis_def NewHashChain_def)
  show ?thesis
    unfolding node_signs_def
    by (rule disjI1, rule exI [of _ pair_log], rule exI [of _ "\<lambda>_. Inr []"], rule exI [of _ 0],
        rule exI [of _ "Some (pair_ckpt u)"], rule exI, rule conjI, simp, rule conjI, rule refl)
      (simp add: Attest_def Let_def head pair_ckpt_def pair_signer_def pair_cert_def)
qed

lemma pair_unforged: "unforged plain_sig (plain_agg ` {pair_sigs 5, pair_sigs 9}) pair_signed"
  by (rule plain_unforged) (simp add: pair_sigs_def pair_signed_def pair_node_signs)

lemma pair_certifies:
  "ca_certifies plain_sig [7] (nc_CASig ` {pair_cert ''a'', pair_cert ''b''}) {''a'', ''b''} (\<lambda>i. replicate 96 (pair_key i))"
  by (auto simp: ca_certifies_def plain_sig_def pair_cert_def bytes_of_def split: if_splits)

section \<open>Properties\<close>

text \<open>C8 Two quorum certificates that verify at a threshold which outvotes the members and the faulty ones
  together never attest different digests for one height: nodes only sign heads of their own history, and
  the histories are prefixes of one log.\<close>

theorem quorum_agreement:
  assumes "VerifyQuorum S ca (Some qc) certs threshold now = None" "keyed certs" "qc_AggSig qc \<in> known"
    and "VerifyQuorum S ca (Some qc') certs' threshold now' = None" "keyed certs'" "qc_AggSig qc' \<in> known"
    and "unforged S known did_sign" "ca_certifies S ca issued members key"
    and "\<forall>i cert. certs i = Some (Some cert) \<longrightarrow> nc_CASig cert \<in> issued"
    and "\<forall>i cert. certs' i = Some (Some cert) \<longrightarrow> nc_CASig cert \<in> issued"
    and "finite members" "faulty \<subseteq> members" "int (card members + card faulty) < 2 * threshold"
    and "\<forall>i \<in> members - faulty. nc_NodeID (ns_cert (signer i)) = i \<and> prefix (hist i) log
      \<and> (\<forall>pub m. ParseNodePublicKey S (key i) = Inr pub \<longrightarrow> did_sign pub m \<longrightarrow> node_signs S (signer i) (hist i) m)"
    and "Height (qc_Checkpoint qc) = Height (qc_Checkpoint qc')"
  shows "Digest (qc_Checkpoint qc) = Digest (qc_Checkpoint qc')"
proof -
  note one = verified_signer [OF assms(1,2,7,3,8,9)] and two = verified_signer [OF assms(4,5,7,6,8,10)]
  obtain i where i: "i \<in> members - faulty" "i \<in> set (qc_Signers qc)" "i \<in> set (qc_Signers qc')"
    using quorums_meet [of members "qc_Signers qc" "qc_Signers qc'" threshold faulty] one two assms(11-13)
      VerifyQuorum_ok(1,2) [OF assms(1)] VerifyQuorum_ok(1,2) [OF assms(4)] by blast
  have "node_signs S (signer i) (hist i) (signMessage (qc_Checkpoint qc) i)"
    "node_signs S (signer i) (hist i) (signMessage (qc_Checkpoint qc') i)"
    "nc_NodeID (ns_cert (signer i)) = i" "prefix (hist i) log"
    using one [OF i(2)] two [OF i(3)] assms(14) i(1) by blast+
  then show ?thesis
    using node_signs_agree [of S "signer i" "hist i" "qc_Checkpoint qc" log "signer i" "hist i" "qc_Checkpoint qc'"]
      assms(15) by simp
qed

theorem quorum_agreement_witness:
  "Digest (qc_Checkpoint (pair_qc 5)) = Digest (qc_Checkpoint (pair_qc 9))"
proof (rule quorum_agreement [where S = plain_sig and ca = "[7]" and certs = pair_certs and certs' = pair_certs
      and threshold = 2 and now = 0 and now' = 0 and known = "plain_agg ` {pair_sigs 5, pair_sigs 9}"
      and did_sign = pair_signed and issued = "nc_CASig ` {pair_cert ''a'', pair_cert ''b''}"
      and members = "{''a'', ''b''}" and key = "\<lambda>i. replicate 96 (pair_key i)" and faulty = "{}"
      and signer = pair_signer and hist = "\<lambda>_. pair_log" and log = pair_log])
  show "keyed pair_certs" "keyed pair_certs"
    by (simp_all add: pair_certs_def keyed_bundle)
  show "\<forall>i cert. pair_certs i = Some (Some cert) \<longrightarrow> nc_CASig cert \<in> nc_CASig ` {pair_cert ''a'', pair_cert ''b''}"
    "\<forall>i cert. pair_certs i = Some (Some cert) \<longrightarrow> nc_CASig cert \<in> nc_CASig ` {pair_cert ''a'', pair_cert ''b''}"
    by (auto simp: pair_certs_def AddCert_def split: if_splits)
  show "\<forall>i \<in> {''a'', ''b''} - {}. nc_NodeID (ns_cert (pair_signer i)) = i \<and> prefix pair_log pair_log
      \<and> (\<forall>pub m. ParseNodePublicKey plain_sig (replicate 96 (pair_key i)) = Inr pub \<longrightarrow> pair_signed pub m
          \<longrightarrow> node_signs plain_sig (pair_signer i) pair_log m)"
    by (simp add: pair_signer_def pair_cert_def pair_signed_def ParseNodePublicKey_def plain_sig_def bindE_def pair_key_def)
  show "unforged plain_sig (plain_agg ` {pair_sigs 5, pair_sigs 9}) pair_signed" by (rule pair_unforged)
  show "ca_certifies plain_sig [7] (nc_CASig ` {pair_cert ''a'', pair_cert ''b''}) {''a'', ''b''} (\<lambda>i. replicate 96 (pair_key i))"
    by (rule pair_certifies)
qed (simp_all add: pair_verifies, simp_all add: pair_qc_def pair_ckpt_def)

text \<open>C25 Enough nodes at one head always yield a proof: when enrolled nodes are asked to co-sign the
  checkpoint of the head they all have, the certificate built from their replies verifies under the
  authority's public key, at any threshold up to their number, while the certificates have not expired.\<close>

theorem quorum_complete:
  assumes "sig_ok S" "ids \<noteq> []" "distinct ids" "threshold \<le> int (length ids)"
    and "\<forall>i \<in> set ids. enrolled S ca i (notAfter i) (signer i) \<and> certs i = Some (Some (ns_cert (signer i)))
      \<and> (notAfter i = 0 \<or> now = 0 \<or> sint now \<le> sint (notAfter i))"
  shows "\<exists>qc. BuildQuorumCertificate S c
      (map (\<lambda>i. (i, at_sig (Attest S enc clock (Some (signer i)) (Height c, Digest c) (Some c)))) ids) = Inr qc
    \<and> qc_Checkpoint qc = c \<and> set (qc_Signers qc) = set ids
    \<and> VerifyQuorum S (ed_Public S ca) (Some qc) certs threshold now = None"
proof -
  have id: "nc_NodeID (ns_cert (signer i)) = i"
    and cert: "CA_Verify S (ed_Public S ca) (Some (ns_cert (signer i))) now = Inr (bls_PublicKey S (ns_key (signer i)))"
    if "i \<in> set ids" for i
    using enrolled_cert(1) [OF assms(1), of ca i "notAfter i" "signer i"]
      enrolled_cert(3) [OF assms(1), of ca i "notAfter i" "signer i" now] assms(5) that by simp_all
  have sigs: "map (\<lambda>i. (i, at_sig (Attest S enc clock (Some (signer i)) (Height c, Digest c) (Some c)))) ids
      = map (\<lambda>i. (i, SignCheckpoint S (ns_key (signer i)) i c)) ids"
    by (rule map_cong) (simp_all add: Attest_def NodeSigner_Sign_def id)
  have "\<forall>i \<in> set ids. \<exists>cert. certs i = Some cert
      \<and> CA_Verify S (ed_Public S ca) cert now = Inr (bls_PublicKey S (ns_key (signer i)))"
    using cert assms(5) by simp
  then show ?thesis
    unfolding sigs by (rule Build_verifies [OF assms(1-4)])
qed

lemma pair_enrolled: "enrolled plain_sig [7] i 0 (pair_signer i)"
  by (simp add: enrolled_def ProofOfPossession_def Issue_def NewNodeSigner_def pair_signer_def pair_cert_def
      plain_sig_def bindE_def)

theorem quorum_complete_witness:
  "\<exists>qc. BuildQuorumCertificate plain_sig (pair_ckpt 5)
      (map (\<lambda>i. (i, at_sig (Attest plain_sig (\<lambda>_. Inr []) 6 (Some (pair_signer i))
         (Height (pair_ckpt 5), Digest (pair_ckpt 5)) (Some (pair_ckpt 5))))) [''b'', ''a'']) = Inr qc
    \<and> qc_Checkpoint qc = pair_ckpt 5 \<and> set (qc_Signers qc) = set [''b'', ''a'']
    \<and> VerifyQuorum plain_sig (ed_Public plain_sig [7]) (Some qc) pair_certs 2 100 = None"
  by (rule quorum_complete [where notAfter = "\<lambda>_. 0"])
    (simp_all add: plain_sig_ok pair_enrolled, simp_all add: pair_certs_def AddCert_def pair_signer_def pair_cert_def)

text \<open>A node signs no head but its own: a reply of ledger.digest carries a signature only for the height
  and digest of the node's chain, made under the node's certified id; a caller that asks for any other head
  gets the node's actual head back, unsigned.\<close>

lemma digest_signs_own_head:
  assumes "ledger_digest E V A S enc W T now signer princ (pol, t) req = (Inr r, pol', t')"
    and "ChainHead E V now t = ((index, digest), t1)"
  shows "Height (dr_checkpoint r) = index \<and> Digest (dr_checkpoint r) = digest
    \<and> (dr_signature r = [] \<and> dr_cert r = []
       \<or> (\<exists>s. signer = Some s \<and> dr_nodeID r = nc_NodeID (ns_cert s)
            \<and> dr_signature r = SignCheckpoint S (ns_key s) (nc_NodeID (ns_cert s)) (dr_checkpoint r)))
    \<and> (\<forall>w. requestedCheckpoint W T req = Some w \<longrightarrow> (Height w, Digest w) \<noteq> (index, digest) \<longrightarrow> dr_signature r = [])"
proof -
  let ?a = "Attest S enc (word_of_int now) signer (index, digest) (requestedCheckpoint W T req)"
  have r: "r = \<lparr>dr_checkpoint = at_ckpt ?a, dr_nodeID = at_nodeID ?a, dr_signature = at_sig ?a, dr_cert = at_cert ?a\<rparr>"
    using assms(1) by (simp add: ledger_digest_def assms(2) Let_def split: prod.splits option.splits)
  show ?thesis
    unfolding r
    by (cases "requestedCheckpoint W T req"; cases signer) (simp_all add: Attest_def NodeSigner_Sign_def Let_def)
qed

definition mem_text :: "wire_value text_api" where
  "mem_text = \<lparr>mk_Utf8 = (\<lambda>t. WRaw (bytes_of t)),
     get_Utf8 = (\<lambda>m k. case wfield m k of Some (WRaw b) \<Rightarrow> string_of b | _ \<Rightarrow> []),
     map_Has = (\<lambda>m k. wfield m k \<noteq> None)\<rparr>"

lemma mem_text_ok: "text_ok mem_wire mem_text"
  by (simp add: text_ok_def mem_text_def mem_wire_def wfield_def split: wire_value.split)

definition pair_request :: "Checkpoint \<Rightarrow> wire_value" where
  "pair_request c = digestCodec_Encode mem_wire mem_text \<lparr>dr_checkpoint = c, dr_nodeID = [], dr_signature = [], dr_cert = []\<rparr>"

text \<open>A node at the genesis head, asked for the head of \<open>pair_log\<close>: it answers with its own, unsigned.\<close>

end
