(* ===== verification/Container.thy ===== *)
theory Container
  imports Password
begin

text \<open>
  The backup container of pkg/backup/crypto.go: the header, the plain mode, and the encrypted mode, a
  sequence of sealed frames the last of which is marked final. The cipher (AES-256-GCM) and the key
  derivation are parameters, random bytes are arguments, and so is the destination of the writer, any
  function that says what a write of a block leaves behind. A source is its bytes and the error that
  follows them, if it does not simply end. The lemmas: written frames read back, an arbitrary source
  gives at most a leading part of what was sealed, and every cut of a dump is noticed.
\<close>

section \<open>The cipher\<close>

text \<open>\<open>NewCipher\<close> is \<open>aes.NewCipher\<close> with \<open>cipher.NewGCM\<close>, which cannot fail on an AES block.\<close>

record aead_api =
  NewCipher :: "bytes \<Rightarrow> go_error option"
  aead_Seal :: "bytes \<Rightarrow> bytes \<Rightarrow> bytes \<Rightarrow> bytes"
  aead_Open :: "bytes \<Rightarrow> bytes \<Rightarrow> bytes \<Rightarrow> bytes option"

definition aead_ok :: "aead_api \<Rightarrow> bool" where
  "aead_ok G \<longleftrightarrow>
     (\<forall>k. length k = 32 \<longrightarrow> NewCipher G k = None)
     \<and> (\<forall>k n p. length n = 12 \<longrightarrow>
          aead_Open G k n (aead_Seal G k n p) = Some p \<and> length (aead_Seal G k n p) = length p + 16)"

section \<open>Header and nonce\<close>

definition magic :: string where "magic = ''CDBBAK''"
definition formatVer :: byte where "formatVer = 1"
definition modePlain :: byte where "modePlain = 0"
definition modeEncrypt :: byte where "modeEncrypt = 1"
definition chunkSize :: nat where "chunkSize = 64 * 1024"
definition saltLen :: nat where "saltLen = 16"
definition noncePfxLen :: nat where "noncePfxLen = 4"
definition keyLen :: nat where "keyLen = 32"
definition lastFlagBit :: nat where "lastFlagBit = 2 ^ 31"
definition argonMemKiB :: nat where "argonMemKiB = 64 * 1024"
definition argonTimeCost :: nat where "argonTimeCost = 3"
definition dump_argonThreads :: nat where "dump_argonThreads = 4"

definition header :: "byte \<Rightarrow> bytes \<Rightarrow> bytes \<Rightarrow> bytes" where
  "header mode salt noncePfx =
     bytes_of magic @ [formatVer, mode]
     @ (if mode = modeEncrypt
        then be_bytes 4 argonMemKiB @ be_bytes 4 argonTimeCost @ [of_nat dump_argonThreads, of_nat (length salt)]
             @ salt @ noncePfx
        else [])"

definition newAEAD :: "aead_api \<Rightarrow> argon_api \<Rightarrow> string \<Rightarrow> bytes \<Rightarrow> bytes result" where
  "newAEAD G A password salt =
     bindE (IDKey A (bytes_of password) salt (of_nat argonTimeCost) (of_nat argonMemKiB) (of_nat dump_argonThreads) keyLen)
       (\<lambda>key. case NewCipher G key of Some e \<Rightarrow> Inl e | None \<Rightarrow> Inr key)"

text \<open>\<open>copy\<close> into the zeroed 12 bytes: prefix, the low seven bytes of the counter, the finality flag.\<close>

definition nonce :: "bytes \<Rightarrow> u64 \<Rightarrow> bool \<Rightarrow> bytes" where
  "nonce noncePfx counter fin =
     take noncePfxLen (noncePfx @ replicate noncePfxLen 0) @ tl (be64 counter) @ [if fin then 1 else 0]"

lemma length_nonce [simp]: "length (nonce pfx c fin) = 12"
  by (simp add: nonce_def noncePfxLen_def)

section \<open>Writers\<close>

text \<open>\<open>dst out b\<close> is the outcome of writing \<open>b\<close> to a destination that holds \<open>out\<close>.\<close>

type_synonym dst = "bytes \<Rightarrow> bytes \<Rightarrow> go_error option \<times> bytes"

definition dst_ok :: "dst \<Rightarrow> bool" where
  "dst_ok dst \<longleftrightarrow> (\<forall>out b. fst (dst out b) = None \<longrightarrow> snd (dst out b) = out @ b)"

record encWriter =
  ew_aead :: bytes
  ew_noncePfx :: bytes
  ew_counter :: u64
  ew_buf :: bytes
  ew_closed :: bool

datatype writer = PlainWriter | EncWriter encWriter

definition seal :: "aead_api \<Rightarrow> dst \<Rightarrow> bool \<Rightarrow> encWriter \<times> bytes \<Rightarrow> go_error option \<times> encWriter \<times> bytes" where
  "seal G dst fin st =
     (let (w, out) = st;
          ct = aead_Seal G (ew_aead w) (nonce (ew_noncePfx w) (ew_counter w) fin) (ew_buf w);
          w = w\<lparr>ew_counter := ew_counter w + 1, ew_buf := []\<rparr>;
          hdr = (word_of_nat (length ct) :: u32);
          hdr = (if fin then or hdr (word_of_nat lastFlagBit) else hdr) in
      case dst out (be_bytes 4 (unat hdr)) of
        (Some e, out) \<Rightarrow> (Some e, w, out)
      | (None, out) \<Rightarrow> (let (err, out) = dst out ct in (err, w, out)))"

text \<open>The loop of \<open>Write\<close>. A buffer beyond the chunk size would make the slice bound negative.\<close>

function write_loop :: "aead_api \<Rightarrow> dst \<Rightarrow> encWriter \<times> bytes \<Rightarrow> bytes \<Rightarrow> go_error option \<times> encWriter \<times> bytes" where
  "write_loop G dst (w, out) p =
     (if p = [] then (None, w, out)
      else if chunkSize < length (ew_buf w) then (Some Panic, w, out)
      else
        let n = min (length p) (chunkSize - length (ew_buf w));
            w' = w\<lparr>ew_buf := ew_buf w @ take n p\<rparr> in
        if length (ew_buf w') = chunkSize
        then (case seal G dst False (w', out) of
                (Some e, st) \<Rightarrow> (Some e, st)
              | (None, st) \<Rightarrow> write_loop G dst (fst st, snd st) (drop n p))
        else write_loop G dst (w', out) (drop n p))"
  by pat_completeness auto

lemma seal_buf: "seal G dst fin (w, out) = (err, st) \<Longrightarrow> ew_buf (fst st) = []"
  by (auto simp: seal_def Let_def split: prod.splits option.splits)

termination write_loop
  by (relation "measures [\<lambda>(G, dst, st, p). length p, \<lambda>(G, dst, st, p). length (ew_buf (fst st))]")
    (auto simp: min_def chunkSize_def dest!: seal_buf [OF sym] split: if_splits)

declare write_loop.simps [simp del]

definition encWriter_Write :: "aead_api \<Rightarrow> dst \<Rightarrow> encWriter \<times> bytes \<Rightarrow> bytes \<Rightarrow> nat result \<times> encWriter \<times> bytes" where
  "encWriter_Write G dst st p =
     (if ew_closed (fst st) then (Inl (Msg ''backup: write after close''), st)
      else case write_loop G dst st p of
        (Some e, st) \<Rightarrow> (Inl e, st)
      | (None, st) \<Rightarrow> (Inr (length p), st))"

definition encWriter_Close :: "aead_api \<Rightarrow> dst \<Rightarrow> encWriter \<times> bytes \<Rightarrow> go_error option \<times> encWriter \<times> bytes" where
  "encWriter_Close G dst st =
     (if ew_closed (fst st) then (None, st)
      else seal G dst True ((fst st)\<lparr>ew_closed := True\<rparr>, snd st))"

text \<open>\<open>salt\<close> and \<open>pfx\<close> are what \<open>rand.Read\<close> yields.\<close>

definition NewWriter :: "aead_api \<Rightarrow> argon_api \<Rightarrow> bytes result \<Rightarrow> bytes result \<Rightarrow> dst \<Rightarrow> bytes \<Rightarrow> string
    \<Rightarrow> writer result \<times> bytes" where
  "NewWriter G A salt pfx dst out password =
     (if password = [] then
        (case dst out (header modePlain [] []) of
           (Some e, out) \<Rightarrow> (Inl e, out)
         | (None, out) \<Rightarrow> (Inr PlainWriter, out))
      else case salt of Inl e \<Rightarrow> (Inl e, out) | Inr salt \<Rightarrow>
        (case pfx of Inl e \<Rightarrow> (Inl e, out) | Inr noncePfx \<Rightarrow>
        (case newAEAD G A password salt of Inl e \<Rightarrow> (Inl e, out) | Inr aead \<Rightarrow>
        (case dst out (header modeEncrypt salt noncePfx) of
           (Some e, out) \<Rightarrow> (Inl e, out)
         | (None, out) \<Rightarrow>
             (Inr (EncWriter \<lparr>ew_aead = aead, ew_noncePfx = noncePfx, ew_counter = 0, ew_buf = [], ew_closed = False\<rparr>),
              out)))))"

definition writer_Write :: "aead_api \<Rightarrow> dst \<Rightarrow> writer \<times> bytes \<Rightarrow> bytes \<Rightarrow> go_error option \<times> writer \<times> bytes" where
  "writer_Write G dst st p =
     (case fst st of
        PlainWriter \<Rightarrow> (let (err, out) = dst (snd st) p in (err, PlainWriter, out))
      | EncWriter w \<Rightarrow>
          (case encWriter_Write G dst (w, snd st) p of
             (Inl e, w, out) \<Rightarrow> (Some e, EncWriter w, out)
           | (Inr _, w, out) \<Rightarrow> (None, EncWriter w, out)))"

definition writer_Close :: "aead_api \<Rightarrow> dst \<Rightarrow> writer \<times> bytes \<Rightarrow> go_error option \<times> writer \<times> bytes" where
  "writer_Close G dst st =
     (case fst st of
        PlainWriter \<Rightarrow> (None, st)
      | EncWriter w \<Rightarrow> (let (err, w, out) = encWriter_Close G dst (w, snd st) in (err, EncWriter w, out)))"

section \<open>Readers\<close>

text \<open>A source: the bytes left and the error met after them, \<open>None\<close> for the end of the file.\<close>

type_synonym src = "bytes \<times> go_error option"

definition EOF :: go_error where "EOF = Msg ''EOF''"
definition ErrUnexpectedEOF :: go_error where "ErrUnexpectedEOF = Msg ''unexpected EOF''"

definition ReadFull :: "nat \<Rightarrow> src \<Rightarrow> bytes result \<times> src" where
  "ReadFull n src =
     (if n \<le> length (fst src) then (Inr (take n (fst src)), (drop n (fst src), snd src))
      else (Inl (case snd src of Some e \<Rightarrow> e | None \<Rightarrow> if fst src = [] then EOF else ErrUnexpectedEOF), ([], snd src)))"

record encReader =
  er_src :: src
  er_aead :: bytes
  er_noncePfx :: bytes
  er_counter :: u64
  er_plain :: bytes
  er_done :: bool

datatype reader = PlainReader src | EncReader encReader

definition newEncReader :: "aead_api \<Rightarrow> argon_api \<Rightarrow> src \<Rightarrow> string \<Rightarrow> encReader result" where
  "newEncReader G A src password =
     (case ReadFull 10 src of (Inl e, _) \<Rightarrow> Inl (Wrapped ''backup: read kdf params'' e)
      | (Inr head, src) \<Rightarrow>
        (let memKiB = (of_nat (be_nat (take 4 head)) :: u32);
             timeCost = (of_nat (be_nat (take 4 (drop 4 head))) :: u32);
             threads = head ! 8;
             sl = unat (head ! 9) in
         case ReadFull (sl + noncePfxLen) src of (Inl e, _) \<Rightarrow> Inl (Wrapped ''backup: read salt'' e)
         | (Inr rest, src) \<Rightarrow>
             bindE (IDKey A (bytes_of password) (take sl rest) timeCost memKiB threads keyLen) (\<lambda>key.
               case NewCipher G key of Some e \<Rightarrow> Inl e
               | None \<Rightarrow> Inr \<lparr>er_src = src, er_aead = key, er_noncePfx = drop sl rest, er_counter = 0,
                              er_plain = [], er_done = False\<rparr>)))"

definition NewReader :: "aead_api \<Rightarrow> argon_api \<Rightarrow> src \<Rightarrow> string \<Rightarrow> reader result" where
  "NewReader G A src password =
     (case ReadFull (length magic + 2) src of (Inl e, _) \<Rightarrow> Inl (Wrapped ''backup: read header'' e)
      | (Inr head, src) \<Rightarrow>
        if take (length magic) head \<noteq> bytes_of magic then Inl (Msg ''backup: not a consensusdb dump (bad magic)'')
        else if head ! length magic \<noteq> formatVer then Inl (Msg ''backup: unsupported format version'')
        else if head ! (length magic + 1) = modePlain then
          (if password \<noteq> [] then Inl (Msg ''backup: dump is not encrypted, no password needed'')
           else Inr (PlainReader src))
        else if head ! (length magic + 1) = modeEncrypt then
          (if password = [] then Inl (Msg ''backup: dump is encrypted, a password is required'')
           else bindE (newEncReader G A src password) (\<lambda>r. Inr (EncReader r)))
        else Inl (Msg ''backup: unknown mode''))"

definition encReader_next :: "aead_api \<Rightarrow> encReader \<Rightarrow> go_error option \<times> encReader" where
  "encReader_next G r =
     (case ReadFull 4 (er_src r) of
        (Inl e, src) \<Rightarrow>
          (Some (if e = EOF \<or> e = ErrUnexpectedEOF then Msg ''backup: truncated dump (no final chunk)'' else e),
           r\<lparr>er_src := src\<rparr>)
      | (Inr h, src) \<Rightarrow>
          (let hdr = be_nat h; fin = (lastFlagBit \<le> hdr) in
           case ReadFull (hdr mod lastFlagBit) src of
             (Inl e, src) \<Rightarrow> (Some (Wrapped ''backup: truncated frame'' e), r\<lparr>er_src := src\<rparr>)
           | (Inr ct, src) \<Rightarrow>
               (case aead_Open G (er_aead r) (nonce (er_noncePfx r) (er_counter r) fin) ct of
                  None \<Rightarrow> (Some (Msg ''backup: decryption failed (wrong password or corrupt dump)''), r\<lparr>er_src := src\<rparr>)
                | Some pt \<Rightarrow>
                    (None, r\<lparr>er_src := src, er_counter := er_counter r + 1, er_plain := pt,
                             er_done := (fin \<or> er_done r)\<rparr>))))"

lemma next_consumes: "encReader_next G r = (None, r') \<Longrightarrow> length (fst (er_src r')) < length (fst (er_src r))"
  by (auto simp: encReader_next_def ReadFull_def Let_def split: prod.splits sum.splits option.splits if_splits)

text \<open>The loop of \<open>Read\<close> that looks for plaintext; \<open>Some EOF\<close> ends the stream.\<close>

function fill :: "aead_api \<Rightarrow> encReader \<Rightarrow> go_error option \<times> encReader" where
  "fill G r =
     (if er_plain r \<noteq> [] then (None, r)
      else if er_done r then (Some EOF, r)
      else case encReader_next G r of
        (Some e, r) \<Rightarrow> (Some e, r)
      | (None, r) \<Rightarrow> fill G r)"
  by pat_completeness auto

termination fill
  by (relation "measure (\<lambda>(G, r). length (fst (er_src r)))") (auto dest: next_consumes [OF sym])

declare fill.simps [simp del]

text \<open>\<open>Read\<close> into a buffer of \<open>n\<close> bytes.\<close>

definition encReader_Read :: "aead_api \<Rightarrow> nat \<Rightarrow> encReader \<Rightarrow> bytes \<times> go_error option \<times> encReader" where
  "encReader_Read G n r =
     (case fill G r of
        (Some e, r) \<Rightarrow> ([], Some e, r)
      | (None, r) \<Rightarrow> (take n (er_plain r), None, r\<lparr>er_plain := drop n (er_plain r)\<rparr>))"

text \<open>\<open>Read\<close> of the reader \<open>NewReader\<close> returns; in plain mode it is the source itself, read in full
  buffers.\<close>

definition reader_Read :: "aead_api \<Rightarrow> nat \<Rightarrow> reader \<Rightarrow> bytes \<times> go_error option \<times> reader" where
  "reader_Read G n rd =
     (case rd of
        PlainReader src \<Rightarrow>
          (if fst src = [] then ([], Some (case snd src of Some e \<Rightarrow> e | None \<Rightarrow> EOF), rd)
           else (take n (fst src), None, PlainReader (drop n (fst src), snd src)))
      | EncReader r \<Rightarrow> (let (b, err, r) = encReader_Read G n r in (b, err, EncReader r)))"

section \<open>Facts\<close>

subsection \<open>Nonces\<close>

lemma be_bytes_Cons: "be_bytes (Suc k) n = word_of_nat (n div 256 ^ k mod 256) # be_bytes k n"
proof (induction k arbitrary: n)
  case (Suc k)
  have "be_bytes (Suc (Suc k)) n = be_bytes (Suc k) (n div 256) @ [word_of_nat (n mod 256)]"
    by simp
  also have "\<dots> = word_of_nat (n div 256 div 256 ^ k mod 256) # be_bytes k (n div 256) @ [word_of_nat (n mod 256)]"
    by (simp only: Suc.IH append_Cons)
  finally show ?case
    by (simp add: div_mult2_eq [symmetric])
qed simp

lemma tl_be64: "tl (be64 c) = be_bytes 7 (unat c)"
proof -
  have "(8 :: nat) = Suc 7" by simp
  then show ?thesis
    by (simp only: be64_def be_bytes_Cons list.sel)
qed

text \<open>A dump of fewer than \<open>2 ^ 56\<close> chunks never seals two frames under one nonce.\<close>

lemma nonce_inject:
  assumes "nonce pfx c fin = nonce pfx c' fin'" "unat c < 2 ^ 56" "unat c' < 2 ^ 56"
  shows "c = c' \<and> fin = fin'"
proof -
  have eq: "be_bytes 7 (unat c) @ [if fin then 1 else 0] = be_bytes 7 (unat c') @ [if fin' then 1 else (0 :: byte)]"
    using assms(1) by (simp add: nonce_def tl_be64)
  then have "be_bytes 7 (unat c) = be_bytes 7 (unat c')" by simp
  then have "unat c = unat c'"
    using be_bytes_inject [of "unat c" 7 "unat c'"] assms(2,3) by simp
  then have "c = c'" by (rule unsigned_word_eqI)
  with eq show ?thesis
    by (auto split: if_splits)
qed

subsection \<open>Frames\<close>

definition frame :: "aead_api \<Rightarrow> bytes \<Rightarrow> bytes \<Rightarrow> u64 \<Rightarrow> bool \<Rightarrow> bytes \<Rightarrow> bytes" where
  "frame G key pfx i fin chunk =
     be_bytes 4 (length chunk + 16 + (if fin then 2 ^ 31 else 0)) @ aead_Seal G key (nonce pfx i fin) chunk"

fun frames :: "aead_api \<Rightarrow> bytes \<Rightarrow> bytes \<Rightarrow> u64 \<Rightarrow> bytes list \<Rightarrow> bytes" where
  "frames G key pfx i [] = []"
| "frames G key pfx i (c # cs) = frame G key pfx i False c @ frames G key pfx (i + 1) cs"

lemma frames_append:
  "frames G key pfx i (cs @ ds) = frames G key pfx i cs @ frames G key pfx (i + of_nat (length cs)) ds"
  by (induction cs arbitrary: i) (simp_all add: algebra_simps)

lemma flagged_header:
  assumes "n < 2 ^ 31"
  shows "unat (or (word_of_nat n) (word_of_nat lastFlagBit) :: u32) = n + 2 ^ 31"
proof -
  have bits: "\<not> bit (word_of_nat n :: u32) k \<or> \<not> bit (word_of_nat lastFlagBit :: u32) k" for k
  proof (cases "k = 31")
    case True
    have "\<not> bit n 31"
      using assms by (simp add: bit_iff_odd)
    with True show ?thesis by (simp add: bit_simps)
  next
    case False
    then have "\<not> bit (2 ^ 31 :: u32) k"
      by (simp only: bit_exp_iff) simp
    then show ?thesis
      by (simp add: lastFlagBit_def)
  qed
  have "or (word_of_nat n) (word_of_nat lastFlagBit) = (word_of_nat n + word_of_nat lastFlagBit :: u32)"
    by (rule disjunctive_add [symmetric]) (rule bits)
  also have "\<dots> = word_of_nat (n + 2 ^ 31)"
    by (simp add: lastFlagBit_def)
  finally show ?thesis
    using assms by (simp only: unat_of_nat) simp
qed

lemma seal_frame:
  assumes "aead_ok G" "dst_ok dst" "length (ew_buf w) \<le> chunkSize" "seal G dst fin (w, out) = (None, w', out')"
  shows "w' = w\<lparr>ew_counter := ew_counter w + 1, ew_buf := []\<rparr>"
    and "out' = out @ frame G (ew_aead w) (ew_noncePfx w) (ew_counter w) fin (ew_buf w)"
proof -
  let ?ct = "aead_Seal G (ew_aead w) (nonce (ew_noncePfx w) (ew_counter w) fin) (ew_buf w)"
  let ?hdr = "if fin then or (word_of_nat (length ?ct)) (word_of_nat lastFlagBit) else (word_of_nat (length ?ct) :: u32)"
  have len: "length ?ct = length (ew_buf w) + 16" "length ?ct < 2 ^ 31"
    using assms(1,3) by (simp_all add: aead_ok_def chunkSize_def)
  have hdr: "unat ?hdr = length (ew_buf w) + 16 + (if fin then 2 ^ 31 else 0)"
  proof (cases fin)
    case True
    then show ?thesis using flagged_header [OF len(2)] len(1) by simp
  next
    case False
    have "unat (word_of_nat (length ?ct) :: u32) = length ?ct"
      using len(2) by (simp only: unat_of_nat) simp
    with False len(1) show ?thesis by simp
  qed
  have step: "dst o' b = (None, o'') \<Longrightarrow> o'' = o' @ b" for o' b o''
    using assms(2) unfolding dst_ok_def by (metis fst_conv snd_conv)
  have sealed: "seal G dst fin (w, out) = (case dst out (be_bytes 4 (unat ?hdr)) of
      (Some e, o1) \<Rightarrow> (Some e, w\<lparr>ew_counter := ew_counter w + 1, ew_buf := []\<rparr>, o1)
    | (None, o1) \<Rightarrow> (let (err, o2) = dst o1 ?ct in (err, w\<lparr>ew_counter := ew_counter w + 1, ew_buf := []\<rparr>, o2)))"
    by (simp only: seal_def Let_def prod.case)
  obtain e1 o1 where d1: "dst out (be_bytes 4 (unat ?hdr)) = (e1, o1)" by fastforce
  obtain e2 o2 where d2: "dst o1 ?ct = (e2, o2)" by fastforce
  have "e1 = None" "e2 = None" "o2 = out'" "w' = w\<lparr>ew_counter := ew_counter w + 1, ew_buf := []\<rparr>"
    using assms(4) unfolding sealed d1 by (simp_all add: d2 split: option.splits)
  with d1 d2 have "dst out (be_bytes 4 (unat ?hdr)) = (None, o1)" "dst o1 ?ct = (None, out')"
    and "w' = w\<lparr>ew_counter := ew_counter w + 1, ew_buf := []\<rparr>" by simp_all
  then show "w' = w\<lparr>ew_counter := ew_counter w + 1, ew_buf := []\<rparr>"
    "out' = out @ frame G (ew_aead w) (ew_noncePfx w) (ew_counter w) fin (ew_buf w)"
    using step [of out "be_bytes 4 (unat ?hdr)" o1] step [of o1 ?ct out'] unfolding hdr frame_def by simp_all
qed

lemma length_frame: "aead_ok G \<Longrightarrow> length (frame G key pfx i fin c) = length c + 20"
  by (simp add: frame_def aead_ok_def)

text \<open>What the written stream is: every full chunk as a frame, and the rest in the buffer.\<close>

definition written :: "aead_api \<Rightarrow> bytes \<Rightarrow> encWriter \<times> bytes \<Rightarrow> bytes \<Rightarrow> bool" where
  "written G base st data \<longleftrightarrow>
     (\<exists>cs. (\<forall>c \<in> set cs. length c = chunkSize) \<and> concat cs @ ew_buf (fst st) = data
        \<and> snd st = base @ frames G (ew_aead (fst st)) (ew_noncePfx (fst st)) 0 cs
        \<and> ew_counter (fst st) = of_nat (length cs)) \<and> length (ew_buf (fst st)) < chunkSize"

lemma written_seal:
  assumes "aead_ok G" "dst_ok dst" "(\<forall>c \<in> set cs. length c = chunkSize)" "concat cs @ ew_buf w = data"
    and "out = base @ frames G (ew_aead w) (ew_noncePfx w) 0 cs" "ew_counter w = of_nat (length cs)"
    and "length (ew_buf w) = chunkSize" "seal G dst False (w, out) = (None, w', out')"
  shows "written G base (w', out') data \<and> ew_aead w' = ew_aead w \<and> ew_noncePfx w' = ew_noncePfx w \<and> ew_closed w' = ew_closed w"
proof -
  note f = seal_frame [OF assms(1,2) eq_refl [OF assms(7)] assms(8)]
  have "\<exists>ds. (\<forall>c \<in> set ds. length c = chunkSize) \<and> concat ds = data
      \<and> out' = base @ frames G (ew_aead w) (ew_noncePfx w) 0 ds \<and> ew_counter w + 1 = of_nat (length ds)"
    by (rule exI [of _ "cs @ [ew_buf w]"]) (use assms(3-7) f(2) in \<open>auto simp: frames_append\<close>)
  then show ?thesis
    using f(1) by (simp add: written_def chunkSize_def)
qed

lemma write_loop_written:
  assumes "aead_ok G" "dst_ok dst" "written G base (w, out) data" "write_loop G dst (w, out) p = (None, w', out')"
  shows "written G base (w', out') (data @ p) \<and> ew_aead w' = ew_aead w \<and> ew_noncePfx w' = ew_noncePfx w
    \<and> ew_closed w' = ew_closed w"
  using assms
proof (induction G dst "(w, out)" p arbitrary: w out data rule: write_loop.induct)
  case (1 G dst w out p)
  define n where "n = min (length p) (chunkSize - length (ew_buf w))"
  define w1 where "w1 = w\<lparr>ew_buf := ew_buf w @ take n p\<rparr>"
  have lt: "length (ew_buf w) < chunkSize" and not_over: "\<not> chunkSize < length (ew_buf w)"
    using "1.prems"(3) by (simp_all add: written_def)
  obtain cs where cs: "\<forall>c \<in> set cs. length c = chunkSize" "concat cs @ ew_buf w = data"
    "out = base @ frames G (ew_aead w) (ew_noncePfx w) 0 cs" "ew_counter w = of_nat (length cs)"
    using "1.prems"(3) by (auto simp: written_def)
  show ?case
  proof (cases "p = []")
    case True
    then show ?thesis
      using "1.prems"(3,4) by (simp add: write_loop.simps [of G dst w out "[]"])
  next
    case False
    have unfolded: "write_loop G dst (w, out) p =
        (if length (ew_buf w1) = chunkSize
         then (case seal G dst False (w1, out) of
                 (Some e, st) \<Rightarrow> (Some e, st)
               | (None, st) \<Rightarrow> write_loop G dst (fst st, snd st) (drop n p))
         else write_loop G dst (w1, out) (drop n p))"
      by (subst write_loop.simps) (simp only: False not_over if_False Let_def n_def w1_def)
    show ?thesis
    proof (cases "length (ew_buf w1) = chunkSize")
      case True
      then obtain w2 out2 where seal: "seal G dst False (w1, out) = (None, w2, out2)"
        and rest: "write_loop G dst (w2, out2) (drop n p) = (None, w', out')"
        using "1.prems"(4) unfolded by (auto split: prod.splits option.splits)
      have step: "written G base (w2, out2) (data @ take n p) \<and> ew_aead w2 = ew_aead w1 \<and> ew_noncePfx w2 = ew_noncePfx w1
          \<and> ew_closed w2 = ew_closed w1"
        by (rule written_seal [OF "1.prems"(1,2) cs(1) _ _ _ True seal]) (use cs in \<open>simp_all add: w1_def\<close>)
      have "written G base (w', out') ((data @ take n p) @ drop n p) \<and> ew_aead w' = ew_aead w2
          \<and> ew_noncePfx w' = ew_noncePfx w2 \<and> ew_closed w' = ew_closed w2"
        using "1.hyps"(1) [OF False not_over n_def w1_def True seal [symmetric] refl "1.prems"(1,2), of "data @ take n p"]
          step rest by simp
      with step show ?thesis by (simp add: w1_def)
    next
      case part: False
      have "length (ew_buf w1) < chunkSize"
        using part lt by (auto simp: w1_def n_def min_def split: if_splits)
      then have "written G base (w1, out) (data @ take n p)"
        using cs by (auto simp: written_def w1_def)
      from "1.hyps"(2) [OF False not_over n_def w1_def part "1.prems"(1,2) this] show ?thesis
        using "1.prems"(4) part unfolded by (simp add: w1_def)
    qed
  qed
qed

subsection \<open>Reading\<close>

text \<open>All that a reader still yields, and the error it ends with; \<open>None\<close> is the regular end.\<close>

function drain :: "aead_api \<Rightarrow> encReader \<Rightarrow> bytes \<times> go_error option" where
  "drain G r =
     (if er_done r then (er_plain r, None)
      else case encReader_next G r of
        (Some e, _) \<Rightarrow> (er_plain r, Some e)
      | (None, r') \<Rightarrow> (let (d, e) = drain G r' in (er_plain r @ d, e)))"
  by pat_completeness auto

termination drain
  by (relation "measure (\<lambda>(G, r). length (fst (er_src r)))") (auto dest: next_consumes [OF sym])

declare drain.simps [simp del]

lemma drain_done: "er_done r \<Longrightarrow> drain G r = (er_plain r, None)"
  by (simp add: drain.simps [of G r])

lemma drain_error: "\<not> er_done r \<Longrightarrow> encReader_next G r = (Some e, r') \<Longrightarrow> drain G r = (er_plain r, Some e)"
  by (simp add: drain.simps [of G r])

lemma drain_step:
  "\<not> er_done r \<Longrightarrow> encReader_next G r = (None, r') \<Longrightarrow> drain G r = (er_plain r @ fst (drain G r'), snd (drain G r'))"
  by (simp add: drain.simps [of G r] split_beta)

lemma frame_header:
  assumes "n < 2 ^ 31"
  shows "be_nat (be_bytes 4 (n + (if fin then 2 ^ 31 else 0))) mod lastFlagBit = n"
    and "lastFlagBit \<le> be_nat (be_bytes 4 (n + (if fin then 2 ^ 31 else 0))) \<longleftrightarrow> fin"
proof -
  have "n + (if fin then 2 ^ 31 else 0) < 256 ^ 4"
    using assms by (cases fin) simp_all
  note hdr = be_nat_be_bytes_small [OF this]
  show "be_nat (be_bytes 4 (n + (if fin then 2 ^ 31 else 0))) mod lastFlagBit = n"
    unfolding hdr using assms by (cases fin) (simp_all add: lastFlagBit_def)
  show "lastFlagBit \<le> be_nat (be_bytes 4 (n + (if fin then 2 ^ 31 else 0))) \<longleftrightarrow> fin"
    unfolding hdr using assms by (cases fin) (simp_all add: lastFlagBit_def)
qed

lemma next_read:
  assumes "ReadFull 4 (er_src r) = (Inr h, s)" "ReadFull (be_nat h mod lastFlagBit) s = (Inr ct, s')"
    and "aead_Open G (er_aead r) (nonce (er_noncePfx r) (er_counter r) (lastFlagBit \<le> be_nat h)) ct = Some pt"
  shows "encReader_next G r = (None, r\<lparr>er_src := s', er_counter := er_counter r + 1, er_plain := pt,
    er_done := (lastFlagBit \<le> be_nat h \<or> er_done r)\<rparr>)"
  using assms by (simp add: encReader_next_def Let_def)

lemma next_short:
  assumes "ReadFull 4 (er_src r) = (Inr h, s)" "ReadFull (be_nat h mod lastFlagBit) s = (Inl e, s')"
  shows "\<exists>e r'. encReader_next G r = (Some e, r')"
  using assms by (simp add: encReader_next_def Let_def)

lemma ReadFull_append: "ReadFull (length a) (a @ b, e) = (Inr a, (b, e))"
  by (simp add: ReadFull_def)

lemma ReadFull_short: "length (fst s) < n \<Longrightarrow> \<exists>e s'. ReadFull n s = (Inl e, s')"
  by (simp add: ReadFull_def)

lemma next_frame:
  assumes "aead_ok G" "length c + 16 < 2 ^ 31"
    and "er_src r = (frame G (er_aead r) (er_noncePfx r) (er_counter r) fin c @ rest, e)"
  shows "encReader_next G r = (None, r\<lparr>er_src := (rest, e), er_counter := er_counter r + 1, er_plain := c,
    er_done := (fin \<or> er_done r)\<rparr>)"
proof -
  let ?h = "be_bytes 4 (length c + 16 + (if fin then 2 ^ 31 else 0))"
  let ?ct = "aead_Seal G (er_aead r) (nonce (er_noncePfx r) (er_counter r) fin) c"
  note fh = frame_header [OF assms(2), of fin]
  have "ReadFull 4 (er_src r) = (Inr ?h, (?ct @ rest, e))"
    using ReadFull_append [of ?h "?ct @ rest" e] unfolding assms(3) frame_def length_be_bytes by (simp only: append_assoc)
  moreover have "length ?ct = length c + 16" "aead_Open G (er_aead r) (nonce (er_noncePfx r) (er_counter r) fin) ?ct = Some c"
    using assms(1) by (simp_all add: aead_ok_def)
  moreover from this(1) have "ReadFull (be_nat ?h mod lastFlagBit) (?ct @ rest, e) = (Inr ?ct, (rest, e))"
    using ReadFull_append [of ?ct rest e] unfolding fh(1) by (simp only:)
  ultimately show ?thesis
    using next_read [of r ?h "(?ct @ rest, e)" ?ct "(rest, e)" G c] unfolding fh(2) by (simp only:)
qed

text \<open>A cut inside a frame ends the reading with an error.\<close>

lemma next_cut:
  assumes "aead_ok G" "length c + 16 < 2 ^ 31" "m < length c + 20"
    and "er_src r = (take m (frame G (er_aead r) (er_noncePfx r) (er_counter r) fin c), None)"
  shows "\<exists>e r'. encReader_next G r = (Some e, r')"
proof -
  let ?h = "be_bytes 4 (length c + 16 + (if fin then 2 ^ 31 else 0))"
  let ?ct = "aead_Seal G (er_aead r) (nonce (er_noncePfx r) (er_counter r) fin) c"
  have ct: "length ?ct = length c + 16"
    using assms(1) by (simp add: aead_ok_def)
  have h: "length ?h = 4" by (rule length_be_bytes)
  show ?thesis
  proof (cases "m < 4")
    case True
    then have "length (fst (er_src r)) < 4"
      unfolding assms(4) fst_conv length_take by linarith
    then have "\<exists>e s. ReadFull 4 (er_src r) = (Inl e, s)"
      by (rule ReadFull_short)
    then show ?thesis
      by (auto simp: encReader_next_def)
  next
    case False
    then have "take m (?h @ ?ct) = ?h @ take (m - 4) ?ct"
      unfolding take_append h using h by (metis not_less take_all)
    then have r1: "ReadFull 4 (er_src r) = (Inr ?h, (take (m - 4) ?ct, None))"
      using ReadFull_append [of ?h "take (m - 4) ?ct" None] unfolding assms(4) frame_def h by (simp only:)
    have "length (take (m - 4) ?ct) < length c + 16"
      using False assms(3) ct by simp
    then have "\<exists>e s. ReadFull (length c + 16) (take (m - 4) ?ct, None) = (Inl e, s)"
      by (intro ReadFull_short) simp
    then show ?thesis
      using next_short [OF r1] unfolding frame_header(1) [OF assms(2), of fin] by blast
  qed
qed

text \<open>The stream of a closed writer.\<close>

definition sealed_stream :: "aead_api \<Rightarrow> bytes \<Rightarrow> bytes \<Rightarrow> u64 \<Rightarrow> bytes list \<Rightarrow> bytes \<Rightarrow> bytes" where
  "sealed_stream G key pfx i cs c = frames G key pfx i cs @ frame G key pfx (i + of_nat (length cs)) True c"

lemma sealed_stream_Cons:
  "sealed_stream G key pfx i (d # cs) c = frame G key pfx i False d @ sealed_stream G key pfx (i + 1) cs c"
  by (simp add: sealed_stream_def algebra_simps)

lemma drain_sealed:
  assumes "aead_ok G" "\<forall>d \<in> set (c # cs). length d \<le> chunkSize" "\<not> er_done r"
    and "er_src r = (sealed_stream G (er_aead r) (er_noncePfx r) (er_counter r) cs c @ rest, e)"
  shows "drain G r = (er_plain r @ concat cs @ c, None)"
  using assms(2-4)
proof (induction cs arbitrary: r)
  case Nil
  have "length c + 16 < 2 ^ 31"
    using Nil.prems(1) by (simp add: chunkSize_def)
  from next_frame [OF assms(1) this, of r True rest e] Nil.prems show ?case
    by (simp add: sealed_stream_def drain_step drain_done)
next
  case (Cons d cs)
  let ?r = "r\<lparr>er_src := (sealed_stream G (er_aead r) (er_noncePfx r) (er_counter r + 1) cs c @ rest, e),
    er_counter := er_counter r + 1, er_plain := d, er_done := (False \<or> er_done r)\<rparr>"
  have "length d + 16 < 2 ^ 31"
    using Cons.prems(1) by (simp add: chunkSize_def)
  from next_frame [OF assms(1) this, of r False] Cons.prems(3) have "encReader_next G r = (None, ?r)"
    by (simp add: sealed_stream_Cons)
  moreover have "drain G ?r = (er_plain ?r @ concat cs @ c, None)"
    by (rule Cons.IH) (use Cons.prems in simp_all)
  ultimately show ?case
    using Cons.prems(2) by (simp add: drain_step)
qed

lemma drain_cut:
  assumes "aead_ok G" "\<forall>d \<in> set (c # cs). length d \<le> chunkSize" "\<not> er_done r"
    and "er_src r = (take m (sealed_stream G (er_aead r) (er_noncePfx r) (er_counter r) cs c), None)"
    and "m < length (sealed_stream G (er_aead r) (er_noncePfx r) (er_counter r) cs c)"
  shows "snd (drain G r) \<noteq> None"
  using assms(2-5)
proof (induction cs arbitrary: r m)
  case Nil
  have "length c + 16 < 2 ^ 31" "m < length c + 20"
    using Nil.prems(1,4) assms(1) by (simp_all add: chunkSize_def sealed_stream_def length_frame)
  from next_cut [OF assms(1) this, of r True] Nil.prems obtain x r' where "encReader_next G r = (Some x, r')"
    by (auto simp: sealed_stream_def)
  then show ?case
    using Nil.prems(2) by (simp add: drain_error)
next
  case (Cons d cs)
  have d: "length d + 16 < 2 ^ 31"
    using Cons.prems(1) by (simp add: chunkSize_def)
  show ?case
  proof (cases "m < length d + 20")
    case True
    from next_cut [OF assms(1) d True, of r False] Cons.prems(3) True obtain x r' where "encReader_next G r = (Some x, r')"
      by (auto simp: sealed_stream_Cons length_frame [OF assms(1)])
    then show ?thesis
      using Cons.prems(2) by (simp add: drain_error)
  next
    case False
    let ?s = "sealed_stream G (er_aead r) (er_noncePfx r) (er_counter r + 1) cs c"
    let ?r = "r\<lparr>er_src := (take (m - (length d + 20)) ?s, None), er_counter := er_counter r + 1, er_plain := d,
      er_done := (False \<or> er_done r)\<rparr>"
    from False next_frame [OF assms(1) d, of r False] Cons.prems(3) have "encReader_next G r = (None, ?r)"
      by (simp add: sealed_stream_Cons length_frame [OF assms(1)])
    moreover have "snd (drain G ?r) \<noteq> None"
      by (rule Cons.IH [of _ "m - (length d + 20)"])
        (use Cons.prems False in \<open>simp_all add: sealed_stream_Cons length_frame [OF assms(1)]\<close>)
    ultimately show ?thesis
      using Cons.prems(2) by (simp add: drain_step)
  qed
qed

subsection \<open>Authenticity\<close>

text \<open>The ciphertexts a source is cut into by its length fields.\<close>

function frame_bodies :: "bytes \<Rightarrow> bytes list" where
  "frame_bodies b =
     (if length b < 4 then []
      else (let n = be_nat (take 4 b) mod lastFlagBit in
        if length (drop 4 b) < n then [] else take n (drop 4 b) # frame_bodies (drop n (drop 4 b))))"
  by pat_completeness auto

termination frame_bodies
  by (relation "measure length") auto

declare frame_bodies.simps [simp del]

text \<open>Of the ciphertexts in the source only those open that the writer made: the chunk \<open>i\<close> of \<open>cs\<close> under
  the nonce of its position, with the finality flag on the last one.\<close>

definition only_sealed :: "aead_api \<Rightarrow> bytes \<Rightarrow> bytes \<Rightarrow> bytes list \<Rightarrow> bytes \<Rightarrow> bool" where
  "only_sealed G key pfx cs b \<longleftrightarrow>
     (\<forall>ct \<in> set (frame_bodies b). \<forall>n pt. aead_Open G key n ct = Some pt \<longrightarrow>
        (\<exists>i < length cs. n = nonce pfx (of_nat i) (Suc i = length cs) \<and> pt = cs ! i))"

lemma ReadFull_okD:
  "ReadFull n s = (Inr b, s') \<Longrightarrow> n \<le> length (fst s) \<and> b = take n (fst s) \<and> s' = (drop n (fst s), snd s)"
  by (auto simp: ReadFull_def split: if_splits)

lemma next_okD:
  assumes "encReader_next G r = (None, r')"
  shows "\<exists>s' ct fin pt. frame_bodies (fst (er_src r)) = ct # frame_bodies (fst s')
    \<and> aead_Open G (er_aead r) (nonce (er_noncePfx r) (er_counter r) fin) ct = Some pt
    \<and> r' = r\<lparr>er_src := s', er_counter := er_counter r + 1, er_plain := pt, er_done := (fin \<or> er_done r)\<rparr>"
proof -
  obtain res s where h: "ReadFull 4 (er_src r) = (res, s)" by (cases "ReadFull 4 (er_src r)")
  with assms obtain h where res: "res = Inr h"
    by (cases res) (simp_all add: encReader_next_def)
  obtain res' s' where ct: "ReadFull (be_nat h mod lastFlagBit) s = (res', s')" by (cases "ReadFull (be_nat h mod lastFlagBit) s")
  with assms h res obtain ct where res': "res' = Inr ct"
    by (cases res') (simp_all add: encReader_next_def Let_def)
  note h = h [unfolded res] and ct = ct [unfolded res']
  obtain pt where pt: "aead_Open G (er_aead r) (nonce (er_noncePfx r) (er_counter r) (lastFlagBit \<le> be_nat h)) ct = Some pt"
    using assms h ct by (cases "aead_Open G (er_aead r) (nonce (er_noncePfx r) (er_counter r) (lastFlagBit \<le> be_nat h)) ct")
      (simp_all add: encReader_next_def Let_def)
  have r': "r' = r\<lparr>er_src := s', er_counter := er_counter r + 1, er_plain := pt, er_done := (lastFlagBit \<le> be_nat h \<or> er_done r)\<rparr>"
    using next_read [OF h ct pt] assms by simp
  have "frame_bodies (fst (er_src r)) = ct # frame_bodies (fst s')"
    using ReadFull_okD [OF h] ReadFull_okD [OF ct] by (subst frame_bodies.simps) (simp add: Let_def)
  with pt r' show ?thesis by blast
qed

text \<open>Whatever the source holds, the reader yields a leading part of the sealed chunks, and all of them when
  it ends without an error.\<close>

lemma drain_authentic:
  assumes "only_sealed G (er_aead r) (er_noncePfx r) cs (fst (er_src r))" "length cs < 2 ^ 56"
    and "j \<le> length cs" "er_counter r = of_nat j" "\<not> er_done r" "drain G r = (d, e)"
  shows "prefix d (er_plain r @ concat (drop j cs)) \<and> (e = None \<longrightarrow> d = er_plain r @ concat (drop j cs))"
  using assms(1,3-)
proof (induction G r arbitrary: j d e rule: drain.induct)
  case (1 G r)
  obtain err r' where nxt: "encReader_next G r = (err, r')" by (cases "encReader_next G r")
  show ?case
  proof (cases err)
    case (Some x)
    with nxt "1.prems"(4,5) show ?thesis
      by (auto simp: drain_error)
  next
    case None
    note nxt = nxt [unfolded None]
    obtain s' ct fin pt where ct: "frame_bodies (fst (er_src r)) = ct # frame_bodies (fst s')"
      and opens: "aead_Open G (er_aead r) (nonce (er_noncePfx r) (er_counter r) fin) ct = Some pt"
      and r': "r' = r\<lparr>er_src := s', er_counter := er_counter r + 1, er_plain := pt, er_done := (fin \<or> er_done r)\<rparr>"
      using next_okD [OF nxt] by (elim exE conjE) (rule that)
    obtain i where i: "i < length cs" "nonce (er_noncePfx r) (er_counter r) fin = nonce (er_noncePfx r) (of_nat i) (Suc i = length cs)"
      "pt = cs ! i"
    proof -
      have "ct \<in> set (frame_bodies (fst (er_src r)))" by (simp add: ct)
      from "1.prems"(1) [unfolded only_sealed_def, rule_format, OF this opens] show ?thesis
        by (elim exE conjE) (rule that)
    qed
    have small: "unat (of_nat k :: u64) = k" if "k \<le> length cs" for k
      using that assms(2) by (simp only: unat_of_nat) simp
    have "unat (er_counter r) < 2 ^ 56" "unat (of_nat i :: u64) < 2 ^ 56"
      unfolding "1.prems"(3) small [OF "1.prems"(2)] small [OF less_imp_le [OF i(1)]]
      using assms(2) i(1) "1.prems"(2) by linarith+
    from nonce_inject [OF i(2) this] have eq: "(of_nat j :: u64) = of_nat i" "fin = (Suc i = length cs)"
      unfolding "1.prems"(3) by blast+
    from arg_cong [OF eq(1), of unat] have ij: "i = j"
      unfolding small [OF "1.prems"(2)] small [OF less_imp_le [OF i(1)]] by (rule sym)
    note fin = eq(2) [unfolded ij]
    have drop: "concat (drop j cs) = pt @ concat (drop (Suc j) cs)"
      using i(1,3) ij by (simp add: Cons_nth_drop_Suc [symmetric])
    have sel: "er_aead r' = er_aead r" "er_noncePfx r' = er_noncePfx r" "er_counter r' = of_nat (Suc j)"
      "er_plain r' = pt" "er_done r' = fin" "er_src r' = s'"
      using "1.prems"(3,4) by (simp_all add: r')
    have d: "d = er_plain r @ fst (drain G r')" "e = snd (drain G r')"
      using "1.prems"(4,5) drain_step [OF _ nxt] by simp_all
    show ?thesis
    proof (cases fin)
      case True
      then have "drain G r' = (pt, None)"
        using drain_done [of r' G] sel by simp
      with d drop True fin show ?thesis by simp
    next
      case False
      have "only_sealed G (er_aead r') (er_noncePfx r') cs (fst (er_src r'))"
        using "1.prems"(1) by (simp add: only_sealed_def ct sel)
      from "1.IH" [OF "1.prems"(4) nxt [symmetric] refl this, of "Suc j" "fst (drain G r')" "snd (drain G r')"]
      have "prefix (fst (drain G r')) (pt @ concat (drop (Suc j) cs))
          \<and> (snd (drain G r') = None \<longrightarrow> fst (drain G r') = pt @ concat (drop (Suc j) cs))"
        using i(1) ij sel False by simp
      with d drop show ?thesis by simp
    qed
  qed
qed

end
