(* ===== verification/Backup_Client.thy ===== *)
theory Backup_Client
  imports Container Data_Plane Quorum
begin

text \<open>
  The two ends of a dump outside the node: the client that writes a backup stream into a container and
  sends a container back (pkg/backup/client.go), and the offline verifier that loads a dump and compares
  its chain head with a quorum certificate (pkg/verify/backup.go). Files and object storage are
  parameters: a destination is a \<open>dst\<close>, a source a \<open>src\<close>. The lemmas relate the read loop of the client
  to what the container holds.
\<close>

section \<open>Backup\<close>

text \<open>The loop over the received frames.\<close>

fun backup_frames :: "aead_api \<Rightarrow> dst \<Rightarrow> 'w wire_api \<Rightarrow> u64 \<Rightarrow> writer \<times> bytes \<Rightarrow> 'w list
    \<Rightarrow> u64 \<times> go_error option \<times> writer \<times> bytes" where
  "backup_frames G dst W version st [] = (version, None, st)"
| "backup_frames G dst W version st (v # vs) =
     (if \<not> is_Map W v then backup_frames G dst W version st vs
      else if get_Boolean W v ''done'' then backup_frames G dst W (get_Long W v ''version'') st vs
      else case writer_Write G dst st (get_Raw W v ''data'') of
        (Some werr, st) \<Rightarrow> (version, Some werr, st)
      | (None, st) \<Rightarrow> backup_frames G dst W version st vs)"

text \<open>\<open>sink\<close> is the outcome of \<open>OpenSink\<close> (what the destination already holds), \<open>sinkClose\<close> that of
  closing it, \<open>stream\<close> the frames of the call to \<open>admin.backup\<close>. The third result is what was written.\<close>

definition client_Backup :: "aead_api \<Rightarrow> argon_api \<Rightarrow> 'w wire_api \<Rightarrow> bytes result \<Rightarrow> bytes result \<Rightarrow> dst \<Rightarrow> bytes result
    \<Rightarrow> (bytes \<Rightarrow> go_error option) \<Rightarrow> 'w list result \<Rightarrow> string \<Rightarrow> u64 \<times> go_error option \<times> bytes" where
  "client_Backup G A W salt pfx dst sink sinkClose stream password =
     (case sink of Inl e \<Rightarrow> (0, Some e, [])
      | Inr out \<Rightarrow>
        (case NewWriter G A salt pfx dst out password of
           (Inl e, out) \<Rightarrow> (0, Some e, out)
         | (Inr container, out) \<Rightarrow>
           (case stream of
              Inl e \<Rightarrow> (0, Some e, snd (snd (writer_Close G dst (container, out))))
            | Inr fs \<Rightarrow>
                (let (version, err, st) = backup_frames G dst W 0 (container, out) fs;
                     (cerr, st) = writer_Close G dst st;
                     err = (if err = None then cerr else err);
                     serr = sinkClose (snd st);
                     err = (if err = None then serr else err)
                 in (version, err, snd st)))))"

section \<open>Restore\<close>

lemma fill_progress:
  "fill G r = (None, r') \<Longrightarrow> er_plain r' \<noteq> [] \<and> (r' = r \<or> length (fst (er_src r')) < length (fst (er_src r)))"
proof (induction G r rule: fill.induct)
  case (1 G r)
  show ?case
  proof (cases "er_plain r \<noteq> [] \<or> er_done r")
    case True
    with "1.prems" show ?thesis
      by (auto simp: fill.simps [of G r] split: if_splits)
  next
    case False
    with "1.prems" obtain r1 where r1: "encReader_next G r = (None, r1)" "fill G r1 = (None, r')"
      by (auto simp: fill.simps [of G r] split: prod.splits option.splits)
    then show ?thesis
      using "1.IH" [of None r1] False next_consumes [OF r1(1)] by auto
  qed
qed

fun left_to_read :: "reader \<Rightarrow> nat \<times> nat" where
  "left_to_read (PlainReader src) = (length (fst src), 0)"
| "left_to_read (EncReader r) = (length (fst (er_src r)), length (er_plain r))"

lemma reader_Read_progress:
  assumes "reader_Read G n rd = (b, None, rd')" "0 < n"
  shows "(left_to_read rd', left_to_read rd) \<in> less_than <*lex*> less_than"
proof (cases rd)
  case (PlainReader src)
  with assms show ?thesis
    by (auto simp: reader_Read_def split: if_splits)
next
  case (EncReader r)
  obtain err r1 where f: "fill G r = (err, r1)" by (cases "fill G r")
  with EncReader assms(1) have "err = None" and rd': "rd' = EncReader (r1\<lparr>er_plain := drop n (er_plain r1)\<rparr>)"
    by (auto simp: reader_Read_def encReader_Read_def split: option.splits)
  with fill_progress [of G r r1] f assms(2) EncReader show ?thesis by auto
qed

text \<open>The goroutine that reads the dump: the chunks it sends, and the error it reports.\<close>

function pump :: "aead_api \<Rightarrow> reader \<Rightarrow> bytes list \<Rightarrow> bytes list \<times> go_error option" where
  "pump G rd sent =
     (case reader_Read G chunkSize rd of
        (b, err, rd') \<Rightarrow>
          (let sent = (if b \<noteq> [] then sent @ [b] else sent) in
           case err of
             Some rerr \<Rightarrow> (sent, if rerr = EOF then None else Some rerr)
           | None \<Rightarrow> pump G rd' sent))"
  by pat_completeness auto

termination pump
  by (relation "inv_image (less_than <*lex*> less_than) (\<lambda>(G, rd, sent). left_to_read rd)")
    (auto dest!: reader_Read_progress [OF sym] simp: chunkSize_def)

declare pump.simps [simp del]

text \<open>\<open>chat sent\<close> is the outcome of the call to \<open>admin.restore\<close>: how many of the frames sent the node took
  before its replies ended, and the replies. A pump that still waits to send is cancelled, which is not
  an error.\<close>

definition client_Restore :: "aead_api \<Rightarrow> argon_api \<Rightarrow> 'w wire_api \<Rightarrow> 'w text_api \<Rightarrow> src result
    \<Rightarrow> ('w list \<Rightarrow> (nat \<times> 'w list) result) \<Rightarrow> string \<Rightarrow> go_error option" where
  "client_Restore G A W T source chat password =
     (case source of Inl e \<Rightarrow> Some e
      | Inr src \<Rightarrow>
        (case NewReader G A src password of Inl e \<Rightarrow> Some e
         | Inr reader \<Rightarrow>
           (let (chunks, rerr) = pump G reader [] in
            case chat (map (\<lambda>c. map_Put W (EmptyMap W) ''data'' (mk_Raw W c)) chunks) of
              Inl e \<Rightarrow> Some (Wrapped ''restore stream'' e)
            | Inr (taken, replies) \<Rightarrow>
                (let serverErr = fold (\<lambda>v acc. if is_Map W v \<and> get_Boolean W v ''done'' then get_Utf8 T v ''error'' else acc)
                                   replies [];
                     readErr = (if taken < length chunks then None else rerr) in
                 case readErr of
                   Some e \<Rightarrow> Some (Wrapped ''read dump'' e)
                 | None \<Rightarrow> if serverErr \<noteq> [] then Some (Msg (''restore: '' @ serverErr)) else None))))"

section \<open>Verification\<close>

definition hex_digit :: "nat \<Rightarrow> char" where
  "hex_digit n = ''0123456789abcdef'' ! n"

definition DigestHex :: "digest \<Rightarrow> string" where
  "DigestHex d = concat (map (\<lambda>b. [hex_digit (unat b div 16), hex_digit (unat b mod 16)]) d)"

record Options =
  op_Source :: "src result"
  op_Password :: string
  op_CACert :: bytes
  op_QuorumCert :: bytes
  op_NodeCerts :: "bytes list"
  op_Threshold :: int

record Result =
  rs_Verified :: bool
  rs_Height :: u64
  rs_Digest :: string
  rs_Signers :: nat
  rs_Message :: go_error

text \<open>\<open>fresh\<close> is the outcome of opening an empty store in a temporary directory. A read error of the
  dump reaches the load as its error.\<close>

definition loadBackupHead :: "'db runtime \<Rightarrow> 'v value_api \<Rightarrow> aead_api \<Rightarrow> argon_api \<Rightarrow> time \<Rightarrow> 'db KeyValueStorageCtx result
    \<Rightarrow> Options \<Rightarrow> (u64 \<times> digest) result" where
  "loadBackupHead E V G A now fresh opts =
     bindE fresh (\<lambda>storage.
     bindE (op_Source opts) (\<lambda>source.
     bindE (NewReader G A source (op_Password opts)) (\<lambda>reader.
       let (chunks, rerr) = pump G reader [];
           (lerr, storage) = Load E storage (concat chunks) in
       case (if lerr \<noteq> None then lerr else rerr) of
         Some e \<Rightarrow> Inl (Wrapped ''verify: load dump'' e)
       | None \<Rightarrow> Inr (LoadHead V (Get E now storage)))))"

fun add_certs :: "(bytes \<Rightarrow> NodeCert result) \<Rightarrow> CertBundle \<Rightarrow> bytes list \<Rightarrow> CertBundle result" where
  "add_certs DecodeCert bundle [] = Inr bundle"
| "add_certs DecodeCert bundle (raw # raws) =
     (case DecodeCert raw of
        Inl e \<Rightarrow> Inl (Wrapped ''verify: node cert'' e)
      | Inr cert \<Rightarrow> add_certs DecodeCert (AddCert cert bundle) raws)"

definition VerifyBackup :: "'db runtime \<Rightarrow> 'v value_api \<Rightarrow> aead_api \<Rightarrow> argon_api \<Rightarrow> ('sk, 'pk) sig_api
    \<Rightarrow> (bytes \<Rightarrow> QuorumCertificate result) \<Rightarrow> (bytes \<Rightarrow> NodeCert result) \<Rightarrow> time \<Rightarrow> 'db KeyValueStorageCtx result
    \<Rightarrow> Options \<Rightarrow> Result result" where
  "VerifyBackup E V G A S DecodeQuorum DecodeCert now fresh opts =
     (case ParseCAPublicKey (op_CACert opts) of Inl e \<Rightarrow> Inl (Wrapped ''verify: CA public key'' e)
      | Inr ca \<Rightarrow>
     (case DecodeQuorum (op_QuorumCert opts) of Inl e \<Rightarrow> Inl (Wrapped ''verify: quorum certificate'' e)
      | Inr qc \<Rightarrow>
     (case add_certs DecodeCert (\<lambda>_. None) (op_NodeCerts opts) of Inl e \<Rightarrow> Inl e
      | Inr bundle \<Rightarrow>
        let threshold = (if op_Threshold opts = 0 then int (length (qc_Signers qc)) else op_Threshold opts) in
        case VerifyQuorum S ca (Some qc) bundle threshold (word_of_int now) of
          Some err \<Rightarrow> Inr \<lparr>rs_Verified = False, rs_Height = 0, rs_Digest = [], rs_Signers = 0,
                           rs_Message = Wrapped ''quorum certificate invalid'' err\<rparr>
        | None \<Rightarrow>
            (case loadBackupHead E V G A now fresh opts of
               Inl e \<Rightarrow> Inl e
             | Inr (index, digest) \<Rightarrow>
                 (case MatchesHead qc index digest of
                    Some err \<Rightarrow> Inr \<lparr>rs_Verified = False, rs_Height = Height (qc_Checkpoint qc), rs_Digest = DigestHex digest,
                      rs_Signers = length (qc_Signers qc),
                      rs_Message = Wrapped ''backup does not match the certified checkpoint'' err\<rparr>
                  | None \<Rightarrow> Inr \<lparr>rs_Verified = True, rs_Height = index, rs_Digest = DigestHex digest,
                      rs_Signers = length (qc_Signers qc),
                      rs_Message = Msg ''backup matches the quorum-certified checkpoint''\<rparr>)))))"

section \<open>Facts\<close>

subsection \<open>The pump yields what the container holds\<close>

lemma next_not_EOF: "encReader_next G r = (Some e, r') \<Longrightarrow> e \<noteq> EOF"
  by (auto simp: encReader_next_def EOF_def ErrUnexpectedEOF_def Let_def split: prod.splits sum.splits option.splits if_splits)

lemma next_plain:
  "encReader_next G (r\<lparr>er_plain := p\<rparr>) =
     (case encReader_next G r of (Some e, r') \<Rightarrow> (Some e, r'\<lparr>er_plain := p\<rparr>) | (None, r') \<Rightarrow> (None, r'))"
  by (simp add: encReader_next_def Let_def split: prod.split sum.split option.split)

lemma drain_plain:
  "drain G (r\<lparr>er_plain := p\<rparr>) = (p @ fst (drain G (r\<lparr>er_plain := []\<rparr>)), snd (drain G (r\<lparr>er_plain := []\<rparr>)))"
  by (simp add: drain.simps [of G "r\<lparr>er_plain := q\<rparr>" for q] next_plain split_beta split: prod.split option.split)

lemma drain_split:
  "drain G r = (take n (er_plain r) @ fst (drain G (r\<lparr>er_plain := drop n (er_plain r)\<rparr>)),
    snd (drain G (r\<lparr>er_plain := drop n (er_plain r)\<rparr>)))"
  using drain_plain [where G = G and r = r and p = "er_plain r"] drain_plain [where G = G and r = r and p = "drop n (er_plain r)"]
  by (simp add: append_assoc [symmetric] del: append_assoc)

lemma fill_drain_cases:
  "case fill G r of (None, r') \<Rightarrow> drain G r = drain G r' | (Some e, r') \<Rightarrow> drain G r = ([], if e = EOF then None else Some e)"
proof (induction G r rule: fill.induct)
  case (1 G r)
  obtain err r1 where nxt: "encReader_next G r = (err, r1)" by (cases "encReader_next G r")
  consider "er_plain r \<noteq> []" | "er_plain r = []" "er_done r" | "er_plain r = []" "\<not> er_done r" by blast
  then show ?case
  proof cases
    case 1
    then have "fill G r = (None, r)" by (simp add: fill.simps [of G r])
    then show ?thesis by simp
  next
    case 2
    then have "fill G r = (Some EOF, r)" by (simp add: fill.simps [of G r])
    with 2 show ?thesis by (simp add: drain_done)
  next
    case 3
    show ?thesis
    proof (cases err)
      case None
      then have f: "fill G r = fill G r1"
        using 3 nxt by (simp add: fill.simps [of G r])
      have d: "drain G r = drain G r1"
        using 3 nxt None by (simp add: drain_step)
      have "\<not> er_plain r \<noteq> []"
        using 3(1) by simp
      from "1.IH" [OF this 3(2) nxt [symmetric] None] show ?thesis
        unfolding f d .
    next
      case (Some e)
      then have "fill G r = (Some e, r1)"
        using 3 nxt by (simp add: fill.simps [of G r])
      moreover have "drain G r = ([], Some e)"
        using 3 nxt Some by (simp add: drain_error)
      ultimately show ?thesis
        using next_not_EOF [of G r e r1] nxt Some by simp
    qed
  qed
qed

lemma fill_drain:
  "fill G r = (None, r') \<Longrightarrow> drain G r = drain G r'"
  "fill G r = (Some e, r') \<Longrightarrow> drain G r = ([], if e = EOF then None else Some e)"
  using fill_drain_cases [of G r] by simp_all

lemma pump_enc:
  assumes "pump G (EncReader r) sent = (cs, e)"
  shows "concat cs = concat sent @ fst (drain G r) \<and> e = snd (drain G r)"
  using assms
proof (induction G "EncReader r" sent arbitrary: r rule: pump.induct)
  case (1 G sent r)
  obtain err r1 where f: "fill G r = (err, r1)" by (cases "fill G r")
  show ?case
  proof (cases err)
    case (Some x)
    then have "reader_Read G chunkSize (EncReader r) = ([], Some x, EncReader r1)"
      using f by (simp add: reader_Read_def encReader_Read_def)
    then show ?thesis
      using "1.prems" fill_drain(2) [of G r x r1] f Some by (auto simp: pump.simps [of G "EncReader r"])
  next
    case None
    let ?b = "take chunkSize (er_plain r1)" and ?r = "r1\<lparr>er_plain := drop chunkSize (er_plain r1)\<rparr>"
    have read: "reader_Read G chunkSize (EncReader r) = (?b, None, EncReader ?r)"
      using f None by (simp add: reader_Read_def encReader_Read_def)
    have "?b \<noteq> []"
      using fill_progress [of G r r1] f None by (simp add: chunkSize_def)
    then have step: "pump G (EncReader r) sent = pump G (EncReader ?r) (sent @ [?b])"
      using read by (simp add: pump.simps [of G "EncReader r"])
    have "concat cs = concat (sent @ [?b]) @ fst (drain G ?r) \<and> e = snd (drain G ?r)"
      by (rule "1.hyps" [OF read [symmetric] refl _ refl]) (use \<open>?b \<noteq> []\<close> step "1.prems" in simp_all)
    moreover have "drain G r = drain G r1"
      using fill_drain(1) f None by simp
    ultimately show ?thesis
      using drain_split [of G r1 chunkSize] by simp
  qed
qed

lemma pump_plain:
  "pump G (PlainReader (b, e)) sent = (cs, x) \<Longrightarrow> concat cs = concat sent @ b \<and> x = (if e = Some EOF then None else e)"
proof (induction "length b" arbitrary: b sent rule: less_induct)
  case less
  show ?case
  proof (cases "b = []")
    case True
    with less.prems show ?thesis
      by (cases e) (auto simp: pump.simps [of G "PlainReader ([], q)" for q] reader_Read_def)
  next
    case False
    then have "pump G (PlainReader (b, e)) sent = pump G (PlainReader (drop chunkSize b, e)) (sent @ [take chunkSize b])"
      by (simp add: pump.simps [of G "PlainReader (b, e)"] reader_Read_def chunkSize_def)
    with less.hyps [of "drop chunkSize b" "sent @ [take chunkSize b]"] less.prems False show ?thesis
      by (simp add: chunkSize_def)
  qed
qed

subsection \<open>Headers read back\<close>

lemma ReadFull_header:
  "ReadFull (length magic + 2) (bytes_of magic @ [formatVer, mode] @ b, e) = (Inr (bytes_of magic @ [formatVer, mode]), (b, e))"
  using ReadFull_append [of "bytes_of magic @ [formatVer, mode]" b e] by simp

lemma NewReader_head:
  "NewReader G A (bytes_of magic @ [formatVer, mode] @ b, e) password =
     (if mode = modePlain then
        (if password \<noteq> [] then Inl (Msg ''backup: dump is not encrypted, no password needed'') else Inr (PlainReader (b, e)))
      else if mode = modeEncrypt then
        (if password = [] then Inl (Msg ''backup: dump is encrypted, a password is required'')
         else bindE (newEncReader G A (b, e) password) (\<lambda>r. Inr (EncReader r)))
      else Inl (Msg ''backup: unknown mode''))"
  unfolding NewReader_def ReadFull_header by (simp add: nth_append)

lemma modes [simp]: "modePlain \<noteq> modeEncrypt" "modeEncrypt \<noteq> modePlain"
  by (simp_all add: modePlain_def modeEncrypt_def)

lemma NewReader_plain: "NewReader G A (header modePlain [] [] @ b, e) [] = Inr (PlainReader (b, e))"
  using NewReader_head [of G A modePlain b e "[]"] by (simp add: header_def)

definition kdf_params :: "nat \<Rightarrow> bytes" where
  "kdf_params sl = be_bytes 4 argonMemKiB @ be_bytes 4 argonTimeCost @ [of_nat dump_argonThreads, of_nat sl]"

lemma header_enc: "header modeEncrypt salt pfx = bytes_of magic @ [formatVer, modeEncrypt] @ kdf_params (length salt) @ salt @ pfx"
  by (simp add: header_def kdf_params_def)

lemma kdf_params_sel:
  "length (kdf_params n) = 10" "be_nat (take 4 (kdf_params n)) = argonMemKiB"
  "be_nat (take 4 (drop 4 (kdf_params n))) = argonTimeCost"
  "kdf_params n ! 8 = of_nat dump_argonThreads" "n < 256 \<Longrightarrow> unat (kdf_params n ! 9) = n"
  by (simp_all add: kdf_params_def argonMemKiB_def argonTimeCost_def nth_append unat_of_nat del: be_bytes.simps)

lemma newEncReader_ok:
  assumes "length salt < 256" "length pfx = noncePfxLen" "newAEAD G A password salt = Inr key"
  shows "newEncReader G A (kdf_params (length salt) @ salt @ pfx @ b, e) password =
    Inr \<lparr>er_src = (b, e), er_aead = key, er_noncePfx = pfx, er_counter = 0, er_plain = [], er_done = False\<rparr>"
proof -
  have r1: "ReadFull 10 (kdf_params (length salt) @ salt @ pfx @ b, e) = (Inr (kdf_params (length salt)), (salt @ pfx @ b, e))"
    using ReadFull_append [of "kdf_params (length salt)" "salt @ pfx @ b" e] by (simp add: kdf_params_sel)
  have r2: "ReadFull (length salt + noncePfxLen) (salt @ pfx @ b, e) = (Inr (salt @ pfx), (b, e))"
    using ReadFull_append [of "salt @ pfx" b e] assms(2) by simp
  show ?thesis
    using assms(3) unfolding newEncReader_def r1
    by (simp add: Let_def kdf_params_sel assms(1) r2 newAEAD_def bindE_def split: sum.splits option.splits)
qed

lemma NewReader_enc:
  assumes "length salt < 256" "length pfx = noncePfxLen" "newAEAD G A password salt = Inr key" "password \<noteq> []"
  shows "NewReader G A (header modeEncrypt salt pfx @ b, e) password =
    Inr (EncReader \<lparr>er_src = (b, e), er_aead = key, er_noncePfx = pfx, er_counter = 0, er_plain = [], er_done = False\<rparr>)"
  using NewReader_head [of G A modeEncrypt "kdf_params (length salt) @ salt @ pfx @ b" e password]
    newEncReader_ok [OF assms(1-3), of b e] assms(4)
  by (simp add: header_enc bindE_def)

text \<open>A header that is cut short is an error.\<close>

lemma NewReader_cut:
  assumes "length salt < 256" "length pfx = noncePfxLen" "password \<noteq> []" "m < length (header modeEncrypt salt pfx)"
  shows "\<exists>e. NewReader G A (take m (header modeEncrypt salt pfx), None) password = Inl e"
proof -
  define h k where "h = bytes_of magic @ [formatVer, modeEncrypt]" and "k = kdf_params (length salt)"
  have head: "header modeEncrypt salt pfx = h @ k @ salt @ pfx" and len: "length h = length magic + 2" "length k = 10"
    by (simp_all add: h_def k_def header_enc kdf_params_sel)
  have past: "take m (x @ y) = x @ take (m - length x) y" if "length x \<le> m" for x y :: bytes and m
    using that by simp
  have enc: "NewReader G A (h @ b, None) password = bindE (newEncReader G A (b, None) password) (\<lambda>r. Inr (EncReader r))" for b
    using NewReader_head [of G A modeEncrypt b None password] assms(3) by (simp add: h_def)
  consider "m < length h" | "length h \<le> m" "m - length h < 10" | "length h \<le> m" "10 \<le> m - length h" by linarith
  then show ?thesis
  proof cases
    case 1
    then have "length (fst (take m (header modeEncrypt salt pfx), None :: go_error option)) < length magic + 2"
      using len(1) by simp
    from ReadFull_short [OF this] show ?thesis
      unfolding NewReader_def by (elim exE) simp
  next
    case 2
    have "length (fst (take (m - length h) (k @ salt @ pfx), None :: go_error option)) < 10"
      using 2 by simp
    from ReadFull_short [OF this] have "\<exists>e. newEncReader G A (take (m - length h) (k @ salt @ pfx), None) password = Inl e"
      unfolding newEncReader_def by (elim exE) simp
    then show ?thesis
      unfolding head past [OF 2(1)] enc by (auto simp: bindE_def)
  next
    case 3
    let ?rest = "take (m - length h - 10) (salt @ pfx)"
    have cut: "take m (h @ k @ salt @ pfx) = h @ k @ ?rest"
      using past [OF 3(1), of "k @ salt @ pfx"] past [of k "m - length h" "salt @ pfx"] 3(2) len(2) by simp
    have r1: "ReadFull 10 (k @ ?rest, None) = (Inr k, (?rest, None))"
      using ReadFull_append [of k ?rest None] by (simp add: len(2))
    have "length (fst (?rest, None :: go_error option)) < length salt + noncePfxLen"
      using 3 assms(2,4) len by (simp add: head)
    from ReadFull_short [OF this] have "\<exists>e. newEncReader G A (k @ ?rest, None) password = Inl e"
      unfolding newEncReader_def r1 by (elim exE) (simp add: Let_def k_def kdf_params_sel assms(1))
    then show ?thesis
      unfolding head cut enc by (auto simp: bindE_def)
  qed
qed

subsection \<open>What a backup leaves at its destination\<close>

text \<open>The dump a frame stream carries.\<close>

definition stream_data :: "'w wire_api \<Rightarrow> 'w list \<Rightarrow> bytes" where
  "stream_data W fs = concat (map (\<lambda>v. if is_Map W v \<and> \<not> get_Boolean W v ''done'' then get_Raw W v ''data'' else []) fs)"

definition holds :: "aead_api \<Rightarrow> bytes \<Rightarrow> writer \<times> bytes \<Rightarrow> bytes \<Rightarrow> bool" where
  "holds G base st data \<longleftrightarrow>
     (case fst st of PlainWriter \<Rightarrow> snd st = base @ data
      | EncWriter w \<Rightarrow> written G base (w, snd st) data \<and> \<not> ew_closed w)"

text \<open>A writer of the same kind, key and nonce prefix.\<close>

fun alike :: "writer \<Rightarrow> writer \<Rightarrow> bool" where
  "alike PlainWriter w' \<longleftrightarrow> w' = PlainWriter"
| "alike (EncWriter w) w' \<longleftrightarrow> (\<exists>v. w' = EncWriter v \<and> ew_aead v = ew_aead w \<and> ew_noncePfx v = ew_noncePfx w)"

lemma alike_refl: "alike w w"
  by (cases w) simp_all

lemma alike_trans: "alike u v \<Longrightarrow> alike v w \<Longrightarrow> alike u w"
  by (cases u) auto

lemma dst_okD: "dst_ok dst \<Longrightarrow> dst a b = (None, c) \<Longrightarrow> c = a @ b"
  unfolding dst_ok_def by (metis fst_conv snd_conv)

lemma Write_holds:
  assumes "aead_ok G" "dst_ok dst" "holds G base (w, out) data" "writer_Write G dst (w, out) p = (None, w', out')"
  shows "holds G base (w', out') (data @ p) \<and> alike w w'"
proof (cases w)
  case PlainWriter
  obtain err o' where d: "dst out p = (err, o')" by (cases "dst out p")
  then have "err = None" "w' = PlainWriter" "out' = o'"
    using assms(4) PlainWriter by (simp_all add: writer_Write_def)
  with dst_okD [OF assms(2), of out p o'] d assms(3) PlainWriter show ?thesis
    by (simp add: holds_def)
next
  case (EncWriter v)
  obtain err v1 out1 where l: "write_loop G dst (v, out) p = (err, v1, out1)"
    by (cases "write_loop G dst (v, out) p")
  have "written G base (v, out) data" "\<not> ew_closed v"
    using assms(3) EncWriter by (simp_all add: holds_def)
  moreover from this(2) l assms(4) EncWriter have "err = None" "w' = EncWriter v1" "out' = out1"
    by (cases err; simp add: writer_Write_def encWriter_Write_def)+
  ultimately show ?thesis
    using write_loop_written [OF assms(1,2), of base v out data p v1 out1] l EncWriter by (simp add: holds_def)
qed

lemma backup_frames_holds:
  assumes "aead_ok G" "dst_ok dst" "holds G base (w, out) data"
    and "backup_frames G dst W version (w, out) fs = (v, None, w', out')"
  shows "holds G base (w', out') (data @ stream_data W fs) \<and> alike w w'"
  using assms(3,4)
proof (induction fs arbitrary: version w out data)
  case Nil
  then show ?case by (simp add: stream_data_def alike_refl)
next
  case (Cons f fs)
  show ?case
  proof (cases "is_Map W f \<and> \<not> get_Boolean W f ''done''")
    case True
    obtain err w1 out1 where wr: "writer_Write G dst (w, out) (get_Raw W f ''data'') = (err, w1, out1)"
      by (cases "writer_Write G dst (w, out) (get_Raw W f ''data'')")
    with True Cons.prems(2) have "err = None" "backup_frames G dst W version (w1, out1) fs = (v, None, w', out')"
      by (cases err; simp)+
    with Write_holds [OF assms(1,2) Cons.prems(1)] wr Cons.IH [of w1 out1 "data @ get_Raw W f ''data''" version] True
    show ?thesis
      by (auto simp: stream_data_def intro: alike_trans)
  next
    case False
    with Cons.prems(2) obtain version' where "backup_frames G dst W version' (w, out) fs = (v, None, w', out')"
      by (auto split: if_splits)
    with Cons.IH [OF Cons.prems(1)] False show ?thesis
      by (auto simp: stream_data_def)
  qed
qed

lemma Close_holds:
  assumes "aead_ok G" "dst_ok dst" "holds G base (w, out) data" "writer_Close G dst (w, out) = (None, w', out')"
  shows "case w of PlainWriter \<Rightarrow> out' = base @ data
    | EncWriter v \<Rightarrow> \<exists>cs c. out' = base @ sealed_stream G (ew_aead v) (ew_noncePfx v) 0 cs c \<and> concat cs @ c = data
        \<and> (\<forall>d \<in> set (c # cs). length d \<le> chunkSize)"
proof (cases w)
  case PlainWriter
  with assms(3,4) show ?thesis by (simp add: holds_def writer_Close_def)
next
  case (EncWriter v)
  obtain cs where cs: "\<forall>c \<in> set cs. length c = chunkSize" "concat cs @ ew_buf v = data"
    "out = base @ frames G (ew_aead v) (ew_noncePfx v) 0 cs" "ew_counter v = of_nat (length cs)" "length (ew_buf v) < chunkSize"
    and nc: "\<not> ew_closed v"
    using assms(3) EncWriter by (auto simp: holds_def written_def)
  obtain v1 where "seal G dst True (v\<lparr>ew_closed := True\<rparr>, out) = (None, v1, out')"
    using assms(4) EncWriter nc by (auto simp: writer_Close_def encWriter_Close_def split: prod.splits)
  from seal_frame(2) [OF assms(1,2) _ this] cs(5)
  have "out' = out @ frame G (ew_aead v) (ew_noncePfx v) (ew_counter v) True (ew_buf v)"
    by simp
  then have "out' = base @ sealed_stream G (ew_aead v) (ew_noncePfx v) 0 cs (ew_buf v)"
    using cs(3,4) by (simp add: sealed_stream_def)
  moreover have "\<forall>d \<in> set (ew_buf v # cs). length d \<le> chunkSize"
    using cs(1,5) by simp
  ultimately show ?thesis
    using EncWriter cs(2) by auto
qed

lemma NewWriter_ok:
  assumes "dst_ok dst" "NewWriter G A salt pfx dst [] password = (Inr w, out)"
  shows "if password = [] then w = PlainWriter \<and> out = header modePlain [] []
    else \<exists>sa px key. salt = Inr sa \<and> pfx = Inr px \<and> newAEAD G A password sa = Inr key \<and> out = header modeEncrypt sa px
      \<and> w = EncWriter \<lparr>ew_aead = key, ew_noncePfx = px, ew_counter = 0, ew_buf = [], ew_closed = False\<rparr>"
proof (cases "password = []")
  case True
  obtain err o' where d: "dst [] (header modePlain [] []) = (err, o')" by (cases "dst [] (header modePlain [] [])")
  with True assms(2) dst_okD [OF assms(1), of "[]" _ o'] show ?thesis
    by (cases err) (simp_all add: NewWriter_def)
next
  case False
  with assms(2) obtain sa px key where rnd: "salt = Inr sa" "pfx = Inr px" "newAEAD G A password sa = Inr key"
    by (cases salt; cases pfx; cases "newAEAD G A password (projr salt)") (simp_all add: NewWriter_def)
  obtain err o' where d: "dst [] (header modeEncrypt sa px) = (err, o')" by (cases "dst [] (header modeEncrypt sa px)")
  with False rnd assms(2) dst_okD [OF assms(1), of "[]" _ o'] show ?thesis
    by (cases err) (simp_all add: NewWriter_def)
qed

text \<open>A finished dump is a header and what \<open>Close_holds\<close> says of the body.\<close>

definition is_dump :: "aead_api \<Rightarrow> argon_api \<Rightarrow> bytes result \<Rightarrow> bytes result \<Rightarrow> string \<Rightarrow> bytes \<Rightarrow> bytes \<Rightarrow> bool" where
  "is_dump G A salt pfx password data out \<longleftrightarrow>
     (if password = [] then out = header modePlain [] [] @ data
      else \<exists>sa px key cs c. salt = Inr sa \<and> pfx = Inr px \<and> newAEAD G A password sa = Inr key
        \<and> out = header modeEncrypt sa px @ sealed_stream G key px 0 cs c \<and> concat cs @ c = data
        \<and> (\<forall>d \<in> set (c # cs). length d \<le> chunkSize))"

lemma client_Backup_parts:
  assumes "client_Backup G A W salt pfx dst (Inr []) sinkClose (Inr fs) password = (version, None, out)"
  obtains w out0 w1 out1 w2 where "NewWriter G A salt pfx dst [] password = (Inr w, out0)"
    "backup_frames G dst W 0 (w, out0) fs = (version, None, w1, out1)" "writer_Close G dst (w1, out1) = (None, w2, out)"
proof -
  obtain wres out0 where new: "NewWriter G A salt pfx dst [] password = (wres, out0)"
    by (cases "NewWriter G A salt pfx dst [] password")
  with assms obtain w where w: "wres = Inr w"
    by (cases wres) (simp_all add: client_Backup_def)
  obtain v err w1 out1 where fr: "backup_frames G dst W 0 (w, out0) fs = (v, err, w1, out1)"
    by (cases "backup_frames G dst W 0 (w, out0) fs")
  obtain cerr w2 out2 where cl: "writer_Close G dst (w1, out1) = (cerr, w2, out2)"
    by (cases "writer_Close G dst (w1, out1)")
  have "v = version" "err = None" "cerr = None" "out2 = out"
    using assms new w fr cl by (simp_all add: client_Backup_def Let_def split: if_splits)
  with new w fr cl that show thesis by simp
qed

lemma client_Backup_dump:
  assumes "aead_ok G" "dst_ok dst"
    and "client_Backup G A W salt pfx dst (Inr []) sinkClose (Inr fs) password = (version, None, out)"
  shows "is_dump G A salt pfx password (stream_data W fs) out"
proof -
  obtain w out0 w1 out1 w2 where new: "NewWriter G A salt pfx dst [] password = (Inr w, out0)"
    and fr: "backup_frames G dst W 0 (w, out0) fs = (version, None, w1, out1)"
    and cl: "writer_Close G dst (w1, out1) = (None, w2, out)"
    by (rule client_Backup_parts [OF assms(3)])
  note w = NewWriter_ok [OF assms(2) new]
  have "holds G out0 (w, out0) []"
  proof (cases "password = []")
    case True
    with w show ?thesis by (simp add: holds_def)
  next
    case False
    with w obtain key px where "w = EncWriter \<lparr>ew_aead = key, ew_noncePfx = px, ew_counter = 0, ew_buf = [], ew_closed = False\<rparr>"
      by auto
    then show ?thesis
      by (simp add: holds_def written_def chunkSize_def) (rule exI [of _ "[]"], simp)
  qed
  from backup_frames_holds [OF assms(1,2) this fr]
  have h: "holds G out0 (w1, out1) (stream_data W fs)" "alike w w1" by simp_all
  note closed = Close_holds [OF assms(1,2) h(1) cl]
  show ?thesis
  proof (cases "password = []")
    case True
    with w h(2) closed show ?thesis by (simp add: is_dump_def)
  next
    case False
    with w h(2) obtain sa px key v where "salt = Inr sa" "pfx = Inr px" "newAEAD G A password sa = Inr key"
      "out0 = header modeEncrypt sa px" "w1 = EncWriter v" "ew_aead v = key" "ew_noncePfx v = px"
      by auto
    with closed False show ?thesis by (simp add: is_dump_def)
  qed
qed

text \<open>A dump reads back, under the password it was made with; bytes after it are not looked at.\<close>

lemma dump_reads_back:
  assumes "aead_ok G" "is_dump G A salt pfx password data out"
    and "salt = Inr sa" "length sa < 256" "pfx = Inr px" "length px = noncePfxLen"
    and "password = [] \<longrightarrow> rest = []"
  shows "\<exists>rd cs. NewReader G A (out @ rest, None) password = Inr rd \<and> pump G rd [] = (cs, None) \<and> concat cs = data"
proof (cases "password = []")
  case True
  obtain cs e where p: "pump G (PlainReader (data, None)) [] = (cs, e)" by (cases "pump G (PlainReader (data, None)) []")
  have "NewReader G A (out @ rest, None) password = Inr (PlainReader (data, None))"
    using assms(2,7) True NewReader_plain by (simp add: is_dump_def)
  with pump_plain [OF p] p show ?thesis by simp
next
  case False
  then obtain key cs c where d: "newAEAD G A password sa = Inr key" "out = header modeEncrypt sa px @ sealed_stream G key px 0 cs c"
    "concat cs @ c = data" "\<forall>d \<in> set (c # cs). length d \<le> chunkSize"
    using assms(2,3,5) by (auto simp: is_dump_def)
  let ?r = "\<lparr>er_src = (sealed_stream G key px 0 cs c @ rest, None), er_aead = key, er_noncePfx = px, er_counter = 0,
    er_plain = [], er_done = False\<rparr>"
  obtain xs e where p: "pump G (EncReader ?r) [] = (xs, e)" by (cases "pump G (EncReader ?r) []")
  have "NewReader G A (out @ rest, None) password = Inr (EncReader ?r)"
    using NewReader_enc [OF assms(4,6) d(1) False] d(2) by simp
  moreover have "drain G ?r = (data, None)"
    using drain_sealed [OF assms(1) d(4), of ?r rest None] d(3) by simp
  ultimately show ?thesis
    using pump_enc [OF p] p by simp
qed

end
