(* ===== verification/Backup_Props.thy ===== *)
theory Backup_Props
  imports Backup_Client Quorum_Props
begin

text \<open>
  Properties of backups: a dump taken from one node and restored into another reproduces its store, what
  a reader yields from a tampered dump is a leading part of the original, every cut is noticed, the read
  loop stops on any input, and the offline verifier accepts exactly the dumps whose chain head a verified
  certificate attests.
\<close>

section \<open>Streams\<close>

lemma backup_loop_frames:
  assumes "\<And>n. \<not> stop n"
  shows "backup_loop stop out chunks fin =
    out @ map (\<lambda>c. \<lparr>bf_Data = c, bf_Version = 0, bf_Done = False\<rparr>) (filter (\<lambda>c. c \<noteq> []) chunks)
    @ (case fin of Inl _ \<Rightarrow> [] | Inr v \<Rightarrow> [\<lparr>bf_Data = [], bf_Version = v, bf_Done = True\<rparr>])"
  using assms by (induction chunks arbitrary: out) (simp_all split: sum.split)

lemma encoded_frame:
  assumes "wire_ok W"
  shows "is_Map W (backupFrame_Encode W f)" "get_Boolean W (backupFrame_Encode W f) ''done'' = bf_Done f"
    and "bf_Done f \<Longrightarrow> get_Long W (backupFrame_Encode W f) ''version'' = bf_Version f"
    and "\<not> bf_Done f \<Longrightarrow> get_Raw W (backupFrame_Encode W f) ''data'' = bf_Data f"
  by (simp_all add: backupFrame_Encode_def Let_def wire_maps [OF assms])

lemma stream_data_encoded:
  assumes "wire_ok W"
  shows "stream_data W (map (backupFrame_Encode W) fs) = concat (map (\<lambda>f. if bf_Done f then [] else bf_Data f) fs)"
  by (induction fs) (simp_all add: stream_data_def encoded_frame [OF assms])

lemma concat_filter_nonempty: "concat (filter (\<lambda>c. c \<noteq> []) cs) = concat cs"
  by (induction cs) auto

text \<open>The version of the last final frame.\<close>

lemma backup_frames_version:
  assumes "backup_frames G dst W version st fs = (v, None, st')"
  shows "v = fold (\<lambda>f acc. if is_Map W f \<and> get_Boolean W f ''done'' then get_Long W f ''version'' else acc) fs version"
  using assms
proof (induction fs arbitrary: version st)
  case (Cons f fs)
  show ?case
  proof (cases "is_Map W f \<and> \<not> get_Boolean W f ''done''")
    case True
    obtain err st1 where "writer_Write G dst st (get_Raw W f ''data'') = (err, st1)"
      by (cases "writer_Write G dst st (get_Raw W f ''data'')")
    with True Cons.prems have "backup_frames G dst W version st1 fs = (v, None, st')"
      by (cases err) simp_all
    with Cons.IH True show ?thesis by simp
  next
    case False
    with Cons show ?thesis by (cases "is_Map W f") simp_all
  qed
qed simp

lemma fold_no_done:
  assumes "wire_ok W" "\<forall>f \<in> set fs. \<not> bf_Done f"
  shows "fold (\<lambda>f acc. if is_Map W f \<and> get_Boolean W f ''done'' then get_Long W f ''version'' else acc)
    (map (backupFrame_Encode W) fs) version = version"
  using assms(2) by (induction fs) (simp_all add: encoded_frame [OF assms(1)])

lemma last_frame_version:
  assumes "wire_ok W" "\<forall>f \<in> set ds. \<not> bf_Done f" "bf_Done f"
    and "backup_frames G dst W version st (map (backupFrame_Encode W) (ds @ [f])) = (v, None, st')"
  shows "v = bf_Version f"
  using backup_frames_version [OF assms(4)] fold_no_done [OF assms(1,2), of version] assms(3)
  by (simp add: encoded_frame [OF assms(1)] del: fold_map)

lemma restore_frames_data:
  assumes "wire_ok W"
  shows "concat (map (\<lambda>v. if is_Map W v then get_Raw W v ''data'' else [])
    (map (\<lambda>c. map_Put W (EmptyMap W) ''data'' (mk_Raw W c)) chunks)) = concat chunks"
  by (induction chunks) (simp_all add: wire_maps [OF assms])

lemma Load_dump_cells:
  assumes "dump_ok (badger E)" "Backup E s 0 = Inr (w, v)" "contents (badger E) (db s0) = []" "Load E s0 w = (None, s')"
  shows "cells E s' = cells E s"
proof -
  obtain d' where "db_Load (badger E) (db s0) w = (None, d')" "db s' = d'"
    using assms(4) by (auto simp: Load_def Let_def split: prod.splits)
  moreover from this have "contents (badger E) d' = contents (badger E) (db s)"
    using assms(1-3) unfolding dump_ok_def Backup_def by blast
  ultimately show ?thesis
    by (simp add: cells_def txn_cells_def view_def)
qed

section \<open>A cipher that can be evaluated\<close>

text \<open>The sealed text carries its nonce, padded to the length of a tag.\<close>

definition plain_aead :: aead_api where
  "plain_aead = \<lparr>NewCipher = (\<lambda>k. if length k = 32 then None else Some (Msg ''invalid key size'')),
     aead_Seal = (\<lambda>k n p. n @ [0, 0, 0, 0] @ p),
     aead_Open = (\<lambda>k n ct. if length n = 12 \<and> 16 \<le> length ct \<and> take 16 ct = n @ [0, 0, 0, 0] then Some (drop 16 ct) else None)\<rparr>"

lemma plain_aead_ok: "aead_ok plain_aead"
  by (simp add: aead_ok_def plain_aead_def)

definition append_dst :: dst where
  "append_dst out b = (None, out @ b)"

lemma append_dst_ok: "dst_ok append_dst"
  by (simp add: dst_ok_def append_dst_def)

section \<open>Errors of the writer\<close>

text \<open>The buffer never outgrows a chunk, and every error a write reports comes from the destination.\<close>

definition dst_raises :: "(go_error \<Rightarrow> bool) \<Rightarrow> dst \<Rightarrow> bool" where
  "dst_raises P dst \<longleftrightarrow> (\<forall>a b e. fst (dst a b) = Some e \<longrightarrow> P e)"

lemma dst_raisesD: "dst_raises P dst \<Longrightarrow> dst a b = (Some e, c) \<Longrightarrow> P e"
  unfolding dst_raises_def by (metis fst_conv)

lemma seal_errors:
  assumes "seal G dst fin (w, out) = (err, w', out')" "dst_raises P dst"
  shows "err = Some e \<Longrightarrow> P e" and "ew_buf w' = []" and "ew_closed w' = ew_closed w"
proof -
  let ?ct = "aead_Seal G (ew_aead w) (nonce (ew_noncePfx w) (ew_counter w) fin) (ew_buf w)"
  let ?hdr = "be_bytes 4 (unat (if fin then or (word_of_nat (length ?ct)) (word_of_nat lastFlagBit) else (word_of_nat (length ?ct) :: u32)))"
  obtain e1 o1 where d1: "dst out ?hdr = (e1, o1)" by (cases "dst out ?hdr")
  obtain e2 o2 where d2: "dst o1 ?ct = (e2, o2)" by (cases "dst o1 ?ct")
  have sealed: "seal G dst fin (w, out) =
      (case e1 of Some e \<Rightarrow> (Some e, w\<lparr>ew_counter := ew_counter w + 1, ew_buf := []\<rparr>, o1)
       | None \<Rightarrow> (e2, w\<lparr>ew_counter := ew_counter w + 1, ew_buf := []\<rparr>, o2))"
    unfolding seal_def Let_def prod.case d1 d2 ..
  show "err = Some e \<Longrightarrow> P e"
    using assms(1) sealed dst_raisesD [OF assms(2), of out ?hdr e o1] dst_raisesD [OF assms(2), of o1 ?ct e o2] d1 d2
    by (cases e1) simp_all
  show "ew_buf w' = []" "ew_closed w' = ew_closed w"
    using assms(1) sealed by (cases e1; auto)+
qed

lemma write_loop_errors:
  assumes "dst_raises P dst" "length (ew_buf w) < chunkSize"
    and "write_loop G dst (w, out) p = (err, w', out')"
  shows "(err = Some e \<longrightarrow> P e) \<and> length (ew_buf w') < chunkSize \<and> ew_closed w' = ew_closed w"
  using assms
proof (induction G dst "(w, out)" p arbitrary: w out rule: write_loop.induct)
  case (1 G dst w out p)
  define n where "n = min (length p) (chunkSize - length (ew_buf w))"
  define w1 where "w1 = w\<lparr>ew_buf := ew_buf w @ take n p\<rparr>"
  have not_over: "\<not> chunkSize < length (ew_buf w)"
    using "1.prems"(2) by simp
  show ?case
  proof (cases "p = []")
    case True
    then show ?thesis
      using "1.prems"(2,3) by (simp add: write_loop.simps [of G dst w out "[]"])
  next
    case False
    have unfolded: "write_loop G dst (w, out) p =
        (if length (ew_buf w1) = chunkSize
         then (case seal G dst False (w1, out) of
                 (Some e, st) \<Rightarrow> (Some e, st)
               | (None, st) \<Rightarrow> write_loop G dst (fst st, snd st) (drop n p))
         else write_loop G dst (w1, out) (drop n p))"
      by (subst write_loop.simps) (simp only: False not_over if_False Let_def n_def w1_def)
    show ?thesis
    proof (cases "length (ew_buf w1) = chunkSize")
      case True
      obtain serr w2 out2 where seal: "seal G dst False (w1, out) = (serr, w2, out2)"
        by (cases "seal G dst False (w1, out)")
      note s = seal_errors [OF seal "1.prems"(1)]
      have small: "length (ew_buf w2) < chunkSize" "ew_closed w2 = ew_closed w"
        using s(2,3) by (simp_all add: chunkSize_def w1_def)
      show ?thesis
      proof (cases serr)
        case None
        have "write_loop G dst (w2, out2) (drop n p) = (err, w', out')"
          using "1.prems"(3) unfolded True seal None by simp
        then show ?thesis
          using "1.hyps"(1) [OF False not_over n_def w1_def True seal [symmetric] None "1.prems"(1)] small by simp
      next
        case (Some x)
        then show ?thesis
          using "1.prems"(3) unfolded True seal s(1) small by simp
      qed
    next
      case part: False
      have "length (ew_buf w1) < chunkSize"
        using part "1.prems"(2) by (auto simp: w1_def n_def min_def split: if_splits)
      from "1.hyps"(2) [OF False not_over n_def w1_def part "1.prems"(1) this] show ?thesis
        using "1.prems"(3) part unfolded by (simp add: w1_def)
    qed
  qed
qed

definition wf_writer :: "writer \<Rightarrow> bool" where
  "wf_writer w \<longleftrightarrow> (case w of PlainWriter \<Rightarrow> True | EncWriter v \<Rightarrow> length (ew_buf v) < chunkSize \<and> \<not> ew_closed v)"

lemma NewWriter_wf: "NewWriter G A salt pfx dst out password = (Inr w, out') \<Longrightarrow> wf_writer w"
  by (auto simp: NewWriter_def wf_writer_def chunkSize_def split: if_splits sum.splits prod.splits option.splits)

lemma Write_errors:
  assumes "dst_raises P dst" "wf_writer w" "writer_Write G dst (w, out) p = (err, w', out')"
  shows "(err = Some e \<longrightarrow> P e) \<and> wf_writer w'"
proof (cases w)
  case PlainWriter
  obtain x o' where d: "dst out p = (x, o')" by (cases "dst out p")
  with dst_raisesD [OF assms(1), of out p e o'] assms(3) PlainWriter show ?thesis
    by (simp add: writer_Write_def wf_writer_def)
next
  case (EncWriter v)
  obtain x v1 o1 where l: "write_loop G dst (v, out) p = (x, v1, o1)" by (cases "write_loop G dst (v, out) p")
  have v: "length (ew_buf v) < chunkSize" "\<not> ew_closed v"
    using assms(2) EncWriter by (simp_all add: wf_writer_def)
  with l assms(3) EncWriter have "err = x" "w' = EncWriter v1"
    by (cases x; simp add: writer_Write_def encWriter_Write_def)+
  with write_loop_errors [OF assms(1) v(1) l] v(2) show ?thesis
    by (simp add: wf_writer_def)
qed

lemma backup_frames_errors:
  assumes "dst_raises P dst" "wf_writer w"
    and "backup_frames G dst W version (w, out) fs = (v, err, w', out')"
  shows "(err = Some e \<longrightarrow> P e) \<and> wf_writer w'"
  using assms(2,3)
proof (induction fs arbitrary: version w out)
  case (Cons f fs)
  show ?case
  proof (cases "is_Map W f \<and> \<not> get_Boolean W f ''done''")
    case True
    obtain x w1 out1 where wr: "writer_Write G dst (w, out) (get_Raw W f ''data'') = (x, w1, out1)"
      by (cases "writer_Write G dst (w, out) (get_Raw W f ''data'')")
    note e = Write_errors [OF assms(1) Cons.prems(1) wr]
    show ?thesis
    proof (cases x)
      case None
      with True wr Cons.prems(2) have "backup_frames G dst W version (w1, out1) fs = (v, err, w', out')" by simp
      from Cons.IH [OF _ this] e show ?thesis by simp
    next
      case (Some y)
      with True wr Cons.prems(2) e show ?thesis by simp
    qed
  next
    case False
    with Cons.prems(2) obtain version' where "backup_frames G dst W version' (w, out) fs = (v, err, w', out')"
      by (cases "is_Map W f") simp_all
    then show ?thesis by (rule Cons.IH [OF Cons.prems(1)])
  qed
qed simp

lemma Close_errors:
  assumes "dst_raises P dst" "writer_Close G dst (w, out) = (err, w', out')"
  shows "err = Some e \<longrightarrow> P e"
proof (cases w)
  case PlainWriter
  with assms(2) show ?thesis by (simp add: writer_Close_def)
next
  case (EncWriter v)
  show ?thesis
  proof (cases "ew_closed v")
    case False
    obtain x v1 o1 where s: "seal G dst True (v\<lparr>ew_closed := True\<rparr>, out) = (x, v1, o1)"
      by (cases "seal G dst True (v\<lparr>ew_closed := True\<rparr>, out)")
    with EncWriter False assms(2) have "err = x"
      by (simp add: writer_Close_def encWriter_Close_def)
    with seal_errors(1) [OF s assms(1)] show ?thesis by simp
  qed (use EncWriter assms(2) in \<open>simp add: writer_Close_def encWriter_Close_def\<close>)
qed

text \<open>With a destination that takes everything, a backup of any frames succeeds.\<close>

lemma NewWriter_total:
  assumes "dst_raises (\<lambda>_. False) dst" "password \<noteq> [] \<Longrightarrow> newAEAD G A password sa = Inr key"
  shows "\<exists>w out. NewWriter G A (Inr sa) (Inr px) dst [] password = (Inr w, out)"
proof (cases "password = []")
  case True
  obtain err o' where d: "dst [] (header modePlain [] []) = (err, o')" by (cases "dst [] (header modePlain [] [])")
  then have "err = None" using dst_raisesD [OF assms(1), of "[]" "header modePlain [] []" _ o'] by (cases err) simp_all
  with True d show ?thesis by (simp add: NewWriter_def)
next
  case False
  obtain err o' where d: "dst [] (header modeEncrypt sa px) = (err, o')" by (cases "dst [] (header modeEncrypt sa px)")
  then have "err = None" using dst_raisesD [OF assms(1), of "[]" "header modeEncrypt sa px" _ o'] by (cases err) simp_all
  with False d assms(2) show ?thesis by (simp add: NewWriter_def)
qed

lemma backup_succeeds:
  assumes "dst_raises (\<lambda>_. False) dst" "\<And>b. sinkClose b = None"
    and "password \<noteq> [] \<Longrightarrow> newAEAD G A password sa = Inr key"
  shows "\<exists>version out. client_Backup G A W (Inr sa) (Inr px) dst (Inr []) sinkClose (Inr fs) password = (version, None, out)"
proof -
  have "\<exists>w out0. NewWriter G A (Inr sa) (Inr px) dst [] password = (Inr w, out0)"
    by (rule NewWriter_total [OF assms(1)]) (rule assms(3))
  then obtain w out0 where new: "NewWriter G A (Inr sa) (Inr px) dst [] password = (Inr w, out0)"
    by (elim exE)
  obtain v err w1 out1 where fr: "backup_frames G dst W 0 (w, out0) fs = (v, err, w1, out1)"
    by (cases "backup_frames G dst W 0 (w, out0) fs")
  obtain cerr w2 out2 where cl: "writer_Close G dst (w1, out1) = (cerr, w2, out2)"
    by (cases "writer_Close G dst (w1, out1)")
  have e1: "(err = Some e \<longrightarrow> False) \<and> wf_writer w1" for e
    by (rule backup_frames_errors [OF assms(1) NewWriter_wf [OF new] fr])
  have e2: "cerr = Some e \<longrightarrow> False" for e
    by (rule Close_errors [OF assms(1) cl])
  have "err = None" using e1 [of "the err"] by (cases err) simp_all
  moreover have "cerr = None" using e2 [of "the cerr"] by (cases cerr) simp_all
  ultimately show ?thesis
    by (simp add: client_Backup_def new fr cl assms(2))
qed

lemma newAEAD_exists:
  assumes "argon_ok A" "aead_ok G"
  shows "\<exists>key. newAEAD G A password salt = Inr key"
proof -
  have "(of_nat argonTimeCost :: u32) \<noteq> 0" "(of_nat dump_argonThreads :: byte) \<noteq> 0"
    by (simp_all add: argonTimeCost_def dump_argonThreads_def)
  then obtain k where "IDKey A (bytes_of password) salt (of_nat argonTimeCost) (of_nat argonMemKiB) (of_nat dump_argonThreads) keyLen = Inr k"
    "length k = keyLen"
    using assms(1) unfolding argon_ok_def by blast
  with assms(2) show ?thesis
    by (simp add: newAEAD_def bindE_def aead_ok_def keyLen_def)
qed

section \<open>Properties\<close>

subsection \<open>From a node to a dump and back\<close>

lemma dump_of_node:
  assumes "wire_ok W" "aead_ok G" "dst_ok dst" "length sa = saltLen" "length px = noncePfxLen"
    and "admin_backup E A now reads part (\<lambda>_. False) princ (pol, src) 0 = (Inr fs, st)"
    and "Backup E (fsm_Storage src) 0 = Inr (img, v)" "concat (reads img) = img"
    and "client_Backup G K W (Inr sa) (Inr px) dst (Inr []) sinkClose (Inr (map (backupFrame_Encode W) fs)) password
      = (version, None, out)"
  shows "version = v \<and> (\<exists>rd chunks. NewReader G K (out, None) password = Inr rd \<and> pump G rd [] = (chunks, None) \<and> concat chunks = img)"
proof -
  let ?data = "map (\<lambda>c. \<lparr>bf_Data = c, bf_Version = 0, bf_Done = False\<rparr>) (filter (\<lambda>c. c \<noteq> []) (reads img))"
  let ?last = "\<lparr>bf_Data = [], bf_Version = v, bf_Done = True\<rparr>"
  have "fs = backup_loop (\<lambda>_. False) [] (reads img) (Inr v)"
    using assms(6,7) by (simp add: admin_backup_def split: prod.splits option.splits)
  then have fs: "fs = ?data @ [?last]"
    by (simp add: backup_loop_frames)
  have data: "stream_data W (map (backupFrame_Encode W) fs) = img"
    unfolding stream_data_encoded [OF assms(1)] fs using assms(8) by (simp add: comp_def concat_filter_nonempty)
  obtain st0 st' where "backup_frames G dst W 0 st0 (map (backupFrame_Encode W) fs) = (version, None, st')"
    by (rule client_Backup_parts [OF assms(9)]) blast
  then have "version = v"
    using last_frame_version [OF assms(1), of ?data ?last G dst 0 st0 version st'] unfolding fs by simp
  moreover have "\<exists>rd chunks. NewReader G K (out, None) password = Inr rd \<and> pump G rd [] = (chunks, None) \<and> concat chunks = img"
    using dump_reads_back [OF assms(2) client_Backup_dump [OF assms(2,3,9)] refl _ refl assms(5), of "[]"] assms(4) data
    by (simp add: saltLen_def)
  ultimately show ?thesis ..
qed

text \<open>C15 A backup restores: the dump a client takes of one node, plain or encrypted, reads back without an
  error, and a node with an empty database that loads what the client sends ends with the source's
  records; the version the client reports is the one the source's engine gave.\<close>

theorem backup_restores:
  assumes "dump_ok (badger E)" "wire_ok W" "aead_ok G" "dst_ok dst" "length sa = saltLen" "length px = noncePfxLen"
    and "admin_backup E A now reads part (\<lambda>_. False) princ (pol, src) 0 = (Inr fs, st)"
    and "Backup E (fsm_Storage src) 0 = Inr (img, v)" "concat (reads img) = img"
    and "client_Backup G K W (Inr sa) (Inr px) dst (Inr []) sinkClose (Inr (map (backupFrame_Encode W) fs)) password
      = (version, None, out)"
  shows "version = v \<and> (\<exists>rd chunks. NewReader G K (out, None) password = Inr rd \<and> pump G rd [] = (chunks, None)
    \<and> (\<forall>t pol1 rn used princ' pol2 t'.
        admin_restore E A W now rn used princ' (pol1, t) (map (\<lambda>c. map_Put W (EmptyMap W) ''data'' (mk_Raw W c)) chunks)
          = (Inr (Some (RestoreDone None)), pol2, t')
        \<longrightarrow> contents (badger E) (db (fsm_Storage t)) = [] \<longrightarrow> cells E (fsm_Storage t') = cells E (fsm_Storage src)))"
proof -
  obtain rd chunks where rd: "version = v" "NewReader G K (out, None) password = Inr rd" "pump G rd [] = (chunks, None)"
    "concat chunks = img"
    using dump_of_node [OF assms(2-10)] by blast
  moreover have "cells E (fsm_Storage t') = cells E (fsm_Storage src)"
    if "admin_restore E A W now rn used princ' (pol1, t) (map (\<lambda>c. map_Put W (EmptyMap W) ''data'' (mk_Raw W c)) chunks)
          = (Inr (Some (RestoreDone None)), pol2, t')" "contents (badger E) (db (fsm_Storage t)) = []"
    for t pol1 rn used princ' pol2 t'
  proof -
    have "\<exists>s. Load E (fsm_Storage t) img = (None, s) \<and> fsm_Storage t' = s"
      using that(1) unfolding admin_restore_def restore_frames_data [OF assms(2)] rd(4)
      by (auto simp: Let_def split: prod.splits option.splits if_splits)
    then show ?thesis
      using Load_dump_cells [OF assms(1,8) that(2)] by blast
  qed
  ultimately show ?thesis by blast
qed

definition mem_source :: "entries FSM" where
  "mem_source = snd (Apply mem_runtime sample_V 0 fresh_node (incr_entry 1))"

theorem backup_restores_witness:
  "\<exists>img v fs version out rd chunks pol t'.
    Backup mem_runtime (fsm_Storage mem_source) 0 = Inr (img, v)
    \<and> client_Backup plain_aead mem_argon mem_wire (Inr (replicate 16 1)) (Inr (replicate 4 2)) append_dst (Inr []) (\<lambda>_. None)
        (Inr (map (backupFrame_Encode mem_wire) fs)) ''pw'' = (version, None, out)
    \<and> version = v \<and> NewReader plain_aead mem_argon (out, None) ''pw'' = Inr rd \<and> pump plain_aead rd [] = (chunks, None)
    \<and> admin_restore mem_runtime viewer_iam mem_wire 0 None (\<lambda>_. 0) [] (None, fresh_node)
        (map (\<lambda>c. map_Put mem_wire (EmptyMap mem_wire) ''data'' (mk_Raw mem_wire c)) chunks)
        = (Inr (Some (RestoreDone None)), pol, t')
    \<and> cells mem_runtime (fsm_Storage t') = cells mem_runtime (fsm_Storage mem_source)"
proof -
  obtain img v where img: "Backup mem_runtime (fsm_Storage mem_source) 0 = Inr (img, v)"
    by (simp add: Backup_def mem_badger_def)
  obtain fs st where fs: "admin_backup mem_runtime viewer_iam 0 (\<lambda>b. [b]) [] (\<lambda>_. False) [] (None, mem_source) 0 = (Inr fs, st)"
    by (simp add: admin_backup_def Authorize_def)
  obtain version out where cb: "client_Backup plain_aead mem_argon mem_wire (Inr (replicate 16 1)) (Inr (replicate 4 2)) append_dst
      (Inr []) (\<lambda>_. None) (Inr (map (backupFrame_Encode mem_wire) fs)) ''pw'' = (version, None, out)"
    using newAEAD_exists [OF mem_argon_ok plain_aead_ok, of "''pw''" "replicate 16 1"]
      backup_succeeds [of append_dst "\<lambda>_. None" "''pw''" plain_aead mem_argon "replicate 16 1"]
    by (elim exE) (fastforce simp: append_dst_def dst_raises_def)
  have "dump_ok (badger mem_runtime)"
    using mem_dump_ok by simp
  from backup_restores [OF this mem_wire_ok plain_aead_ok append_dst_ok _ _ fs img _ cb]
  obtain rd chunks where r: "version = v" "NewReader plain_aead mem_argon (out, None) ''pw'' = Inr rd"
    "pump plain_aead rd [] = (chunks, None)"
    and load: "\<And>t pol1 rn used princ' pol2 t'.
        admin_restore mem_runtime viewer_iam mem_wire 0 rn used princ' (pol1, t)
          (map (\<lambda>c. map_Put mem_wire (EmptyMap mem_wire) ''data'' (mk_Raw mem_wire c)) chunks)
          = (Inr (Some (RestoreDone None)), pol2, t')
        \<Longrightarrow> contents (badger mem_runtime) (db (fsm_Storage t)) = []
        \<Longrightarrow> cells mem_runtime (fsm_Storage t') = cells mem_runtime (fsm_Storage mem_source)"
    by (auto simp: saltLen_def noncePfxLen_def)
  obtain pol t' where t': "admin_restore mem_runtime viewer_iam mem_wire 0 None (\<lambda>_. 0) [] (None, fresh_node)
      (map (\<lambda>c. map_Put mem_wire (EmptyMap mem_wire) ''data'' (mk_Raw mem_wire c)) chunks)
      = (Inr (Some (RestoreDone None)), pol, t')"
    by (simp add: admin_restore_def Authorize_def Load_def mem_badger_def Let_def replicates_def)
  have "contents (badger mem_runtime) (db (fsm_Storage fresh_node)) = []"
    by (simp add: mem_badger_def mem_empty_def canon_def)
  from load [OF t' this] img cb r t' show ?thesis by blast
qed

subsection \<open>Hostile and damaged dumps\<close>

text \<open>C16 An encrypted dump is authentic to the byte: whatever follows its header, frames dropped, repeated,
  reordered or replaced, a reader with the password yields a leading part of the data that was backed up,
  and all of it when it reports no error, as long as no ciphertext opens that the backup did not seal.\<close>

theorem dump_authentic:
  assumes "aead_ok G" "dst_ok dst" "length sa = saltLen" "length px = noncePfxLen" "password \<noteq> []"
    and "client_Backup G K W (Inr sa) (Inr px) dst (Inr []) sinkClose (Inr fs) password
      = (version, None, header modeEncrypt sa px @ sealed_stream G key px 0 cs c)"
    and "newAEAD G K password sa = Inr key" "\<forall>d \<in> set (c # cs). length d \<le> chunkSize" "length cs + 1 < 2 ^ 56"
    and "only_sealed G key px (cs @ [c]) body"
  shows "\<exists>rd chunks err. NewReader G K (header modeEncrypt sa px @ body, e) password = Inr rd \<and> pump G rd [] = (chunks, err)
    \<and> prefix (concat chunks) (stream_data W fs) \<and> (err = None \<longrightarrow> concat chunks = stream_data W fs)"
proof -
  let ?r = "\<lambda>b x. \<lparr>er_src = (b, x), er_aead = key, er_noncePfx = px, er_counter = 0, er_plain = [], er_done = False\<rparr>"
  have sa: "length sa < 256"
    using assms(3) by (simp add: saltLen_def)
  have rd: "NewReader G K (header modeEncrypt sa px @ b, x) password = Inr (EncReader (?r b x))" for b x
    by (rule NewReader_enc [OF sa assms(4,7,5)])
  have data: "stream_data W fs = concat cs @ c"
  proof -
    obtain ds d where "sealed_stream G key px 0 cs c = sealed_stream G key px 0 ds d" "concat ds @ d = stream_data W fs"
      "\<forall>x \<in> set (d # ds). length x \<le> chunkSize"
      using client_Backup_dump [OF assms(1,2,6)] assms(5,7) by (auto simp: is_dump_def)
    with drain_sealed [OF assms(1) assms(8), of "?r (sealed_stream G key px 0 cs c) None" "[]" None]
      drain_sealed [OF assms(1), of d ds "?r (sealed_stream G key px 0 cs c) None" "[]" None]
    show ?thesis by simp
  qed
  obtain chunks err where p: "pump G (EncReader (?r body e)) [] = (chunks, err)"
    by (cases "pump G (EncReader (?r body e)) []")
  have "drain G (?r body e) = (concat chunks, err)"
    using pump_enc [OF p] by (cases "drain G (?r body e)") simp
  with drain_authentic [of G "?r body e" "cs @ [c]" 0] assms(9,10) data rd p show ?thesis by simp
qed

text \<open>The encrypted dump of an empty stream: one final frame.\<close>

definition pw_key :: bytes where
  "pw_key = bytes_of ''pw'' @ replicate 30 0"

definition empty_body :: bytes where
  "empty_body = sealed_stream plain_aead pw_key (replicate 4 2) 0 [] []"

lemma pw_newAEAD: "newAEAD plain_aead mem_argon ''pw'' (replicate 16 1) = Inr pw_key"
  by (simp add: newAEAD_def mem_argon_def plain_aead_def bindE_def keyLen_def argonTimeCost_def dump_argonThreads_def pw_key_def)

lemma empty_dump:
  "client_Backup plain_aead mem_argon mem_wire (Inr (replicate 16 1)) (Inr (replicate 4 2)) append_dst (Inr []) (\<lambda>_. None)
     (Inr []) ''pw'' = (0, None, header modeEncrypt (replicate 16 1) (replicate 4 2) @ empty_body)"
proof -
  let ?h = "header modeEncrypt (replicate 16 1) (replicate 4 2)"
  let ?w = "\<lparr>ew_aead = pw_key, ew_noncePfx = replicate 4 2, ew_counter = 0, ew_buf = [], ew_closed = True\<rparr>"
  obtain err w out where seal: "seal plain_aead append_dst True (?w, ?h) = (err, w, out)"
    by (cases "seal plain_aead append_dst True (?w, ?h)")
  have "err = None"
    using seal by (simp add: seal_def append_dst_def Let_def)
  with seal_frame(2) [OF plain_aead_ok append_dst_ok, of ?w True ?h w out] seal have "out = ?h @ empty_body"
    by (simp add: empty_body_def sealed_stream_def)
  with seal \<open>err = None\<close> show ?thesis
    by (simp add: client_Backup_def NewWriter_def append_dst_def pw_newAEAD writer_Close_def encWriter_Close_def)
qed

lemma empty_only_sealed: "only_sealed plain_aead pw_key (replicate 4 2) ([] @ [[]]) (empty_body @ [9, 9])"
proof -
  let ?ct = "nonce (replicate 4 2) 0 True @ [0, 0, 0, 0]"
  have body: "empty_body @ [9, 9] = be_bytes 4 (16 + 2 ^ 31) @ ?ct @ [9, 9]"
    by (simp add: empty_body_def sealed_stream_def frame_def plain_aead_def)
  have "frame_bodies (empty_body @ [9, 9]) = [?ct]"
    unfolding body using frame_header(1) [of 16 True]
    by (subst frame_bodies.simps) (simp add: Let_def frame_bodies.simps [of "[9, 9]"])
  then show ?thesis
    by (simp add: only_sealed_def plain_aead_def split: if_splits)
qed

theorem dump_authentic_witness:
  "\<exists>rd chunks err. NewReader plain_aead mem_argon (header modeEncrypt (replicate 16 1) (replicate 4 2) @ empty_body @ [9, 9], None) ''pw''
      = Inr rd \<and> pump plain_aead rd [] = (chunks, err) \<and> prefix (concat chunks) (stream_data mem_wire [])
    \<and> (err = None \<longrightarrow> concat chunks = stream_data mem_wire [])"
  by (rule dump_authentic [OF plain_aead_ok append_dst_ok _ _ _ empty_dump [unfolded empty_body_def] pw_newAEAD])
    (simp_all add: empty_only_sealed [unfolded append_Nil] saltLen_def noncePfxLen_def)



text \<open>C39 A dump that failed on the node is reported as a complete one: when the engine's backup ends with an
  error, the stream just ends, and the client closes a well-formed container over what had arrived and
  returns no error.\<close>

theorem failed_dump_reported_complete:
  assumes "wire_ok W" "aead_ok G" "argon_ok K" "dst_ok dst" "dst_raises (\<lambda>_. False) dst" "\<And>b. sinkClose b = None"
    and "admin_backup E A now reads part (\<lambda>_. False) princ (pol, src) since = (Inr fs, st)"
    and "Backup E (fsm_Storage src) since = Inl e"
  shows "\<exists>out. client_Backup G K W (Inr sa) (Inr px) dst (Inr []) sinkClose (Inr (map (backupFrame_Encode W) fs)) password
      = (0, None, out) \<and> is_dump G K (Inr sa) (Inr px) password (concat (reads part)) out"
proof -
  let ?data = "map (\<lambda>c. \<lparr>bf_Data = c, bf_Version = 0, bf_Done = False\<rparr>) (filter (\<lambda>c. c \<noteq> []) (reads part))"
  have "fs = backup_loop (\<lambda>_. False) [] (reads part) (Inl e)"
    using assms(7,8) by (simp add: admin_backup_def split: prod.splits option.splits)
  then have fs: "fs = ?data"
    by (simp add: backup_loop_frames)
  have data: "stream_data W (map (backupFrame_Encode W) fs) = concat (reads part)"
    unfolding stream_data_encoded [OF assms(1)] fs by (simp add: comp_def concat_filter_nonempty)
  obtain key where "newAEAD G K password sa = Inr key"
    using newAEAD_exists [OF assms(3,2)] by blast
  then obtain version out where cb: "client_Backup G K W (Inr sa) (Inr px) dst (Inr []) sinkClose
      (Inr (map (backupFrame_Encode W) fs)) password = (version, None, out)"
    using backup_succeeds [OF assms(5), of sinkClose password G K sa key W px] assms(6) by blast
  obtain st0 st' where "backup_frames G dst W 0 st0 (map (backupFrame_Encode W) fs) = (version, None, st')"
    by (rule client_Backup_parts [OF cb]) blast
  from backup_frames_version [OF this] fold_no_done [OF assms(1), of fs 0] have "version = 0"
    by (simp add: fs del: fold_map)
  with cb client_Backup_dump [OF assms(2,4) cb] data show ?thesis by auto
qed

definition broken_runtime :: "entries runtime" where
  "broken_runtime = mem_runtime\<lparr>badger := mem_badger\<lparr>db_Backup := (\<lambda>_ _. Inl (Msg ''disk''))\<rparr>\<rparr>"

theorem failed_dump_reported_complete_witness:
  "\<exists>fs st out. admin_backup broken_runtime viewer_iam 0 (\<lambda>b. [b]) [5, 6] (\<lambda>_. False) [] (None, mem_source) 0 = (Inr fs, st)
    \<and> client_Backup plain_aead mem_argon mem_wire (Inr (replicate 16 1)) (Inr (replicate 4 2)) append_dst (Inr []) (\<lambda>_. None)
        (Inr (map (backupFrame_Encode mem_wire) fs)) ''pw'' = (0, None, out)
    \<and> is_dump plain_aead mem_argon (Inr (replicate 16 1)) (Inr (replicate 4 2)) ''pw'' [5, 6] out"
proof -
  obtain fs st where fs: "admin_backup broken_runtime viewer_iam 0 (\<lambda>b. [b]) [5, 6] (\<lambda>_. False) [] (None, mem_source) 0 = (Inr fs, st)"
    by (simp add: admin_backup_def Authorize_def)
  have "Backup broken_runtime (fsm_Storage mem_source) 0 = Inl (Msg ''disk'')"
    by (simp add: Backup_def broken_runtime_def)
  from failed_dump_reported_complete [OF mem_wire_ok plain_aead_ok mem_argon_ok append_dst_ok _ _ fs this,
      where sinkClose = "\<lambda>_. None" and sa = "replicate 16 1" and px = "replicate 4 2" and password = "''pw''"]
  have "\<exists>out. client_Backup plain_aead mem_argon mem_wire (Inr (replicate 16 1)) (Inr (replicate 4 2)) append_dst (Inr []) (\<lambda>_. None)
        (Inr (map (backupFrame_Encode mem_wire) fs)) ''pw'' = (0, None, out)
      \<and> is_dump plain_aead mem_argon (Inr (replicate 16 1)) (Inr (replicate 4 2)) ''pw'' [5, 6] out"
    by (simp add: dst_raises_def append_dst_def)
  with fs show ?thesis by blast
qed

subsection \<open>Loops and buffers\<close>

text \<open>C29 The read loop of a restore stops on every input: no source, however long or malformed, and no cipher
  lets it read on forever.\<close>

theorem pump_stops:
  "\<not> (\<exists>rd. \<forall>i. \<exists>b. reader_Read G chunkSize (rd i) = (b, None, rd (Suc i)))"
proof
  assume "\<exists>rd. \<forall>i. \<exists>b. reader_Read G chunkSize (rd i) = (b, None, rd (Suc i))"
  then obtain rd where reads: "\<forall>i. \<exists>b. reader_Read G chunkSize (rd i) = (b, None, rd (Suc i))"
    by (elim exE)
  have "(left_to_read (rd (Suc i)), left_to_read (rd i)) \<in> less_than <*lex*> less_than" for i
  proof -
    obtain b where "reader_Read G chunkSize (rd i) = (b, None, rd (Suc i))"
      using reads by blast
    then show ?thesis
      by (rule reader_Read_progress) (simp add: chunkSize_def)
  qed
  then have "\<exists>f. \<forall>i. (f (Suc i), f i) \<in> less_than <*lex*> less_than"
    by (intro exI [of _ "\<lambda>i. left_to_read (rd i)"] allI)
  moreover have "wf (less_than <*lex*> less_than)" by blast
  ultimately show False
    unfolding wf_iff_no_infinite_down_chain by simp
qed

text \<open>The container writer is well formed at every moment: from its creation through any frames, its buffer
  holds less than one chunk, so no slice bound is ever negative, and a backup never panics on a destination
  that does not.\<close>

lemma writer_stays_wf:
  assumes "dst_raises (\<lambda>e. e \<noteq> Panic) dst" "NewWriter G A salt pfx dst out password = (Inr w, out')"
    and "backup_frames G dst W version (w, out') fs = (v, err, w', out'')"
  shows "err \<noteq> Some Panic \<and> (case w' of PlainWriter \<Rightarrow> True | EncWriter u \<Rightarrow> length (ew_buf u) < chunkSize \<and> \<not> ew_closed u)"
  using backup_frames_errors [OF assms(1) NewWriter_wf [OF assms(2)] assms(3), of Panic] by (auto simp: wf_writer_def)

subsection \<open>The offline verifier\<close>

text \<open>C17 The verifier is exact about dumps of a node: it accepts the dump a client took of a node, with a given
  certificate, when the certificate verifies at the threshold and attests the chain head that node had
  persisted, and rejects it in every other case.\<close>

theorem verify_backup_exact:
  assumes "runtime_ok E" "badger_up (badger E)" "dump_ok (badger E)"
    and "wire_ok W" "aead_ok G" "dst_ok dst" "length sa = saltLen" "length px = noncePfxLen"
    and "admin_backup E A now reads part (\<lambda>_. False) princ (pol, src) 0 = (Inr fs, st)"
    and "Backup E (fsm_Storage src) 0 = Inr (img, v)" "concat (reads img) = img"
    and "client_Backup G K W (Inr sa) (Inr px) dst (Inr []) sinkClose (Inr (map (backupFrame_Encode W) fs)) password
      = (version, None, out)"
    and "contents (badger E) (db s0) = []" "fst (Load E s0 img) = None"
    and "op_Source opts = Inr (out, None)" "op_Password opts = password"
    and "ParseCAPublicKey (op_CACert opts) = Inr ca" "DecodeQuorum (op_QuorumCert opts) = Inr qc"
    and "add_certs DecodeCert (\<lambda>_. None) (op_NodeCerts opts) = Inr bundle"
  shows "\<exists>r. VerifyBackup E V G K S DecodeQuorum DecodeCert now (Inr s0) opts = Inr r
    \<and> (rs_Verified r \<longleftrightarrow>
        VerifyQuorum S ca (Some qc) bundle (if op_Threshold opts = 0 then int (length (qc_Signers qc)) else op_Threshold opts)
          (word_of_int now) = None
        \<and> (Height (qc_Checkpoint qc), Digest (qc_Checkpoint qc)) = LoadHead V (Get E now (fsm_Storage src)))"
proof -
  obtain rd chunks where rd: "NewReader G K (out, None) password = Inr rd" "pump G rd [] = (chunks, None)" "concat chunks = img"
    using dump_of_node [OF assms(4-12)] by blast
  obtain s1 where s1: "Load E s0 img = (None, s1)"
    using assms(14) by (cases "Load E s0 img") simp
  have "cells E s1 = cells E (fsm_Storage src)"
    by (rule Load_dump_cells [OF assms(3,10,13) s1])
  then have head: "loadBackupHead E V G K now (Inr s0) opts = Inr (LoadHead V (Get E now (fsm_Storage src)))"
    using rd s1 assms(15,16) by (simp add: loadBackupHead_def bindE_def LoadHead_stored [OF assms(1,2)])
  obtain index digest where h: "LoadHead V (Get E now (fsm_Storage src)) = (index, digest)"
    by (cases "LoadHead V (Get E now (fsm_Storage src))")
  show ?thesis
    using assms(17-19) head h
    by (simp add: VerifyBackup_def Let_def MatchesHead_def split: option.split)
qed

text \<open>One certified node that attests the head of the dumped node.\<close>

definition solo_cert :: NodeCert where
  "solo_cert = \<lparr>nc_NodeID = ''a'', nc_PublicKey = replicate 96 1, nc_NotAfter = 0,
     nc_CASig = replicate 32 7 @ certBody ''a'' (replicate 96 1) 0\<rparr>"

definition solo_ckpt :: Checkpoint where
  "solo_ckpt = (let (index, digest) = LoadHead sample_V (Get mem_runtime 0 (fsm_Storage mem_source)) in
     \<lparr>Height = index, Term = 0, Digest = digest, Unix = 0\<rparr>)"

definition solo_qc :: QuorumCertificate where
  "solo_qc = \<lparr>qc_Checkpoint = solo_ckpt, qc_Signers = [''a''], qc_AggSig = plain_agg [(1, signMessage solo_ckpt ''a'')]\<rparr>"

lemma solo_verifies: "VerifyQuorum plain_sig (replicate 32 7) (Some solo_qc) (AddCert solo_cert (\<lambda>_. None)) 1 0 = None"
  by (simp add: VerifyQuorum_def solo_qc_def AddCert_def CA_Verify_def solo_cert_def plain_sig_def
      ParseNodePublicKey_def bindE_def VerifyAggregate_def plain_agg_def)

theorem verify_backup_exact_witness:
  "\<exists>fs st version out r. admin_backup mem_runtime viewer_iam 0 (\<lambda>b. [b]) [] (\<lambda>_. False) [] (None, mem_source) 0 = (Inr fs, st)
    \<and> client_Backup plain_aead mem_argon mem_wire (Inr (replicate 16 1)) (Inr (replicate 4 2)) append_dst (Inr []) (\<lambda>_. None)
        (Inr (map (backupFrame_Encode mem_wire) fs)) ''pw'' = (version, None, out)
    \<and> VerifyBackup mem_runtime sample_V plain_aead mem_argon plain_sig (\<lambda>_. Inr solo_qc) (\<lambda>_. Inr solo_cert) 0 (Inr mem_empty)
        \<lparr>op_Source = Inr (out, None), op_Password = ''pw'', op_CACert = replicate 32 7, op_QuorumCert = [],
         op_NodeCerts = [[]], op_Threshold = 1\<rparr> = Inr r \<and> rs_Verified r"
proof -
  obtain img v where img: "Backup mem_runtime (fsm_Storage mem_source) 0 = Inr (img, v)"
    by (simp add: Backup_def mem_badger_def)
  obtain fs st where fs: "admin_backup mem_runtime viewer_iam 0 (\<lambda>b. [b]) [] (\<lambda>_. False) [] (None, mem_source) 0 = (Inr fs, st)"
    by (simp add: admin_backup_def Authorize_def)
  obtain version out where cb: "client_Backup plain_aead mem_argon mem_wire (Inr (replicate 16 1)) (Inr (replicate 4 2)) append_dst
      (Inr []) (\<lambda>_. None) (Inr (map (backupFrame_Encode mem_wire) fs)) ''pw'' = (version, None, out)"
    using backup_succeeds [of append_dst "\<lambda>_. None" "''pw''" plain_aead mem_argon "replicate 16 1"] pw_newAEAD
    by (fastforce simp: append_dst_def dst_raises_def)
  have dump: "dump_ok (badger mem_runtime)" and empty: "contents (badger mem_runtime) (db mem_empty) = []"
    and load: "fst (Load mem_runtime mem_empty img) = None"
    using mem_dump_ok by (simp_all add: mem_badger_def mem_empty_def canon_def Load_def Let_def split_beta)
  let ?opts = "\<lparr>op_Source = Inr (out, None), op_Password = ''pw'', op_CACert = replicate 32 7, op_QuorumCert = [],
    op_NodeCerts = [[]], op_Threshold = 1\<rparr>"
  have head: "(Height (qc_Checkpoint solo_qc), Digest (qc_Checkpoint solo_qc)) = LoadHead sample_V (Get mem_runtime 0 (fsm_Storage mem_source))"
    by (simp add: solo_qc_def solo_ckpt_def Let_def split_beta)
  have "\<exists>r. VerifyBackup mem_runtime sample_V plain_aead mem_argon plain_sig (\<lambda>_. Inr solo_qc) (\<lambda>_. Inr solo_cert) 0 (Inr mem_empty) ?opts = Inr r
    \<and> (rs_Verified r \<longleftrightarrow>
        VerifyQuorum plain_sig (replicate 32 7) (Some solo_qc) (AddCert solo_cert (\<lambda>_. None))
          (if op_Threshold ?opts = 0 then int (length (qc_Signers solo_qc)) else op_Threshold ?opts) (word_of_int 0) = None
        \<and> (Height (qc_Checkpoint solo_qc), Digest (qc_Checkpoint solo_qc)) = LoadHead sample_V (Get mem_runtime 0 (fsm_Storage mem_source)))"
    by (rule verify_backup_exact [OF mem_runtime_ok mem_runtime_up dump mem_wire_ok plain_aead_ok append_dst_ok _ _ fs img _ cb empty load])
      (simp_all add: saltLen_def noncePfxLen_def ParseCAPublicKey_def)
  with solo_verifies head fs cb show ?thesis by auto
qed

end
