(* ===== verification/Ca.thy ===== *)
theory Ca
  imports Iam
begin

text \<open>
  The built-in x509 certificate authority of pkg/iam/ca.go. The standard library's certificate, key
  and PEM functions are one parameter, \<open>x509_api\<close>, with private keys \<open>'k\<close> and public keys \<open>'p\<close>; the
  outcomes of the random draws (keys, serial numbers) are arguments. A certificate is the record of
  the fields this program sets, used both for the template it asks to have signed and for what
  parsing gives back. Durations are the 64-bit nanosecond counts of package time.
\<close>

section \<open>Certificates\<close>

datatype KeyUsage = KeyUsageCertSign | KeyUsageCRLSign | KeyUsageDigitalSignature

datatype ExtKeyUsage = ExtKeyUsageClientAuth | ExtKeyUsageServerAuth

text \<open>Instants are nanoseconds of unix time.\<close>

record Certificate =
  xc_SerialNumber :: int
  xc_CommonName :: string
  xc_NotBefore :: int
  xc_NotAfter :: int
  xc_KeyUsage :: "KeyUsage list"
  xc_ExtKeyUsage :: "ExtKeyUsage list"
  xc_DNSNames :: "string list"
  xc_IPAddresses :: "bytes list"
  xc_URIs :: "string list"
  xc_IsCA :: bool
  xc_MaxPathLenZero :: bool

record ('k, 'p) x509_api =
  PublicKey :: "'k \<Rightarrow> 'p"
  MarshalECPrivateKey :: "'k \<Rightarrow> bytes result"
  ParseECPrivateKey :: "bytes \<Rightarrow> 'k result"
  CreateCertificate :: "Certificate \<Rightarrow> Certificate \<Rightarrow> 'p \<Rightarrow> 'k \<Rightarrow> bytes result"
  ParseCertificate :: "bytes \<Rightarrow> Certificate result"
  ParseCertificateRequest :: "bytes \<Rightarrow> ('p \<times> go_error option) result"
  pem_EncodeToMemory :: "string \<Rightarrow> bytes \<Rightarrow> bytes"
  pem_Decode :: "bytes \<Rightarrow> bytes option"
  url_Parse :: "string \<Rightarrow> string result"
  net_ParseIP :: "string \<Rightarrow> bytes option"

text \<open>A parsed request comes with the outcome of its \<open>CheckSignature\<close>.\<close>

section \<open>The authority\<close>

definition NodeSANDNS :: string where "NodeSANDNS = ''node.cdb.internal''"
definition caCommonName :: string where "caCommonName = ''consensusdb-ca''"

definition time_Second :: i64 where "time_Second = 1000000000"
definition time_Minute :: i64 where "time_Minute = 60 * time_Second"
definition time_Hour :: i64 where "time_Hour = 60 * time_Minute"

definition caValidity :: i64 where "caValidity = 10 * 365 * 24 * time_Hour"

text \<open>\<open>t.Add(d)\<close> on an instant.\<close>

definition time_Add :: "int \<Rightarrow> i64 \<Rightarrow> int" where
  "time_Add t d = t + sint d"

text \<open>\<open>t.Unix()\<close>.\<close>

definition time_Unix :: "int \<Rightarrow> i64" where
  "time_Unix t = word_of_int (t div 1000000000)"

record 'k CA =
  CA_Cert :: Certificate
  CA_Key :: 'k
  CA_CertPEM :: bytes

definition randSerial :: "int result \<Rightarrow> int result" where
  "randSerial draw = (case draw of Inl e \<Rightarrow> Inl (Wrapped ''iam: serial'' e) | Inr serial \<Rightarrow> Inr serial)"

definition GenerateCA :: "('k, 'p) x509_api \<Rightarrow> int \<Rightarrow> 'k result \<Rightarrow> int result \<Rightarrow> CARecord result" where
  "GenerateCA X now keyDraw serialDraw =
     (case keyDraw of
        Inl e \<Rightarrow> Inl (Wrapped ''iam: CA key'' e)
      | Inr key \<Rightarrow>
          (case randSerial serialDraw of
             Inl e \<Rightarrow> Inl e
           | Inr serial \<Rightarrow>
               (let tmpl = \<lparr>xc_SerialNumber = serial, xc_CommonName = caCommonName,
                      xc_NotBefore = time_Add now (- 5 * time_Minute), xc_NotAfter = time_Add now caValidity,
                      xc_KeyUsage = [KeyUsageCertSign, KeyUsageCRLSign], xc_ExtKeyUsage = [],
                      xc_DNSNames = [], xc_IPAddresses = [], xc_URIs = [], xc_IsCA = True,
                      xc_MaxPathLenZero = True\<rparr>
                in case CreateCertificate X tmpl tmpl (PublicKey X key) key of
                     Inl e \<Rightarrow> Inl (Wrapped ''iam: CA cert'' e)
                   | Inr der \<Rightarrow>
                       (case MarshalECPrivateKey X key of
                          Inl e \<Rightarrow> Inl (Wrapped ''iam: CA key marshal'' e)
                        | Inr keyDER \<Rightarrow>
                            Inr \<lparr>ca_CertPEM = pem_EncodeToMemory X ''CERTIFICATE'' der,
                                 ca_KeyPEM = pem_EncodeToMemory X ''EC PRIVATE KEY'' keyDER,
                                 ca_CreatedAt = time_Unix now\<rparr>))))"

definition CA_Load :: "('k, 'p) x509_api \<Rightarrow> CARecord \<Rightarrow> 'k CA result" where
  "CA_Load X r =
     (case pem_Decode X (ca_CertPEM r) of
        None \<Rightarrow> Inl (Msg ''iam: CA cert PEM invalid'')
      | Some certBlock \<Rightarrow>
          (case ParseCertificate X certBlock of
             Inl e \<Rightarrow> Inl (Wrapped ''iam: CA cert parse'' e)
           | Inr cert \<Rightarrow>
               (case pem_Decode X (ca_KeyPEM r) of
                  None \<Rightarrow> Inl (Msg ''iam: CA key PEM invalid'')
                | Some keyBlock \<Rightarrow>
                    (case ParseECPrivateKey X keyBlock of
                       Inl e \<Rightarrow> Inl (Wrapped ''iam: CA key parse'' e)
                     | Inr key \<Rightarrow> Inr \<lparr>CA_Cert = cert, CA_Key = key, CA_CertPEM = ca_CertPEM r\<rparr>))))"

record 'p CertRequest =
  cq_PublicKey :: 'p
  cq_CommonName :: string
  cq_URIs :: "string list"
  cq_DNSNames :: "string list"
  cq_IPs :: "bytes list"
  cq_Client :: bool
  cq_Server :: bool
  cq_TTL :: i64

fun parse_uris :: "('k, 'p) x509_api \<Rightarrow> string list \<Rightarrow> string list result" where
  "parse_uris X [] = Inr []"
| "parse_uris X (raw # rs) =
     (case url_Parse X raw of
        Inl e \<Rightarrow> Inl (Wrapped (''iam: SAN URI '' @ raw) e)
      | Inr u \<Rightarrow> bindE (parse_uris X rs) (\<lambda>us. Inr (u # us)))"

definition leaf_template :: "int \<Rightarrow> int \<Rightarrow> string list \<Rightarrow> 'p CertRequest \<Rightarrow> Certificate" where
  "leaf_template now serial uris req =
     \<lparr>xc_SerialNumber = serial, xc_CommonName = cq_CommonName req,
      xc_NotBefore = time_Add now (- 5 * time_Minute), xc_NotAfter = time_Add now (cq_TTL req),
      xc_KeyUsage = [KeyUsageDigitalSignature],
      xc_ExtKeyUsage = (if cq_Client req then [ExtKeyUsageClientAuth] else [])
        @ (if cq_Server req then [ExtKeyUsageServerAuth] else []),
      xc_DNSNames = cq_DNSNames req, xc_IPAddresses = cq_IPs req, xc_URIs = uris, xc_IsCA = False,
      xc_MaxPathLenZero = False\<rparr>"

definition CA_Sign :: "('k, 'p) x509_api \<Rightarrow> int \<Rightarrow> int result \<Rightarrow> 'k CA \<Rightarrow> 'p CertRequest \<Rightarrow> bytes result" where
  "CA_Sign X now serialDraw ca req =
     (case randSerial serialDraw of
        Inl e \<Rightarrow> Inl e
      | Inr serial \<Rightarrow>
          (case parse_uris X (cq_URIs req) of
             Inl e \<Rightarrow> Inl e
           | Inr uris \<Rightarrow>
               (case CreateCertificate X (leaf_template now serial uris req) (CA_Cert ca) (cq_PublicKey req)
                       (CA_Key ca) of
                  Inl e \<Rightarrow> Inl (Wrapped ''iam: sign leaf'' e)
                | Inr der \<Rightarrow> Inr (pem_EncodeToMemory X ''CERTIFICATE'' der))))"

definition ParseCSR :: "('k, 'p) x509_api \<Rightarrow> bytes \<Rightarrow> 'p result" where
  "ParseCSR X csrPEM =
     (case pem_Decode X csrPEM of
        None \<Rightarrow> Inl (Msg ''iam: CSR PEM invalid'')
      | Some block \<Rightarrow>
          (case ParseCertificateRequest X block of
             Inl e \<Rightarrow> Inl (Wrapped ''iam: CSR parse'' e)
           | Inr (pub, Some e) \<Rightarrow> Inl (Wrapped ''iam: CSR signature'' e)
           | Inr (pub, None) \<Rightarrow> Inr pub))"

definition GenerateLeafKey :: "('k, 'p) x509_api \<Rightarrow> 'k result \<Rightarrow> (bytes \<times> 'p) result" where
  "GenerateLeafKey X keyDraw =
     (case keyDraw of
        Inl e \<Rightarrow> Inl (Wrapped ''iam: leaf key'' e)
      | Inr key \<Rightarrow>
          (case MarshalECPrivateKey X key of
             Inl e \<Rightarrow> Inl (Wrapped ''iam: leaf key marshal'' e)
           | Inr der \<Rightarrow> Inr (pem_EncodeToMemory X ''EC PRIVATE KEY'' der, PublicKey X key)))"

section \<open>Facts\<close>

text \<open>What is relied on of the standard library: what is encoded reads back.\<close>

definition x509_ok :: "('k, 'p) x509_api \<Rightarrow> bool" where
  "x509_ok X \<longleftrightarrow>
     (\<forall>t b. pem_Decode X (pem_EncodeToMemory X t b) = Some b)
     \<and> (\<forall>k b. MarshalECPrivateKey X k = Inr b \<longrightarrow> ParseECPrivateKey X b = Inr k)
     \<and> (\<forall>tm par pub k der. CreateCertificate X tm par pub k = Inr der \<longrightarrow> ParseCertificate X der = Inr tm)"

text \<open>A generated authority loads: the record holds its own certificate and key.\<close>

lemma generated_loads:
  assumes "x509_ok X" "GenerateCA X now (Inr key) serial = Inr r"
  shows "\<exists>cert. CA_Load X r = Inr \<lparr>CA_Cert = cert, CA_Key = key, CA_CertPEM = ca_CertPEM r\<rparr> \<and> xc_IsCA cert"
  using assms by (auto simp: GenerateCA_def CA_Load_def x509_ok_def Let_def split: sum.splits)

lemma CA_Sign_leaf:
  assumes "CA_Sign X now serial ca req = Inr pem"
  obtains n uris der where "serial = Inr n" "parse_uris X (cq_URIs req) = Inr uris"
    "CreateCertificate X (leaf_template now n uris req) (CA_Cert ca) (cq_PublicKey req) (CA_Key ca) = Inr der"
    "pem = pem_EncodeToMemory X ''CERTIFICATE'' der"
  using assms by (auto simp: CA_Sign_def randSerial_def split: sum.splits)

end
