(* ===== verification/Console.thy ===== *)
theory Console
  imports Ca Access Service "HOL-Library.AList" "HOL-Library.Stream"
begin

text \<open>
  The admin console's identity management (pkg/console/iam.go, pat.go): users, service accounts,
  personal access tokens, role bindings and groups, all kept as records of the system tenant and
  written through the key-value service, so through raft where replication is on. A handler is a
  function from the decoded request (\<open>None\<close> where the body is not valid JSON) and the node to the HTTP
  reply and the node. The node is its state machine with the fates of its coming raft proposals, one
  for each write.

  What varies from run to run is in the handler record: the packages, the clock (nanoseconds), the
  random draws, and the orders in which Go's \<open>range\<close> visits its maps.
\<close>

section \<open>The handler\<close>

record 'k draws =
  dr_salt :: "bytes result"
  dr_token :: "bytes result"
  dr_caKey :: "'k result"
  dr_caSerial :: "int result"
  dr_leafKey :: "'k result"
  dr_serial :: "int result"

record ('db, 'v, 'w, 'k, 'p) ConsoleHandler =
  co_rt :: "'db runtime"
  co_values :: "'v value_api"
  co_iam :: "'w iam_value_api"
  co_argon :: argon_api
  co_x509 :: "('k, 'p) x509_api"
  co_Raft :: "raft_node option"
  co_clock :: int
  co_draws :: "'k draws"
  co_rangeGroups :: "(string \<times> GroupRecord) list \<Rightarrow> (string \<times> GroupRecord) list"
  co_rangePolicies :: "(string \<times> PolicyRecord) list \<Rightarrow> (string \<times> PolicyRecord) list"
  co_rangeSet :: "string list \<Rightarrow> string list"
  co_AddDate :: "int \<Rightarrow> int \<Rightarrow> int"
  co_AuthEnabled :: bool
  co_BootstrapToken :: string
  co_caCert :: "bytes option"
  co_caKey :: "bytes option"

text \<open>\<open>co_AddDate\<close> is \<open>now.AddDate(0, 0, days)\<close> in the node's time zone; \<open>co_caCert\<close> and \<open>co_caKey\<close> are
  what reading \<open>pki/ca.pem\<close> and \<open>pki/ca-key.pem\<close> of the data directory gives.\<close>

type_synonym 'db con = "'db FSM \<times> commit stream"

definition unixNow :: "('db, 'v, 'w, 'k, 'p) ConsoleHandler \<Rightarrow> time" where
  "unixNow H = co_clock H div 1000000000"

text \<open>The calls on \<open>t.svc\<close>. A write uses up one proposal.\<close>

definition svc_Get :: "('db, 'v, 'w, 'k, 'p) ConsoleHandler \<Rightarrow> 'db con \<Rightarrow> Key \<Rightarrow> Record result" where
  "svc_Get H st key = Service_Get (co_rt H) (unixNow H) (fst st) \<lparr>kr_Key = Some key, kr_HeadOnly = False, kr_Timeout = 0\<rparr>"

definition putRequest :: "Key \<Rightarrow> bytes \<Rightarrow> RecordRequest" where
  "putRequest key raw = \<lparr>rr_Key = Some key, rr_Value = raw, rr_Metadata = 0, rr_TtlSeconds = 0,
     rr_CompareAndSet = False, rr_Version = 0, rr_Timeout = 0, rr_ExpiresAt = 0\<rparr>"

definition casRequest :: "Key \<Rightarrow> bytes \<Rightarrow> u64 \<Rightarrow> RecordRequest" where
  "casRequest key raw version = (putRequest key raw)\<lparr>rr_CompareAndSet := True, rr_Version := version\<rparr>"

definition svc_Put :: "('db, 'v, 'w, 'k, 'p) ConsoleHandler \<Rightarrow> 'db con \<Rightarrow> RecordRequest
    \<Rightarrow> Status option result \<times> 'db con" where
  "svc_Put H st r =
     (let (res, t) = Service_Put (co_rt H) (co_values H) (unixNow H) (co_Raft H) (shd (snd st)) (fst st) r
      in (res, t, stl (snd st)))"

definition svc_Remove :: "('db, 'v, 'w, 'k, 'p) ConsoleHandler \<Rightarrow> 'db con \<Rightarrow> Key
    \<Rightarrow> Status option result \<times> 'db con" where
  "svc_Remove H st key =
     (let (res, t) = Service_Remove (co_rt H) (co_values H) (unixNow H) (co_Raft H) (shd (snd st)) (fst st)
            \<lparr>kr_Key = Some key, kr_HeadOnly = False, kr_Timeout = 0\<rparr>
      in (res, t, stl (snd st)))"

text \<open>\<open>status != nil && status.Updated\<close>.\<close>

definition wasUpdated :: "Status option \<Rightarrow> bool" where
  "wasUpdated status = (case status of None \<Rightarrow> False | Some s \<Rightarrow> Updated s)"

text \<open>\<open>senderFunc\<close> around the scan of a block, and the scan of the IAM region; the state threaded
  through is what the callback has captured.\<close>

definition visit_record :: "('a \<Rightarrow> string \<Rightarrow> bytes \<Rightarrow> 'a) \<Rightarrow> 'a \<Rightarrow> Record \<Rightarrow> 'a" where
  "visit_record fn acc rec =
     (case rec_Key rec of
        None \<Rightarrow> acc
      | Some k \<Rightarrow> if length (rec_Value rec) > 0 then fn acc (string_of (MinorKey k)) (rec_Value rec) else acc)"

definition iam_sender :: "('a \<Rightarrow> string \<Rightarrow> bytes \<Rightarrow> 'a) \<Rightarrow> 'a send" where
  "iam_sender fn acc block = (None, foldl (visit_record fn) acc block)"

definition scanIAM :: "('db, 'v, 'w, 'k, 'p) ConsoleHandler \<Rightarrow> 'db con \<Rightarrow> ('a \<Rightarrow> string \<Rightarrow> bytes \<Rightarrow> 'a) \<Rightarrow> 'a
    \<Rightarrow> go_error option \<times> 'a" where
  "scanIAM H st fn acc =
     GetArea (co_rt H) (unixNow H) (fsm_Storage (fst st))
       \<lparr>kr_Key = Some iam_area, kr_HeadOnly = False, kr_Timeout = 0\<rparr> RegionNameField (iam_sender fn) acc"

section \<open>Replies\<close>

text \<open>Rows of the listings, and the JSON bodies; \<open>JFail m e\<close> is the error body \<open>m + err.Error()\<close>.\<close>

record userOut =
  uo_Name :: string
  uo_Disabled :: bool
  uo_CreatedAt :: i64

record saOut =
  so_Name :: string
  so_HasToken :: bool
  so_CertIdentities :: "string list"
  so_Disabled :: bool
  so_CreatedAt :: i64

record bindingOut =
  bo_Scope :: string
  bo_Role :: string
  bo_Members :: "string list"

record patOut =
  po_ID :: string
  po_Label :: string
  po_CreatedAt :: i64
  po_ExpiresAt :: i64

record certOut =
  xo_Identity :: string
  xo_Principal :: string
  xo_Issued :: bool
  xo_CreatedAt :: i64

datatype json =
    JError string
  | JFail string go_error
  | JUsers "userOut list"
  | JServiceAccounts "saOut list"
  | JRoles "string \<rightharpoonup> string list"
  | JBindings "bindingOut list"
  | JGroups "(string \<times> string list) list"
  | JTokens "patOut list"
  | JCerts "certOut list"
  | JCreated string
  | JDeleted string
  | JRevoked string
  | JServiceAccount string string
  | JScope string string
  | JGroup string "string list"
  | JToken string string string i64
  | JIdentity string string
  | JIssued string bytes bytes bytes
  | JSetupStatus bool bool bool
  | JBootstrapped string bool
  | JJoinToken string i64
  | JEnrolled string bytes bytes

type_synonym reply = "nat \<times> json"

definition StatusOK :: nat where "StatusOK = 200"
definition StatusCreated :: nat where "StatusCreated = 201"
definition StatusBadRequest :: nat where "StatusBadRequest = 400"
definition StatusForbidden :: nat where "StatusForbidden = 403"
definition StatusNotFound :: nat where "StatusNotFound = 404"
definition StatusConflict :: nat where "StatusConflict = 409"
definition StatusInternalServerError :: nat where "StatusInternalServerError = 500"
definition StatusBadGateway :: nat where "StatusBadGateway = 502"
definition StatusServiceUnavailable :: nat where "StatusServiceUnavailable = 503"

lemmas status_codes = StatusOK_def StatusCreated_def StatusBadRequest_def StatusForbidden_def StatusNotFound_def
  StatusConflict_def StatusInternalServerError_def StatusBadGateway_def StatusServiceUnavailable_def

definition invalidBody :: reply where
  "invalidBody = (StatusBadRequest, JError ''invalid JSON body'')"

text \<open>\<open>strings.CutPrefix\<close>.\<close>

definition CutPrefix :: "string \<Rightarrow> string \<Rightarrow> string option" where
  "CutPrefix s p = (if prefix p s then Some (drop (length p) s) else None)"

text \<open>\<open>strings.ContainsAny(name, "/ ")\<close>.\<close>

definition badName :: "string \<Rightarrow> bool" where
  "badName name = list_ex (\<lambda>c. c = CHR ''/'' \<or> c = CHR '' '') name"

section \<open>Users\<close>

definition list_user :: "'w iam_value_api \<Rightarrow> userOut list \<Rightarrow> string \<Rightarrow> bytes \<Rightarrow> userOut list" where
  "list_user A users minor val =
     (case CutPrefix minor UserPrefix of
        None \<Rightarrow> users
      | Some name \<Rightarrow>
          (case decoded A val KUser of
             Some (IUser u) \<Rightarrow> users @ [\<lparr>uo_Name = name, uo_Disabled = us_Disabled u, uo_CreatedAt = us_CreatedAt u\<rparr>]
           | _ \<Rightarrow> users))"

definition iamListUsers :: "('db, 'v, 'w, 'k, 'p) ConsoleHandler \<Rightarrow> 'db con \<Rightarrow> reply" where
  "iamListUsers H st =
     (case scanIAM H st (list_user (co_iam H)) [] of
        (Some _, _) \<Rightarrow> (StatusInternalServerError, JError ''scan users'')
      | (None, users) \<Rightarrow> (StatusOK, JUsers users))"

definition iamCreateUser :: "('db, 'v, 'w, 'k, 'p) ConsoleHandler \<Rightarrow> (string \<times> string) option \<Rightarrow> 'db con
    \<Rightarrow> reply \<times> 'db con" where
  "iamCreateUser H req st =
     (case req of
        None \<Rightarrow> (invalidBody, st)
      | Some (username, password) \<Rightarrow>
          if username = '''' \<or> badName username \<or> length password < 8
          then ((StatusBadRequest,
                 JError ''username (no spaces or '/') and a password of at least 8 characters are required''), st)
          else case HashPassword (co_argon H) (dr_salt (co_draws H)) password of
            Inl _ \<Rightarrow> ((StatusInternalServerError, JError ''hash password''), st)
          | Inr hash \<Rightarrow>
              (case iam_Encode (co_iam H) (IUser \<lparr>us_Name = username, us_PasswordHash = hash, us_Admin = False,
                      us_Disabled = False, us_CreatedAt = word_of_int (unixNow H)\<rparr>) of
                 Inl _ \<Rightarrow> ((StatusInternalServerError, JError ''encode record''), st)
               | Inr raw \<Rightarrow>
                   (case svc_Put H st (casRequest (iam_Key (UserPrefix @ username)) raw 0) of
                      (Inl e, st) \<Rightarrow> ((StatusInternalServerError, JFail '''' e), st)
                    | (Inr status, st) \<Rightarrow>
                        if \<not> wasUpdated status then ((StatusConflict, JError ''user already exists''), st)
                        else ((StatusCreated, JCreated username), st))))"

subsection \<open>Deleting an identity\<close>

fun contains :: "string list \<Rightarrow> string \<Rightarrow> bool" where
  "contains [] v = False"
| "contains (s # list) v = (if s = v then True else contains list v)"

fun without :: "string list \<Rightarrow> string \<Rightarrow> string list" where
  "without [] v = []"
| "without (s # list) v = (if s \<noteq> v then s # without list v else without list v)"

fun policyHasMember :: "Binding list \<Rightarrow> string \<Rightarrow> bool" where
  "policyHasMember [] princ = False"
| "policyHasMember (b # bs) princ = (if contains (bi_Members b) princ then True else policyHasMember bs princ)"

text \<open>What the scan of \<open>purgePrincipal\<close> collects; the two Go maps as association lists without repeated
  keys.\<close>

record purge =
  pg_tokens :: "string list"
  pg_certs :: "string list"
  pg_groups :: "(string \<times> GroupRecord) list"
  pg_policies :: "(string \<times> PolicyRecord) list"

definition purge_visit :: "'w iam_value_api \<Rightarrow> string \<Rightarrow> purge \<Rightarrow> string \<Rightarrow> bytes \<Rightarrow> purge" where
  "purge_visit A princ p minor val =
     (if prefix TokenIndexPrefix minor then
        (case decoded A val KToken of
           Some (IToken rec) \<Rightarrow> if tk_Principal rec = princ then p\<lparr>pg_tokens := pg_tokens p @ [minor]\<rparr> else p
         | _ \<Rightarrow> p)
      else if prefix CertPrefix minor then
        (case decoded A val KCertIndex of
           Some (ICertIndex rec) \<Rightarrow> if ci_Principal rec = princ then p\<lparr>pg_certs := pg_certs p @ [minor]\<rparr> else p
         | _ \<Rightarrow> p)
      else if prefix GroupPrefix minor then
        (case decoded A val KGroup of
           Some (IGroup g) \<Rightarrow>
             if contains (gr_Members g) princ then p\<lparr>pg_groups := AList.update minor g (pg_groups p)\<rparr> else p
         | _ \<Rightarrow> p)
      else if PolicyScopeKey minor \<noteq> None then
        (case decoded A val KPolicy of
           Some (IPolicy q) \<Rightarrow>
             if policyHasMember (Bindings q) princ
             then p\<lparr>pg_policies := AList.update minor q (pg_policies p)\<rparr> else p
         | _ \<Rightarrow> p)
      else p)"

definition purge_group :: "string \<Rightarrow> GroupRecord \<Rightarrow> iam_record" where
  "purge_group princ g = IGroup (g\<lparr>gr_Members := without (gr_Members g) princ\<rparr>)"

fun purge_bindings :: "string \<Rightarrow> Binding list \<Rightarrow> Binding list" where
  "purge_bindings princ [] = []"
| "purge_bindings princ (b # bs) =
     (let b = b\<lparr>bi_Members := without (bi_Members b) princ\<rparr> in
      if length (bi_Members b) > 0 then b # purge_bindings princ bs else purge_bindings princ bs)"

definition purge_policy :: "string \<Rightarrow> PolicyRecord \<Rightarrow> iam_record" where
  "purge_policy princ p = IPolicy (p\<lparr>Bindings := purge_bindings princ (Bindings p)\<rparr>)"

fun remove_all :: "('db, 'v, 'w, 'k, 'p) ConsoleHandler \<Rightarrow> string list \<Rightarrow> 'db con \<Rightarrow> go_error option \<times> 'db con" where
  "remove_all H [] st = (None, st)"
| "remove_all H (minor # minors) st =
     (case svc_Remove H st (iam_Key minor) of
        (Inl e, st) \<Rightarrow> (Some e, st)
      | (Inr _, st) \<Rightarrow> remove_all H minors st)"

text \<open>The two rewriting loops: each record is changed by \<open>f\<close>, encoded and put back.\<close>

fun rewrite_all :: "('db, 'v, 'w, 'k, 'p) ConsoleHandler \<Rightarrow> ('a \<Rightarrow> iam_record) \<Rightarrow> (string \<times> 'a) list \<Rightarrow> 'db con
    \<Rightarrow> go_error option \<times> 'db con" where
  "rewrite_all H f [] st = (None, st)"
| "rewrite_all H f ((minor, r) # rs) st =
     (case iam_Encode (co_iam H) (f r) of
        Inl e \<Rightarrow> (Some e, st)
      | Inr raw \<Rightarrow>
          (case svc_Put H st (putRequest (iam_Key minor) raw) of
             (Inl e, st) \<Rightarrow> (Some e, st)
           | (Inr _, st) \<Rightarrow> rewrite_all H f rs st))"

definition purgePrincipal :: "('db, 'v, 'w, 'k, 'p) ConsoleHandler \<Rightarrow> string \<Rightarrow> 'db con \<Rightarrow> go_error option \<times> 'db con" where
  "purgePrincipal H princ st =
     (case scanIAM H st (purge_visit (co_iam H) princ)
             \<lparr>pg_tokens = [], pg_certs = [], pg_groups = [], pg_policies = []\<rparr> of
        (Some e, _) \<Rightarrow> (Some e, st)
      | (None, p) \<Rightarrow>
          (case remove_all H (pg_tokens p @ pg_certs p) st of
             (Some e, st) \<Rightarrow> (Some e, st)
           | (None, st) \<Rightarrow>
               (case rewrite_all H (purge_group princ) (co_rangeGroups H (pg_groups p)) st of
                  (Some e, st) \<Rightarrow> (Some e, st)
                | (None, st) \<Rightarrow> rewrite_all H (purge_policy princ) (co_rangePolicies H (pg_policies p)) st)))"

definition iamDeleteUser :: "('db, 'v, 'w, 'k, 'p) ConsoleHandler \<Rightarrow> string \<Rightarrow> 'db con \<Rightarrow> reply \<times> 'db con" where
  "iamDeleteUser H name st =
     (if name = '''' then ((StatusBadRequest, JError ''user name required''), st)
      else case svc_Remove H st (iam_Key (UserPrefix @ name)) of
        (Inl e, st) \<Rightarrow> ((StatusInternalServerError, JFail '''' e), st)
      | (Inr _, st) \<Rightarrow>
          (case purgePrincipal H (PrincipalUser name) st of
             (Some e, st) \<Rightarrow> ((StatusInternalServerError, JFail ''revoke credentials: '' e), st)
           | (None, st) \<Rightarrow> ((StatusOK, JDeleted name), st)))"

section \<open>Service accounts\<close>

text \<open>The listing keeps the accounts and, per principal, the certificate identities.\<close>

definition list_account :: "'w iam_value_api \<Rightarrow> (string \<times> ServiceAccountRecord) list \<times> (string \<Rightarrow> string list) \<Rightarrow> string
    \<Rightarrow> bytes \<Rightarrow> (string \<times> ServiceAccountRecord) list \<times> (string \<Rightarrow> string list)" where
  "list_account A acc minor val =
     (case CutPrefix minor ServiceAccountPrefix of
        Some name \<Rightarrow>
          (case decoded A val KServiceAccount of
             Some (IServiceAccount sa) \<Rightarrow> (fst acc @ [(name, sa)], snd acc)
           | _ \<Rightarrow> acc)
      | None \<Rightarrow>
          (case CutPrefix minor CertPrefix of
             None \<Rightarrow> acc
           | Some ident \<Rightarrow>
               (case decoded A val KCertIndex of
                  Some (ICertIndex idx) \<Rightarrow>
                    if ci_Principal idx \<noteq> ''''
                    then (fst acc, (snd acc)(ci_Principal idx := snd acc (ci_Principal idx) @ [ident])) else acc
                | _ \<Rightarrow> acc)))"

definition iamListServiceAccounts :: "('db, 'v, 'w, 'k, 'p) ConsoleHandler \<Rightarrow> 'db con \<Rightarrow> reply" where
  "iamListServiceAccounts H st =
     (case scanIAM H st (list_account (co_iam H)) ([], \<lambda>_. []) of
        (Some _, _) \<Rightarrow> (StatusInternalServerError, JError ''scan service accounts'')
      | (None, bases, certs) \<Rightarrow>
          (StatusOK, JServiceAccounts (map (\<lambda>(name, sa).
             \<lparr>so_Name = name, so_HasToken = (sa_TokenHash sa \<noteq> ''''),
              so_CertIdentities = certs (PrincipalServiceAccount name), so_Disabled = sa_Disabled sa,
              so_CreatedAt = sa_CreatedAt sa\<rparr>) bases)))"

definition writeTokenIndex :: "('db, 'v, 'w, 'k, 'p) ConsoleHandler \<Rightarrow> string \<Rightarrow> string \<Rightarrow> i64 \<Rightarrow> 'db con
    \<Rightarrow> go_error option \<times> 'db con" where
  "writeTokenIndex H hash princ expiresAt st =
     (case iam_Encode (co_iam H) (IToken \<lparr>tk_Principal = princ, tk_ExpiresAt = expiresAt, tk_Label = '''',
             tk_CreatedAt = 0\<rparr>) of
        Inl e \<Rightarrow> (Some e, st)
      | Inr raw \<Rightarrow>
          (case svc_Put H st (putRequest (iam_Key (TokenIndexKey hash)) raw) of
             (Inl e, st) \<Rightarrow> (Some e, st)
           | (Inr _, st) \<Rightarrow> (None, st)))"

definition iamCreateServiceAccount :: "('db, 'v, 'w, 'k, 'p) ConsoleHandler \<Rightarrow> string option \<Rightarrow> 'db con
    \<Rightarrow> reply \<times> 'db con" where
  "iamCreateServiceAccount H req st =
     (case req of
        None \<Rightarrow> (invalidBody, st)
      | Some name \<Rightarrow>
          if name = '''' \<or> badName name
          then ((StatusBadRequest, JError ''name is required and must not contain '/' or spaces''), st)
          else case NewToken (dr_token (co_draws H)) TokenPrefixServiceAccount of
            Inl e \<Rightarrow> ((StatusInternalServerError, JFail '''' e), st)
          | Inr (token, hash) \<Rightarrow>
              (case iam_Encode (co_iam H) (IServiceAccount \<lparr>sa_Name = name, sa_TokenHash = hash, sa_Disabled = False,
                      sa_CreatedAt = word_of_int (unixNow H)\<rparr>) of
                 Inl _ \<Rightarrow> ((StatusInternalServerError, JError ''encode record''), st)
               | Inr raw \<Rightarrow>
                   (case svc_Put H st (casRequest (iam_Key (ServiceAccountPrefix @ name)) raw 0) of
                      (Inl e, st) \<Rightarrow> ((StatusInternalServerError, JFail '''' e), st)
                    | (Inr status, st) \<Rightarrow>
                        if \<not> wasUpdated status
                        then ((StatusConflict, JError ''service account already exists''), st)
                        else case writeTokenIndex H hash (PrincipalServiceAccount name) 0 st of
                          (Some _, st) \<Rightarrow> ((StatusInternalServerError, JError ''write token index''), st)
                        | (None, st) \<Rightarrow> ((StatusCreated, JServiceAccount name token), st))))"

definition iamDeleteServiceAccount :: "('db, 'v, 'w, 'k, 'p) ConsoleHandler \<Rightarrow> string \<Rightarrow> 'db con \<Rightarrow> reply \<times> 'db con" where
  "iamDeleteServiceAccount H name st =
     (if name = '''' then ((StatusBadRequest, JError ''service account name required''), st)
      else case svc_Remove H st (iam_Key (ServiceAccountPrefix @ name)) of
        (Inl e, st) \<Rightarrow> ((StatusInternalServerError, JFail '''' e), st)
      | (Inr _, st) \<Rightarrow>
          (case purgePrincipal H (PrincipalServiceAccount name) st of
             (Some e, st) \<Rightarrow> ((StatusInternalServerError, JFail ''revoke credentials: '' e), st)
           | (None, st) \<Rightarrow> ((StatusOK, JDeleted name), st)))"

section \<open>Roles and bindings\<close>

definition list_role :: "'w iam_value_api \<Rightarrow> (string \<rightharpoonup> string list) \<Rightarrow> string \<Rightarrow> bytes \<Rightarrow> (string \<rightharpoonup> string list)" where
  "list_role A roles minor val =
     (case CutPrefix minor RolePrefix of
        None \<Rightarrow> roles
      | Some _ \<Rightarrow>
          (case decoded A val KRole of
             Some (IRole rr) \<Rightarrow>
               if roles (ro_Name rr) = None then roles(ro_Name rr \<mapsto> ro_Permissions rr) else roles
           | _ \<Rightarrow> roles))"

definition iamListRoles :: "('db, 'v, 'w, 'k, 'p) ConsoleHandler \<Rightarrow> 'db con \<Rightarrow> reply" where
  "iamListRoles H st =
     (case scanIAM H st (list_role (co_iam H)) PredefinedRoles of
        (Some _, _) \<Rightarrow> (StatusInternalServerError, JError ''scan roles'')
      | (None, roles) \<Rightarrow> (StatusOK, JRoles roles))"

definition bindingMinor :: "string \<Rightarrow> string \<Rightarrow> string" where
  "bindingMinor tenant region =
     (if tenant = '''' then PolicyInstance
      else if region = '''' then PolicyTenantMinor tenant
      else PolicyRegionMinor tenant region)"

definition bindingScopeLabel :: "string \<Rightarrow> string option" where
  "bindingScopeLabel minor =
     (if minor = PolicyInstance then Some ''''
      else if prefix PolicyTenantPrefix minor then Some (drop (length PolicyTenantPrefix) minor)
      else if prefix PolicyRegionPrefix minor then Some (drop (length PolicyRegionPrefix) minor)
      else None)"

definition bindingScopeLabelOf :: "string \<Rightarrow> string \<Rightarrow> string" where
  "bindingScopeLabelOf tenant region =
     (if tenant = '''' then '''' else if region = '''' then tenant else tenant @ ''/'' @ region)"

definition list_binding :: "'w iam_value_api \<Rightarrow> bindingOut list \<Rightarrow> string \<Rightarrow> bytes \<Rightarrow> bindingOut list" where
  "list_binding A out minor val =
     (case bindingScopeLabel minor of
        None \<Rightarrow> out
      | Some scope \<Rightarrow>
          (case decoded A val KPolicy of
             Some (IPolicy p) \<Rightarrow>
               out @ map (\<lambda>b. \<lparr>bo_Scope = scope, bo_Role = bi_Role b, bo_Members = bi_Members b\<rparr>) (Bindings p)
           | _ \<Rightarrow> out))"

definition iamListBindings :: "('db, 'v, 'w, 'k, 'p) ConsoleHandler \<Rightarrow> 'db con \<Rightarrow> reply" where
  "iamListBindings H st =
     (case scanIAM H st (list_binding (co_iam H)) [] of
        (Some _, _) \<Rightarrow> (StatusInternalServerError, JError ''scan bindings'')
      | (None, out) \<Rightarrow> (StatusOK, JBindings out))"

text \<open>The member set of a binding as its keys in the order of insertion; \<open>keysOf\<close> visits them in the
  order of \<open>range\<close>.\<close>

definition merge_members :: "string list \<Rightarrow> string list \<Rightarrow> bool \<Rightarrow> string list" where
  "merge_members old members grant =
     (let keys = foldl (\<lambda>s m. if m \<in> set s then s else s @ [m]) [] old in
      foldl (\<lambda>s m. if grant then (if m \<in> set s then s else s @ [m]) else filter (\<lambda>x. x \<noteq> m) s) keys members)"

definition keysOf :: "(string list \<Rightarrow> string list) \<Rightarrow> string list \<Rightarrow> string list" where
  "keysOf rng keys = rng keys"

fun dedup_loop :: "string list \<Rightarrow> string list \<Rightarrow> string list" where
  "dedup_loop out [] = out"
| "dedup_loop out (s # ss) = (if s \<noteq> '''' \<and> s \<notin> set out then dedup_loop (out @ [s]) ss else dedup_loop out ss)"

definition dedup :: "string list \<Rightarrow> string list" where
  "dedup xs = dedup_loop [] xs"

fun apply_loop :: "(string list \<Rightarrow> string list) \<Rightarrow> string \<Rightarrow> string list \<Rightarrow> bool \<Rightarrow> Binding list \<Rightarrow> Binding list \<times> bool" where
  "apply_loop rng role members grant [] = ([], False)"
| "apply_loop rng role members grant (b # bs) =
     (let (out, found) = apply_loop rng role members grant bs in
      if bi_Role b \<noteq> role then (b # out, found)
      else let merged = keysOf rng (merge_members (bi_Members b) members grant) in
        (if length merged > 0 then \<lparr>bi_Role = role, bi_Members = merged\<rparr> # out else out, True))"

definition applyBinding :: "(string list \<Rightarrow> string list) \<Rightarrow> Binding list \<Rightarrow> string \<Rightarrow> string list \<Rightarrow> bool \<Rightarrow> Binding list" where
  "applyBinding rng bindings role members grant =
     (let (out, found) = apply_loop rng role members grant bindings in
      if grant \<and> \<not> found then out @ [\<lparr>bi_Role = role, bi_Members = dedup members\<rparr>] else out)"

text \<open>The result of \<open>iam.Decode\<close> is dropped, so a policy that does not decode counts as empty.\<close>

definition grantRole :: "('db, 'v, 'w, 'k, 'p) ConsoleHandler \<Rightarrow> string list \<Rightarrow> string \<Rightarrow> string \<Rightarrow> string \<Rightarrow> bool
    \<Rightarrow> 'db con \<Rightarrow> go_error option \<times> 'db con" where
  "grantRole H members role tenant region grant st =
     (let minor = bindingMinor tenant region in
      case svc_Get H st (iam_Key minor) of
        Inl e \<Rightarrow> (Some e, st)
      | Inr rec \<Rightarrow>
          (let policy = (if length (rec_Value rec) > 0
                 then (case decoded (co_iam H) (rec_Value rec) KPolicy of Some (IPolicy p) \<Rightarrow> p | _ \<Rightarrow> \<lparr>Bindings = []\<rparr>)
                 else \<lparr>Bindings = []\<rparr>);
               policy = policy\<lparr>Bindings := applyBinding (co_rangeSet H) (Bindings policy) role members grant\<rparr>
           in case iam_Encode (co_iam H) (IPolicy policy) of
                Inl e \<Rightarrow> (Some e, st)
              | Inr raw \<Rightarrow>
                  (case svc_Put H st (putRequest (iam_Key minor) raw) of
                     (Inl e, st) \<Rightarrow> (Some e, st)
                   | (Inr _, st) \<Rightarrow> (None, st))))"

record binding_request =
  bq_Role :: string
  bq_Members :: "string list"
  bq_Tenant :: string
  bq_Region :: string

definition iamChangeBinding :: "('db, 'v, 'w, 'k, 'p) ConsoleHandler \<Rightarrow> binding_request option \<Rightarrow> bool \<Rightarrow> 'db con
    \<Rightarrow> reply \<times> 'db con" where
  "iamChangeBinding H req grant st =
     (case req of
        None \<Rightarrow> (invalidBody, st)
      | Some q \<Rightarrow>
          if bq_Role q = '''' \<or> length (bq_Members q) = 0
          then ((StatusBadRequest, JError ''role and members are required''), st)
          else if bq_Region q \<noteq> '''' \<and> bq_Tenant q = ''''
          then ((StatusBadRequest, JError ''region requires tenant''), st)
          else case grantRole H (bq_Members q) (bq_Role q) (bq_Tenant q) (bq_Region q) grant st of
            (Some e, st) \<Rightarrow> ((StatusInternalServerError, JFail '''' e), st)
          | (None, st) \<Rightarrow>
              ((StatusOK, JScope (bindingScopeLabelOf (bq_Tenant q) (bq_Region q)) (bq_Role q)), st))"

section \<open>Groups\<close>

definition list_group :: "'w iam_value_api \<Rightarrow> (string \<times> string list) list \<Rightarrow> string \<Rightarrow> bytes \<Rightarrow> (string \<times> string list) list" where
  "list_group A groups minor val =
     (case CutPrefix minor GroupPrefix of
        None \<Rightarrow> groups
      | Some name \<Rightarrow>
          (case decoded A val KGroup of Some (IGroup g) \<Rightarrow> groups @ [(name, gr_Members g)] | _ \<Rightarrow> groups))"

definition iamListGroups :: "('db, 'v, 'w, 'k, 'p) ConsoleHandler \<Rightarrow> 'db con \<Rightarrow> reply" where
  "iamListGroups H st =
     (case scanIAM H st (list_group (co_iam H)) [] of
        (Some _, _) \<Rightarrow> (StatusInternalServerError, JError ''scan groups'')
      | (None, groups) \<Rightarrow> (StatusOK, JGroups groups))"

definition iamSetGroup :: "('db, 'v, 'w, 'k, 'p) ConsoleHandler \<Rightarrow> (string \<times> string list) option \<Rightarrow> 'db con
    \<Rightarrow> reply \<times> 'db con" where
  "iamSetGroup H req st =
     (case req of
        None \<Rightarrow> (invalidBody, st)
      | Some (name, members) \<Rightarrow>
          if name = '''' \<or> badName name
          then ((StatusBadRequest, JError ''group name is required and must not contain '/' or spaces''), st)
          else case iam_Encode (co_iam H) (IGroup \<lparr>gr_Name = name, gr_Members = dedup members\<rparr>) of
            Inl _ \<Rightarrow> ((StatusInternalServerError, JError ''encode record''), st)
          | Inr raw \<Rightarrow>
              (case svc_Put H st (putRequest (iam_Key (GroupPrefix @ name)) raw) of
                 (Inl e, st) \<Rightarrow> ((StatusInternalServerError, JFail '''' e), st)
               | (Inr _, st) \<Rightarrow> ((StatusOK, JGroup name (dedup members)), st)))"

definition iamDeleteGroup :: "('db, 'v, 'w, 'k, 'p) ConsoleHandler \<Rightarrow> string \<Rightarrow> 'db con \<Rightarrow> reply \<times> 'db con" where
  "iamDeleteGroup H name st =
     (if name = '''' then ((StatusBadRequest, JError ''group name required''), st)
      else case svc_Remove H st (iam_Key (GroupPrefix @ name)) of
        (Inl e, st) \<Rightarrow> ((StatusInternalServerError, JFail '''' e), st)
      | (Inr _, st) \<Rightarrow> ((StatusOK, JDeleted name), st))"

section \<open>Personal access tokens\<close>

text \<open>\<open>strings.TrimSpace\<close>: the UTF-8 encodings of the white space runes, taken off both ends.\<close>

definition spaces :: "string list" where
  "spaces = map (map char_of) ([[9], [10], [11], [12], [13], [32], [194, 133], [194, 160], [225, 154, 128],
      [226, 128, 168], [226, 128, 169], [226, 128, 175], [226, 129, 159], [227, 128, 128]]
      @ map (\<lambda>n. [226, 128, n]) [128 ..< 139] :: nat list list)"

fun trim_left :: "string list \<Rightarrow> nat \<Rightarrow> string \<Rightarrow> string" where
  "trim_left sp 0 s = s"
| "trim_left sp (Suc n) s =
     (case find (\<lambda>p. prefix p s) sp of None \<Rightarrow> s | Some p \<Rightarrow> trim_left sp n (drop (length p) s))"

definition TrimSpace :: "string \<Rightarrow> string" where
  "TrimSpace s =
     (let l = trim_left spaces (length s) s in rev (trim_left (map rev spaces) (length l) (rev l)))"

definition defaultPATDays :: int where "defaultPATDays = 90"

definition list_token :: "'w iam_value_api \<Rightarrow> string \<Rightarrow> patOut list \<Rightarrow> string \<Rightarrow> bytes \<Rightarrow> patOut list" where
  "list_token A princ out minor val =
     (case CutPrefix minor TokenIndexPrefix of
        None \<Rightarrow> out
      | Some hash \<Rightarrow>
          (case decoded A val KToken of
             Some (IToken rec) \<Rightarrow>
               if tk_Principal rec = princ
               then out @ [\<lparr>po_ID = hash, po_Label = tk_Label rec, po_CreatedAt = tk_CreatedAt rec,
                            po_ExpiresAt = tk_ExpiresAt rec\<rparr>] else out
           | _ \<Rightarrow> out))"

definition iamListUserTokens :: "('db, 'v, 'w, 'k, 'p) ConsoleHandler \<Rightarrow> string \<Rightarrow> 'db con \<Rightarrow> reply" where
  "iamListUserTokens H user st =
     (case scanIAM H st (list_token (co_iam H) (PrincipalUser user)) [] of
        (Some _, _) \<Rightarrow> (StatusInternalServerError, JError ''scan tokens'')
      | (None, out) \<Rightarrow> (StatusOK, JTokens out))"

definition principalExists :: "('db, 'v, 'w, 'k, 'p) ConsoleHandler \<Rightarrow> 'db con \<Rightarrow> string \<Rightarrow> bool" where
  "principalExists H st princ =
     (case PrincipalStorageMinor princ of
        None \<Rightarrow> False
      | Some minor \<Rightarrow> (case svc_Get H st (iam_Key minor) of Inl _ \<Rightarrow> False | Inr rec \<Rightarrow> length (rec_Value rec) > 0))"

definition iamCreateUserToken :: "('db, 'v, 'w, 'k, 'p) ConsoleHandler \<Rightarrow> (string \<times> int) option \<Rightarrow> string \<Rightarrow> 'db con
    \<Rightarrow> reply \<times> 'db con" where
  "iamCreateUserToken H req user st =
     (if \<not> principalExists H st (PrincipalUser user) then ((StatusNotFound, JError ''user not found''), st)
      else case req of
        None \<Rightarrow> (invalidBody, st)
      | Some (label, ttlDays) \<Rightarrow>
          (let days = (if ttlDays \<le> 0 then defaultPATDays else ttlDays) in
           case NewToken (dr_token (co_draws H)) TokenPrefixUser of
             Inl e \<Rightarrow> ((StatusInternalServerError, JFail '''' e), st)
           | Inr (token, hash) \<Rightarrow>
               (let rec = \<lparr>tk_Principal = PrincipalUser user,
                           tk_ExpiresAt = time_Unix (co_AddDate H (co_clock H) days), tk_Label = TrimSpace label,
                           tk_CreatedAt = time_Unix (co_clock H)\<rparr>
                in case iam_Encode (co_iam H) (IToken rec) of
                     Inl _ \<Rightarrow> ((StatusInternalServerError, JError ''encode token''), st)
                   | Inr raw \<Rightarrow>
                       (case svc_Put H st (putRequest (iam_Key (TokenIndexKey hash)) raw) of
                          (Inl e, st) \<Rightarrow> ((StatusInternalServerError, JFail '''' e), st)
                        | (Inr _, st) \<Rightarrow>
                            ((StatusCreated, JToken hash token (tk_Label rec) (tk_ExpiresAt rec)), st)))))"

definition iamRevokeUserToken :: "('db, 'v, 'w, 'k, 'p) ConsoleHandler \<Rightarrow> string \<Rightarrow> string \<Rightarrow> 'db con \<Rightarrow> reply \<times> 'db con" where
  "iamRevokeUserToken H user tid st =
     (if tid = '''' then ((StatusBadRequest, JError ''token id required''), st)
      else case svc_Get H st (iam_Key (TokenIndexKey tid)) of
        Inl e \<Rightarrow> ((StatusInternalServerError, JFail '''' e), st)
      | Inr rec \<Rightarrow>
          if length (rec_Value rec) = 0 then ((StatusNotFound, JError ''token not found''), st)
          else if (case decoded (co_iam H) (rec_Value rec) KToken of
                     Some (IToken tr) \<Rightarrow> tk_Principal tr \<noteq> PrincipalUser user | _ \<Rightarrow> True)
          then ((StatusNotFound, JError ''token not found for this user''), st)
          else case svc_Remove H st (iam_Key (TokenIndexKey tid)) of
            (Inl e, st) \<Rightarrow> ((StatusInternalServerError, JFail '''' e), st)
          | (Inr _, st) \<Rightarrow> ((StatusOK, JRevoked tid), st))"

end
