(* ===== verification/Console_Pki.thy ===== *)
theory Console_Pki
  imports Console
begin

text \<open>
  First-run setup (pkg/console/setup.go), the console's certificate authority and client certificates
  (pki.go), and node enrollment with join tokens (pki.go, nodes.go). The answer of another node's
  console to a forwarded request is an argument, as is the outcome of the raft membership change.
\<close>

section \<open>The built-in authority\<close>

definition loadCA :: "('db, 'v, 'w, 'k, 'p) ConsoleHandler \<Rightarrow> 'db con \<Rightarrow> 'k CA option result" where
  "loadCA H st =
     (case svc_Get H st (PKIKey CAMinor) of
        Inl e \<Rightarrow> Inl e
      | Inr rec \<Rightarrow>
          if length (rec_Value rec) = 0 then Inr None
          else case iam_Decode (co_iam H) (rec_Value rec) KCA of
            Inl e \<Rightarrow> Inl (Wrapped ''decode CA'' e)
          | Inr (ICA car) \<Rightarrow>
              (case CA_Load (co_x509 H) car of Inl e \<Rightarrow> Inl e | Inr loaded \<Rightarrow> Inr (Some loaded))
          | Inr _ \<Rightarrow> Inl Panic)"

text \<open>\<open>replication.LoadGenesisCA\<close> and \<open>HasTransportCA\<close> on the two files of the data directory.\<close>

definition LoadGenesisCA :: "('db, 'v, 'w, 'k, 'p) ConsoleHandler \<Rightarrow> CARecord option" where
  "LoadGenesisCA H =
     (case (co_caCert H, co_caKey H) of
        (Some cert, Some key) \<Rightarrow>
          if length cert = 0 \<or> length key = 0 then None
          else Some \<lparr>ca_CertPEM = cert, ca_KeyPEM = key, ca_CreatedAt = time_Unix (co_clock H)\<rparr>
      | _ \<Rightarrow> None)"

definition HasTransportCA :: "('db, 'v, 'w, 'k, 'p) ConsoleHandler \<Rightarrow> bool" where
  "HasTransportCA H = (case co_caCert H of None \<Rightarrow> False | Some pem \<Rightarrow> length pem > 0)"

definition newCARecord :: "('db, 'v, 'w, 'k, 'p) ConsoleHandler \<Rightarrow> CARecord result" where
  "newCARecord H =
     (case LoadGenesisCA H of
        Some rec \<Rightarrow> Inr rec
      | None \<Rightarrow>
          if HasTransportCA H
          then Inl (Msg ''cluster CA not published yet: run this operation against the seed node's console'')
          else GenerateCA (co_x509 H) (co_clock H) (dr_caKey (co_draws H)) (dr_caSerial (co_draws H)))"

definition ensureCA :: "('db, 'v, 'w, 'k, 'p) ConsoleHandler \<Rightarrow> 'db con \<Rightarrow> 'k CA result \<times> 'db con" where
  "ensureCA H st =
     (case loadCA H st of
        Inl e \<Rightarrow> (Inl e, st)
      | Inr (Some ca) \<Rightarrow> (Inr ca, st)
      | Inr None \<Rightarrow>
          (case newCARecord H of
             Inl e \<Rightarrow> (Inl e, st)
           | Inr record \<Rightarrow>
               (case iam_Encode (co_iam H) (ICA record) of
                  Inl e \<Rightarrow> (Inl e, st)
                | Inr raw \<Rightarrow>
                    (case svc_Put H st (casRequest (PKIKey CAMinor) raw 0) of
                       (Inl e, st) \<Rightarrow> (Inl e, st)
                     | (Inr status, st) \<Rightarrow>
                         if \<not> wasUpdated status
                         then (case loadCA H st of
                                 Inr (Some ca) \<Rightarrow> (Inr ca, st)
                               | _ \<Rightarrow> (Inl (Msg ''CA creation raced; re-read failed''), st))
                         else (CA_Load (co_x509 H) record, st)))))"

section \<open>First-run setup\<close>

text \<open>\<open>hdr\<close>: the request carries \<open>X-Forwarded-Leader: 1\<close>; \<open>proxy\<close>: the reply of the leader's console, if
  forwarding succeeds.\<close>

definition forwardedToLeader :: "('db, 'v, 'w, 'k, 'p) ConsoleHandler \<Rightarrow> bool \<Rightarrow> reply option \<Rightarrow> reply option" where
  "forwardedToLeader H hdr proxy =
     (case co_Raft H of
        None \<Rightarrow> None
      | Some rn \<Rightarrow>
          if \<not> rn_initialized rn \<or> IsLeader rn \<or> hdr then None
          else if rn_LeaderAddr rn = '''' then None
          else proxy)"

definition clusterInitialized :: "('db, 'v, 'w, 'k, 'p) ConsoleHandler \<Rightarrow> 'db con \<Rightarrow> bool" where
  "clusterInitialized H st =
     (case svc_Get H st (iam_Key GenesisMinor) of Inl _ \<Rightarrow> False | Inr rec \<Rightarrow> length (rec_Value rec) > 0)"

definition putGenesisRecord :: "('db, 'v, 'w, 'k, 'p) ConsoleHandler \<Rightarrow> string \<Rightarrow> 'db con \<Rightarrow> 'db con" where
  "putGenesisRecord H createdBy st =
     (case iam_Encode (co_iam H) (IGenesis \<lparr>gn_InitializedAt = word_of_int (unixNow H), gn_CreatedBy = createdBy\<rparr>) of
        Inl _ \<Rightarrow> st
      | Inr raw \<Rightarrow> snd (svc_Put H st (casRequest (iam_Key GenesisMinor) raw 0)))"

definition adoptGenesisRecord :: "('db, 'v, 'w, 'k, 'p) ConsoleHandler \<Rightarrow> 'db con \<Rightarrow> 'db con" where
  "adoptGenesisRecord H st =
     (case co_Raft H of
        Some rn \<Rightarrow> if rn_initialized rn \<and> \<not> IsLeader rn then st else putGenesisRecord H '''' st
      | None \<Rightarrow> putGenesisRecord H '''' st)"

text \<open>The scan of \<open>anyUserExists\<close>; unlike \<open>scanIAM\<close> it also looks at records with empty values.\<close>

definition user_sender :: "bool send" where
  "user_sender found block =
     (None, foldl (\<lambda>found rec. case rec_Key rec of
              None \<Rightarrow> found
            | Some k \<Rightarrow> if prefix UserPrefix (string_of (MinorKey k)) then True else found) found block)"

definition anyUserExists :: "('db, 'v, 'w, 'k, 'p) ConsoleHandler \<Rightarrow> 'db con \<Rightarrow> bool" where
  "anyUserExists H st =
     snd (GetArea (co_rt H) (unixNow H) (fsm_Storage (fst st))
       \<lparr>kr_Key = Some iam_area, kr_HeadOnly = False, kr_Timeout = 0\<rparr> RegionNameField user_sender False)"

definition setupStatus :: "('db, 'v, 'w, 'k, 'p) ConsoleHandler \<Rightarrow> bool \<Rightarrow> reply option \<Rightarrow> 'db con \<Rightarrow> reply \<times> 'db con" where
  "setupStatus H hdr proxy st =
     (case forwardedToLeader H hdr proxy of
        Some r \<Rightarrow> (r, st)
      | None \<Rightarrow>
          (let initialized = clusterInitialized H st; users = anyUserExists H st;
               (initialized, st) = (if users \<and> \<not> initialized then (True, adoptGenesisRecord H st)
                                    else (initialized, st))
           in ((StatusOK, JSetupStatus (\<not> initialized \<and> \<not> users) (initialized \<or> users) (co_AuthEnabled H)), st)))"

definition setupBootstrap :: "('db, 'v, 'w, 'k, 'p) ConsoleHandler \<Rightarrow> bool \<Rightarrow> reply option \<Rightarrow> (string \<times> string) option
    \<Rightarrow> 'db con \<Rightarrow> reply \<times> 'db con" where
  "setupBootstrap H hdr proxy req st =
     (case forwardedToLeader H hdr proxy of
        Some r \<Rightarrow> (r, st)
      | None \<Rightarrow>
          if clusterInitialized H st \<or> anyUserExists H st
          then ((StatusForbidden, JError ''setup already completed''), st)
          else case (case req of None \<Rightarrow> None
                     | Some (u, p) \<Rightarrow> if u = '''' \<or> length p < 8 then None else Some (u, p)) of
            None \<Rightarrow> ((StatusBadRequest, JError ''username and a password (min 8 chars) are required''), st)
          | Some (username, password) \<Rightarrow>
              (case HashPassword (co_argon H) (dr_salt (co_draws H)) password of
                 Inl _ \<Rightarrow> ((StatusInternalServerError, JError ''hash password''), st)
               | Inr hash \<Rightarrow>
                   (case iam_Encode (co_iam H) (IUser \<lparr>us_Name = username, us_PasswordHash = hash, us_Admin = False,
                           us_Disabled = False, us_CreatedAt = word_of_int (unixNow H)\<rparr>) of
                      Inl _ \<Rightarrow> ((StatusInternalServerError, JError ''encode record''), st)
                    | Inr raw \<Rightarrow>
                        (case svc_Put H st (casRequest (iam_Key (UserPrefix @ username)) raw 0) of
                           (Inl _, st) \<Rightarrow> ((StatusConflict, JError ''admin user already exists''), st)
                         | (Inr status, st) \<Rightarrow>
                             if \<not> wasUpdated status
                             then ((StatusConflict, JError ''admin user already exists''), st)
                             else case grantRole H [PrincipalUser username] RoleAdmin '''' '''' True st of
                               (Some _, st) \<Rightarrow> ((StatusInternalServerError, JError ''grant admin role''), st)
                             | (None, st) \<Rightarrow>
                                 (let st = putGenesisRecord H username st; st = snd (ensureCA H st)
                                  in ((StatusCreated, JBootstrapped username (co_AuthEnabled H)), st))))))"

section \<open>Client certificates\<close>

definition list_cert :: "'w iam_value_api \<Rightarrow> string \<Rightarrow> certOut list \<Rightarrow> string \<Rightarrow> bytes \<Rightarrow> certOut list" where
  "list_cert A princ out minor val =
     (case CutPrefix minor CertPrefix of
        None \<Rightarrow> out
      | Some ident \<Rightarrow>
          (case decoded A val KCertIndex of
             Some (ICertIndex idx) \<Rightarrow>
               if princ = '''' \<or> ci_Principal idx = princ
               then out @ [\<lparr>xo_Identity = ident, xo_Principal = ci_Principal idx, xo_Issued = ci_Issued idx,
                            xo_CreatedAt = ci_CreatedAt idx\<rparr>] else out
           | _ \<Rightarrow> out))"

definition iamListCerts :: "('db, 'v, 'w, 'k, 'p) ConsoleHandler \<Rightarrow> string \<Rightarrow> 'db con \<Rightarrow> reply" where
  "iamListCerts H princ st =
     (case scanIAM H st (list_cert (co_iam H) princ) [] of
        (Some _, _) \<Rightarrow> (StatusInternalServerError, JError ''scan certificates'')
      | (None, out) \<Rightarrow> (StatusOK, JCerts out))"

definition putCertIndex :: "('db, 'v, 'w, 'k, 'p) ConsoleHandler \<Rightarrow> string \<Rightarrow> string \<Rightarrow> bool \<Rightarrow> 'db con
    \<Rightarrow> go_error option \<times> 'db con" where
  "putCertIndex H ident princ issued st =
     (case iam_Encode (co_iam H) (ICertIndex \<lparr>ci_Principal = princ, ci_Issued = issued,
             ci_CreatedAt = word_of_int (unixNow H)\<rparr>) of
        Inl e \<Rightarrow> (Some e, st)
      | Inr raw \<Rightarrow>
          (case svc_Put H st (putRequest (iam_Key (CertPrefix @ ident)) raw) of
             (Inl e, st) \<Rightarrow> (Some e, st)
           | (Inr _, st) \<Rightarrow> (None, st)))"

definition iamRegisterCert :: "('db, 'v, 'w, 'k, 'p) ConsoleHandler \<Rightarrow> (string \<times> string) option \<Rightarrow> 'db con
    \<Rightarrow> reply \<times> 'db con" where
  "iamRegisterCert H req st =
     (case req of
        None \<Rightarrow> (invalidBody, st)
      | Some (princ, ident) \<Rightarrow>
          (let ident = TrimSpace ident in
           if ident = '''' \<or> \<not> principalExists H st princ
           then ((StatusBadRequest, JError ''identity and an existing principal are required''), st)
           else case putCertIndex H ident princ False st of
             (Some e, st) \<Rightarrow> ((StatusInternalServerError, JFail '''' e), st)
           | (None, st) \<Rightarrow> ((StatusCreated, JIdentity ident princ), st)))"

definition iamIssueCert :: "('db, 'v, 'w, 'k, 'p) ConsoleHandler \<Rightarrow> (string \<times> int) option \<Rightarrow> 'db con \<Rightarrow> reply \<times> 'db con" where
  "iamIssueCert H req st =
     (case req of
        None \<Rightarrow> (invalidBody, st)
      | Some (princ, ttlDays) \<Rightarrow>
          if \<not> principalExists H st princ
          then ((StatusBadRequest, JError ''an existing principal is required''), st)
          else
            let name = (case ParsePrincipal princ of None \<Rightarrow> '''' | Some (_, name) \<Rightarrow> name);
                ttl = (if ttlDays > 0 then word_of_int ttlDays * 24 * time_Hour else 365 * 24 * time_Hour)
            in case ensureCA H st of
              (Inl e, st) \<Rightarrow> ((StatusInternalServerError, JFail ''certificate authority: '' e), st)
            | (Inr ca, st) \<Rightarrow>
                (case GenerateLeafKey (co_x509 H) (dr_leafKey (co_draws H)) of
                   Inl e \<Rightarrow> ((StatusInternalServerError, JFail '''' e), st)
                 | Inr (keyPEM, pub) \<Rightarrow>
                     (let uri = CertURIForPrincipal princ in
                      case CA_Sign (co_x509 H) (co_clock H) (dr_serial (co_draws H)) ca
                             \<lparr>cq_PublicKey = pub, cq_CommonName = name, cq_URIs = [uri], cq_DNSNames = [],
                              cq_IPs = [], cq_Client = True, cq_Server = False, cq_TTL = ttl\<rparr> of
                        Inl e \<Rightarrow> ((StatusInternalServerError, JFail ''sign certificate: '' e), st)
                      | Inr certPEM \<Rightarrow>
                          (case putCertIndex H uri princ True st of
                             (Some e, st) \<Rightarrow> ((StatusInternalServerError, JFail '''' e), st)
                           | (None, st) \<Rightarrow>
                               ((StatusCreated, JIssued uri certPEM keyPEM (CA_CertPEM ca)), st)))))"

definition iamRevokeCert :: "('db, 'v, 'w, 'k, 'p) ConsoleHandler \<Rightarrow> string \<Rightarrow> 'db con \<Rightarrow> reply \<times> 'db con" where
  "iamRevokeCert H ident st =
     (if ident = '''' then ((StatusBadRequest, JError ''identity required''), st)
      else case svc_Remove H st (iam_Key (CertPrefix @ ident)) of
        (Inl e, st) \<Rightarrow> ((StatusInternalServerError, JFail '''' e), st)
      | (Inr _, st) \<Rightarrow> ((StatusOK, JRevoked ident), st))"

section \<open>Join tokens\<close>

definition mintJoinToken :: "('db, 'v, 'w, 'k, 'p) ConsoleHandler \<Rightarrow> i64 \<Rightarrow> string \<Rightarrow> 'db con
    \<Rightarrow> (string \<times> i64) result \<times> 'db con" where
  "mintJoinToken H ttl createdBy st =
     (case ensureCA H st of
        (Inl e, st) \<Rightarrow> (Inl e, st)
      | (Inr _, st) \<Rightarrow>
          (case NewToken (dr_token (co_draws H)) TokenPrefixJoin of
             Inl e \<Rightarrow> (Inl e, st)
           | Inr (token, hash) \<Rightarrow>
               (let expiresAt = (if sint ttl > 0 then time_Unix (time_Add (co_clock H) ttl) else 0) in
                case iam_Encode (co_iam H) (IJoin \<lparr>jn_ExpiresAt = expiresAt, jn_CreatedBy = createdBy,
                       jn_Reusable = False\<rparr>) of
                  Inl e \<Rightarrow> (Inl e, st)
                | Inr raw \<Rightarrow>
                    (case svc_Put H st (putRequest (PKIKey (JoinIndexKey hash)) raw) of
                       (Inl e, st) \<Rightarrow> (Inl e, st)
                     | (Inr _, st) \<Rightarrow> (Inr (token, expiresAt), st)))))"

text \<open>\<open>minutes\<close>: the query parameter as \<open>strconv.Atoi\<close> reads it, if it does.\<close>

definition mintJoinTokenHandler :: "('db, 'v, 'w, 'k, 'p) ConsoleHandler \<Rightarrow> i64 option \<Rightarrow> string \<Rightarrow> 'db con
    \<Rightarrow> reply \<times> 'db con" where
  "mintJoinTokenHandler H minutes princ st =
     (let ttl = (case minutes of
                   Some n \<Rightarrow> if sint n > 0 then n * time_Minute else 30 * time_Minute
                 | None \<Rightarrow> 30 * time_Minute)
      in case mintJoinToken H ttl princ st of
           (Inl e, st) \<Rightarrow> ((StatusInternalServerError, JFail ''mint join token: '' e), st)
         | (Inr (token, expiresAt), st) \<Rightarrow> ((StatusCreated, JJoinToken token expiresAt), st))"

definition adoptBootstrapToken :: "('db, 'v, 'w, 'k, 'p) ConsoleHandler \<Rightarrow> string \<Rightarrow> 'db con
    \<Rightarrow> Record option result \<times> 'db con" where
  "adoptBootstrapToken H hash st =
     (if co_BootstrapToken H = '''' \<or> HashToken (co_BootstrapToken H) \<noteq> hash then (Inr None, st)
      else case iam_Encode (co_iam H) (IJoin \<lparr>jn_ExpiresAt = 0, jn_CreatedBy = ''bootstrap-token'',
             jn_Reusable = True\<rparr>) of
        Inl e \<Rightarrow> (Inl e, st)
      | Inr raw \<Rightarrow>
          (case svc_Put H st (casRequest (PKIKey (JoinIndexKey hash)) raw 0) of
             (Inl e, st) \<Rightarrow> (Inl e, st)
           | (Inr _, st) \<Rightarrow>
               ((case svc_Get H st (PKIKey (JoinIndexKey hash)) of Inl e \<Rightarrow> Inl e | Inr rec \<Rightarrow> Inr (Some rec)), st)))"

text \<open>\<open>splitHosts\<close>.\<close>

fun split_loop :: "('k, 'p) x509_api \<Rightarrow> string list \<Rightarrow> string list \<times> bytes list \<Rightarrow> string list \<Rightarrow> string list \<times> bytes list" where
  "split_loop X seen out [] = out"
| "split_loop X seen out (h # hs) =
     (let h = TrimSpace h in
      if h = '''' \<or> h \<in> set seen then split_loop X seen out hs
      else case net_ParseIP X h of
        Some ip \<Rightarrow> split_loop X (h # seen) (fst out, snd out @ [ip]) hs
      | None \<Rightarrow> split_loop X (h # seen) (fst out @ [h], snd out) hs)"

definition splitHosts :: "('k, 'p) x509_api \<Rightarrow> string list \<Rightarrow> string list \<times> bytes list" where
  "splitHosts X hosts = split_loop X [] ([], []) hosts"

definition nodeCertTTL :: i64 where "nodeCertTTL = 5 * 365 * 24 * time_Hour"

text \<open>\<open>signNodeEnrollment\<close> in its three stages: looking the token up, burning it, signing.\<close>

definition enroll_lookup :: "('db, 'v, 'w, 'k, 'p) ConsoleHandler \<Rightarrow> string \<Rightarrow> 'db con \<Rightarrow> Record result \<times> 'db con" where
  "enroll_lookup H hash st =
     (case svc_Get H st (PKIKey (JoinIndexKey hash)) of
        Inl e \<Rightarrow> (Inl e, st)
      | Inr rec \<Rightarrow>
          if length (rec_Value rec) = 0
          then (case adoptBootstrapToken H hash st of
                  (Inl e, st) \<Rightarrow> (Inl e, st)
                | (Inr None, st) \<Rightarrow> (Inl (Msg ''invalid join token''), st)
                | (Inr (Some rec), st) \<Rightarrow>
                    if length (rec_Value rec) = 0 then (Inl (Msg ''invalid join token''), st) else (Inr rec, st))
          else (Inr rec, st))"

definition enroll_burn :: "('db, 'v, 'w, 'k, 'p) ConsoleHandler \<Rightarrow> string \<Rightarrow> Record \<Rightarrow> 'db con \<Rightarrow> go_error option \<times> 'db con" where
  "enroll_burn H hash rec st =
     (case iam_Decode (co_iam H) (rec_Value rec) KJoin of
        Inl e \<Rightarrow> (Some e, st)
      | Inr (IJoin jr) \<Rightarrow>
          if jn_ExpiresAt jr \<noteq> 0 \<and> unixNow H > sint (jn_ExpiresAt jr) then (Some (Msg ''join token expired''), st)
          else if jn_Reusable jr then (None, st)
          else (case rec_Head rec of
             None \<Rightarrow> (Some (Msg ''invalid join token''), st)
           | Some head \<Rightarrow>
               (case iam_Encode (co_iam H) (IJoin \<lparr>jn_ExpiresAt = 1, jn_CreatedBy = jn_CreatedBy jr,
                       jn_Reusable = False\<rparr>) of
                  Inl e \<Rightarrow> (Some e, st)
                | Inr burned \<Rightarrow>
                    (case svc_Put H st (casRequest (PKIKey (JoinIndexKey hash)) burned (hd_Version head)) of
                       (Inl e, st) \<Rightarrow> (Some e, st)
                     | (Inr status, st) \<Rightarrow>
                         if \<not> wasUpdated status then (Some (Msg ''join token already used''), st)
                         else (None, st))))
      | Inr _ \<Rightarrow> (Some Panic, st))"

definition enroll_sign :: "('db, 'v, 'w, 'k, 'p) ConsoleHandler \<Rightarrow> string \<Rightarrow> string list \<Rightarrow> bytes \<Rightarrow> 'db con
    \<Rightarrow> (bytes \<times> bytes) result \<times> 'db con" where
  "enroll_sign H nodeID hosts csrPEM st =
     (case ParseCSR (co_x509 H) csrPEM of
        Inl e \<Rightarrow> (Inl e, st)
      | Inr pub \<Rightarrow>
          (case ensureCA H st of
             (Inl e, st) \<Rightarrow> (Inl e, st)
           | (Inr ca, st) \<Rightarrow>
               (let (dns, ips) = splitHosts (co_x509 H) (nodeID # NodeSANDNS # hosts) in
                case CA_Sign (co_x509 H) (co_clock H) (dr_serial (co_draws H)) ca
                       \<lparr>cq_PublicKey = pub, cq_CommonName = nodeID, cq_URIs = [], cq_DNSNames = dns,
                        cq_IPs = ips, cq_Client = True, cq_Server = True, cq_TTL = nodeCertTTL\<rparr> of
                  Inl e \<Rightarrow> (Inl e, st)
                | Inr certPEM \<Rightarrow> (Inr (certPEM, CA_CertPEM ca), st))))"

definition signNodeEnrollment :: "('db, 'v, 'w, 'k, 'p) ConsoleHandler \<Rightarrow> string \<Rightarrow> string \<Rightarrow> string list \<Rightarrow> bytes
    \<Rightarrow> 'db con \<Rightarrow> (bytes \<times> bytes) result \<times> 'db con" where
  "signNodeEnrollment H token nodeID hosts csrPEM st =
     (if token = '''' \<or> nodeID = '''' then (Inl (Msg ''token and nodeId are required''), st)
      else case enroll_lookup H (HashToken token) st of
        (Inl e, st) \<Rightarrow> (Inl e, st)
      | (Inr rec, st) \<Rightarrow>
          (case enroll_burn H (HashToken token) rec st of
             (Some e, st) \<Rightarrow> (Inl e, st)
           | (None, st) \<Rightarrow> enroll_sign H nodeID hosts csrPEM st))"

definition consumeJoinToken :: "('db, 'v, 'w, 'k, 'p) ConsoleHandler \<Rightarrow> string \<Rightarrow> 'db con \<Rightarrow> 'db con" where
  "consumeJoinToken H token st =
     (let key = PKIKey (JoinIndexKey (HashToken token)) in
      case svc_Get H st key of
        Inr rec \<Rightarrow>
          if length (rec_Value rec) > 0
             \<and> (case decoded (co_iam H) (rec_Value rec) KJoin of Some (IJoin jr) \<Rightarrow> jn_Reusable jr | _ \<Rightarrow> False)
          then st else snd (svc_Remove H st key)
      | Inl _ \<Rightarrow> snd (svc_Remove H st key))"

section \<open>Enrollment\<close>

record enroll_request =
  eq_Token :: string
  eq_NodeId :: string
  eq_RaftAddr :: string
  eq_Advertise :: string
  eq_CsrPem :: string

text \<open>\<open>host\<close>: \<open>net.SplitHostPort\<close>, or \<open>None\<close> where it fails; \<open>voter\<close>: the outcome of \<open>AddVoter\<close>; \<open>proxy\<close>:
  the leader's reply, or the error of reaching it.\<close>

definition hostOnly :: "(string \<Rightarrow> string option) \<Rightarrow> string \<Rightarrow> string" where
  "hostOnly host addr = (if addr = '''' then '''' else case host addr of Some h \<Rightarrow> h | None \<Rightarrow> addr)"

definition enrollNode :: "('db, 'v, 'w, 'k, 'p) ConsoleHandler \<Rightarrow> (string \<Rightarrow> string option) \<Rightarrow> (string \<Rightarrow> string \<Rightarrow> go_error option)
    \<Rightarrow> reply result \<Rightarrow> enroll_request option \<Rightarrow> 'db con \<Rightarrow> reply \<times> 'db con" where
  "enrollNode H host voter proxy req st =
     (case co_Raft H of
        None \<Rightarrow> ((StatusConflict, JError ''replication is not enabled on this node''), st)
      | Some rn \<Rightarrow>
          if \<not> rn_initialized rn
          then ((StatusConflict, JError ''replication is not enabled on this node''), st)
          else if \<not> IsLeader rn then
            if rn_LeaderAddr rn = '''' then ((StatusServiceUnavailable, JError ''no leader elected''), st)
            else (case proxy of
                    Inl e \<Rightarrow> ((StatusBadGateway, JFail ''forward to leader: '' e), st)
                  | Inr r \<Rightarrow> (r, st))
          else case req of
            None \<Rightarrow> (invalidBody, st)
          | Some q \<Rightarrow>
              if eq_NodeId q = '''' \<or> eq_RaftAddr q = '''' \<or> eq_CsrPem q = ''''
              then ((StatusBadRequest, JError ''nodeId, raftAddr and csrPem are required''), st)
              else case signNodeEnrollment H (eq_Token q) (eq_NodeId q)
                     [hostOnly host (eq_RaftAddr q), hostOnly host (eq_Advertise q)] (bytes_of (eq_CsrPem q)) st of
                (Inl e, st) \<Rightarrow> ((StatusBadRequest, JFail '''' e), st)
              | (Inr (certPEM, caPEM), st) \<Rightarrow>
                  (case voter (eq_NodeId q) (eq_RaftAddr q) of
                     Some e \<Rightarrow> ((StatusInternalServerError, JFail ''add voter: '' e), st)
                   | None \<Rightarrow>
                       ((StatusCreated, JEnrolled (eq_NodeId q) certPEM caPEM), consumeJoinToken H (eq_Token q) st)))"

end
