(* ===== verification/Console_Effects.thy ===== *)
theory Console_Effects
  imports Console_Pki "HOL-Library.Multiset"
begin

text \<open>
  What the console's service calls do to the records of a node, with and without replication. A
  handler sees the database except for the ledger head, which every replicated write also updates;
  \<open>off_head\<close> is that view. Reads, writes and the scan of the IAM region are stated over it, so that the
  proofs about the handlers no longer mention the engine, raft or the state machine.
\<close>

section \<open>The database without the ledger head\<close>

definition head_cell :: "'db runtime \<Rightarrow> bytes" where
  "head_cell E = entry_key (uuid E) headKey"

definition off_head :: "'db runtime \<Rightarrow> 'db FSM \<Rightarrow> cell_map" where
  "off_head E t = (cells E (fsm_Storage t))(head_cell E := None)"

definition keys_ok :: "'db runtime \<Rightarrow> cell_map \<Rightarrow> bool" where
  "keys_ok E cs \<longleftrightarrow> (\<forall>b \<in> dom cs. \<exists>key. key_fits key \<and> b = entry_key (uuid E) key)"

definition node_ok :: "'db runtime \<Rightarrow> 'db FSM \<Rightarrow> bool" where
  "node_ok E t \<longleftrightarrow> fsm_chain t \<noteq> None \<and> keys_ok E (off_head E t)"

lemma headKey_fits: "key_fits headKey"
  by (simp add: key_fits_def headKey_def HeadTenant_def HeadRegion_def HeadMinor_def MaxKeyLength_def)

lemma node_ok_wf: "node_ok E t \<Longrightarrow> keys_wf E (fsm_Storage t)"
  unfolding node_ok_def keys_ok_def keys_wf_def off_head_def head_cell_def
  using headKey_fits by (auto split: if_splits)

lemma keys_ok_upd: "keys_ok E cs \<Longrightarrow> keys_ok E (cs(entry_key (uuid E) k \<mapsto> c))"
  unfolding keys_ok_def by (auto intro: exI [of _ "sanitize_key k"] simp: key_fits_sanitize entry_key_sanitize)

lemma keys_ok_del: "keys_ok E cs \<Longrightarrow> keys_ok E (cs(b := None))"
  unfolding keys_ok_def by auto

text \<open>Records of the system tenant are not the ledger head.\<close>

lemma system_not_head:
  assumes "runtime_ok E" "MajorKey k = bytes_of SystemTenant"
  shows "entry_key (uuid E) k \<noteq> head_cell E"
proof
  assume "entry_key (uuid E) k = head_cell E"
  then have "sanitize_key k = sanitize_key headKey"
    using runtime_okD(6) [OF assms(1), of k] runtime_okD(6) [OF assms(1), of headKey] by (simp add: head_cell_def)
  then have "take MaxKeyLength (bytes_of SystemTenant) = take MaxKeyLength (bytes_of HeadTenant)"
    by (simp add: sanitize_key_def assms(2) headKey_def)
  then show False
    by (simp add: MaxKeyLength_def SystemTenant_def HeadTenant_def)
qed

lemma iam_Key_major [simp]: "MajorKey (iam_Key m) = bytes_of SystemTenant" "MajorKey (PKIKey m) = bytes_of SystemTenant"
  by (simp_all add: iam_Key_def PKIKey_def)

section \<open>Service writes\<close>

lemma total_head_off: "(total_head (world_of E) V c i cs)(head_cell E := None) = cs(head_cell E := None)"
  by (auto simp: total_head_def total_Put_def Let_def write_cell_def headPut_def head_cell_def split: sum.splits)

text \<open>A position at which a proposal may be committed.\<close>

definition committed :: "commit \<Rightarrow> u64 \<Rightarrow> bool" where
  "committed commit i \<longleftrightarrow> (\<exists>data trm. commit data = Inr (i, trm))"

lemma applyCommand_effect:
  assumes "engine_ok E" "value_ok V" "fsm_chain t = Some c" "op_kind op = Some (kind_of msg)"
    and "payload_resolved msg" "applyCommand E V now rn commit t op msg = (res, t')"
  obtains (refused) e where "res = Inl e" "t' = t"
  | (applied) r i cs where "res = Inr r" "fsm_chain t' \<noteq> None" "cs(head_cell E := None) = off_head E t"
      "total_op (world_of E) op msg i cs = (outcome_of r, cells E (fsm_Storage t'))" "committed commit i"
proof -
  consider e where "res = Inl e" "t' = t"
    | data i trm r where "encodeCommand V op msg = Inr data" "commit data = Inr (i, trm)"
        "Apply E V now t \<lparr>log_Index = i, log_Term = trm, log_Data = data\<rparr> = (r, t')" "res = Inr r"
    using assms(6) by (auto simp: applyCommand_def split: if_splits sum.splits prod.splits)
  then show thesis
  proof cases
    case 1
    then show ?thesis by (rule refused)
  next
    case (2 data i trm r)
    let ?e = "\<lparr>log_Index = i, log_Term = trm, log_Data = data\<rparr>"
    have dec: "decodeCommand V data = (op, Inr msg)"
      by (rule decode_encode [OF assms(2) 2(1) assms(4)])
    have "fsm_rel E t (c, cells E (fsm_Storage t))"
      by (simp add: fsm_rel_def assms(3))
    from Apply_total [OF assms(1) entry_of_command [OF assms(2) 2(1) assms(4,5)] this 2(3)]
    obtain st' where st': "total_Apply (world_of E) V (c, cells E (fsm_Storage t)) ?e = (outcome_of r, st')"
      "fsm_rel E t' st'"
      by blast
    let ?cs = "total_head (world_of E) V (advance_entry ?e c) i (cells E (fsm_Storage t))"
    have "total_op (world_of E) op msg i ?cs = (outcome_of r, snd st')" "fst st' = advance_entry ?e c"
      using st'(1) dec by (auto simp: total_Apply_def Let_def split: prod.splits)
    then show ?thesis
      using 2(2,4) st'(2) by (intro applied [where cs = ?cs])
        (auto simp: fsm_rel_def total_head_off off_head_def committed_def)
  qed
qed

lemma status_outcome_cases:
  assumes "status_outcome x = outcome_of r"
  shows "(case x of None \<Rightarrow> fr_err r \<noteq> None | Some s \<Rightarrow> fr_err r = None \<and> fr_status r = Some s)"
  using assms by (cases x; cases "fr_status r") (auto simp: status_outcome_def outcome_of_def failed_def)

lemma stamp_plain:
  assumes "rr_TtlSeconds r = 0" "rr_ExpiresAt r = 0"
  shows "stampRecord E now r = r"
  using assms by (cases r) (simp add: stampRecord_def resolveExpiry_def)

lemma Service_Put_total:
  assumes "engine_ok E" "value_ok V" "fsm_chain t \<noteq> None" "rr_TtlSeconds r = 0" "rr_ExpiresAt r = 0"
    and "Service_Put E V now rn commit t r = (res, t')"
  obtains (failed) e where "res = Inl e" "fsm_chain t' \<noteq> None" "off_head E t' = off_head E t"
  | (answered) s cv cs where "res = Inr (Some s)" "fsm_chain t' \<noteq> None" "cs(head_cell E := None) = off_head E t"
      "total_Put (world_of E) r cv cs = (Some s, cells E (fsm_Storage t'))" "cv = 0 \<or> committed commit cv"
proof (cases "replicates rn")
  case False
  let ?p = "Put E now (fsm_Storage t) r 0"
  have tot: "total_Put (world_of E) r 0 (cells E (fsm_Storage t)) = (okOf (fst ?p), cells E (snd ?p))"
    using Put_total [OF assms(1), of r now "fsm_Storage t" 0] assms(4,5) by (simp add: resolved_def)
  have svc: "res = (case fst ?p of Inl e \<Rightarrow> Inl e | Inr a \<Rightarrow> Inr (Some a))" "t' = t\<lparr>fsm_Storage := snd ?p\<rparr>"
    using assms(6) False by (auto simp: Service_Put_def Let_def localReply_def stamp_plain [OF assms(4,5)])
  show thesis
  proof (cases "fst ?p")
    case (Inl e)
    then have "cells E (snd ?p) = cells E (fsm_Storage t)"
      using tot by (auto simp: total_Put_def Let_def write_cell_def split: option.splits if_splits)
    with Inl svc assms(3) show ?thesis
      by (intro failed) (simp_all add: off_head_def)
  next
    case (Inr s)
    with svc tot assms(3) show ?thesis
      by (intro answered [where cs = "cells E (fsm_Storage t)" and cv = 0]) (simp_all add: off_head_def)
  qed
next
  case True
  obtain c where c: "fsm_chain t = Some c"
    using assms(3) by blast
  obtain x t1 where x: "applyCommand E V now (the rn) commit t opPut (PRecord r) = (x, t1)"
    by fastforce
  have svc: "(res, t') = applyStatus (x, t1)"
    using assms(6) True x by (simp add: Service_Put_def Let_def stamp_plain [OF assms(4,5)] Replicator_Put_def)
  have res: "payload_resolved (PRecord r)" "op_kind opPut = Some (kind_of (PRecord r))"
    by (simp_all add: resolved_def assms(4))
  show thesis
    using assms(1,2) c res(2,1) x
  proof (cases rule: applyCommand_effect)
    case (refused e)
    with svc assms(3) show ?thesis
      by (intro failed) (simp_all add: applyStatus_def)
  next
    case (applied q i cs)
    define w where "w = total_Put (world_of E) r i cs"
    have w: "status_outcome (fst w) = outcome_of q" "snd w = cells E (fsm_Storage t1)"
      using applied(4) by (simp_all add: total_op_def w_def split_beta Let_def)
    note st = status_outcome_cases [OF w(1)]
    show ?thesis
    proof (cases "fst w")
      case None
      then have "snd w = cs"
        by (auto simp: w_def total_Put_def Let_def write_cell_def split: option.splits if_splits)
      moreover obtain e where "fr_err q = Some e"
        using st None by auto
      ultimately show ?thesis
        using svc applied w(2) by (intro failed [where e = e]) (auto simp: applyStatus_def off_head_def)
    next
      case (Some s)
      then have "total_Put (world_of E) r i cs = (Some s, cells E (fsm_Storage t1))"
        using w(2) by (metis prod.collapse w_def)
      with Some st svc applied show ?thesis
        by (intro answered [where cs = cs and cv = i]) (auto simp: applyStatus_def)
    qed
  qed
qed

lemma Service_Remove_total:
  assumes "engine_ok E" "value_ok V" "fsm_chain t \<noteq> None" "kr_Key q = Some k"
    and "entry_key (uuid E) k \<noteq> head_cell E" "Service_Remove E V now rn commit t q = (res, t')"
  obtains (failed) e where "res = Inl e" "fsm_chain t' \<noteq> None" "off_head E t' = off_head E t"
  | (answered) s where "res = Inr (Some s)" "fsm_chain t' \<noteq> None"
      "off_head E t' = (off_head E t)(entry_key (uuid E) k := None)"
proof (cases "replicates rn")
  case False
  let ?p = "Remove E (fsm_Storage t) q"
  have tot: "total_Remove (world_of E) q (cells E (fsm_Storage t)) = (okOf (fst ?p), cells E (snd ?p))"
    using Remove_total [OF assms(1), of "fsm_Storage t" q] by simp
  have svc: "res = (case fst ?p of Inl e \<Rightarrow> Inl e | Inr a \<Rightarrow> Inr (Some a))" "t' = t\<lparr>fsm_Storage := snd ?p\<rparr>"
    using assms(6) False by (auto simp: Service_Remove_def localReply_def)
  from tot have "okOf (fst ?p) = Some \<lparr>Updated = True\<rparr>"
    "cells E (snd ?p) = (cells E (fsm_Storage t))(entry_key (uuid E) k := None)"
    by (simp_all add: total_Remove_def assms(4))
  with svc assms(3,5) show thesis
    by (cases "fst ?p") (auto intro!: answered simp: off_head_def fun_upd_twist)
next
  case True
  obtain c where c: "fsm_chain t = Some c"
    using assms(3) by blast
  obtain x t1 where x: "applyCommand E V now (the rn) commit t opRemove (PKey q) = (x, t1)"
    by fastforce
  have svc: "(res, t') = applyStatus (x, t1)"
    using assms(6) True x by (simp add: Service_Remove_def Replicator_Remove_def)
  have res: "payload_resolved (PKey q)" "op_kind opRemove = Some (kind_of (PKey q))"
    by simp_all
  show thesis
    using assms(1,2) c res(2,1) x
  proof (cases rule: applyCommand_effect)
    case (refused e)
    with svc assms(3) show ?thesis
      by (intro failed) (simp_all add: applyStatus_def)
  next
    case (applied r i cs)
    have w: "status_outcome (Some \<lparr>Updated = True\<rparr>) = outcome_of r"
      "cells E (fsm_Storage t1) = cs(entry_key (uuid E) k := None)"
      using applied(4) by (simp_all add: total_op_def total_Remove_def assms(4))
    have off: "off_head E t1 = (off_head E t)(entry_key (uuid E) k := None)"
      using applied(3) assms(5) by (metis fun_upd_twist off_head_def w(2))
    show ?thesis
      using status_outcome_cases [OF w(1)] svc applied off by (intro answered) (auto simp: applyStatus_def)
  qed
qed

section \<open>The console's calls\<close>

text \<open>The contracts a handler runs under.\<close>

definition handler_ok :: "('db, 'v, 'w, 'k, 'p) ConsoleHandler \<Rightarrow> bool" where
  "handler_ok H \<longleftrightarrow> engine_ok (co_rt H) \<and> value_ok (co_values H) \<and> iam_value_ok (co_iam H)
     \<and> (\<forall>xs. mset (co_rangeGroups H xs) = mset xs) \<and> (\<forall>xs. mset (co_rangePolicies H xs) = mset xs)
     \<and> (\<forall>xs. set (co_rangeSet H xs) = set xs)"

lemma handler_okD:
  assumes "handler_ok H"
  shows "engine_ok (co_rt H)" "runtime_ok (co_rt H)" "badger_up (badger (co_rt H))" "value_ok (co_values H)"
    and "iam_value_ok (co_iam H)" "mset (co_rangeGroups H gs) = mset gs" "mset (co_rangePolicies H ps) = mset ps"
    and "set (co_rangeSet H xs) = set xs"
  using assms by (simp_all add: handler_ok_def engine_ok_def)

abbreviation con_ok :: "('db, 'v, 'w, 'k, 'p) ConsoleHandler \<Rightarrow> 'db con \<Rightarrow> bool" where
  "con_ok H st \<equiv> node_ok (co_rt H) (fst st)"

abbreviation con_cells :: "('db, 'v, 'w, 'k, 'p) ConsoleHandler \<Rightarrow> 'db con \<Rightarrow> cell_map" where
  "con_cells H st \<equiv> off_head (co_rt H) (fst st)"

abbreviation con_key :: "('db, 'v, 'w, 'k, 'p) ConsoleHandler \<Rightarrow> Key \<Rightarrow> bytes" where
  "con_key H k \<equiv> entry_key (uuid (co_rt H)) k"

text \<open>A cell that a console write leaves.\<close>

definition fresh_cell :: "u64 \<Rightarrow> bytes \<Rightarrow> cell" where
  "fresh_cell ver x = \<lparr>c_version = ver, c_expires = 0, c_value = x, c_meta = 0\<rparr>"

lemma fresh_cell_sel [simp]:
  "c_version (fresh_cell ver x) = ver" "c_expires (fresh_cell ver x) = 0" "c_value (fresh_cell ver x) = x"
  by (simp_all add: fresh_cell_def)

lemma live_fresh [simp]: "runtime_ok E \<Longrightarrow> live E now (Some (fresh_cell ver x)) = Some (fresh_cell ver x)"
  by (simp add: live_def runtime_ok_def store_ok_def)

definition plain :: "RecordRequest \<Rightarrow> bool" where
  "plain r \<longleftrightarrow> rr_TtlSeconds r = 0 \<and> rr_ExpiresAt r = 0 \<and> rr_Metadata r = 0"

lemma request_sel [simp]:
  "plain (putRequest k x)" "plain (casRequest k x v)" "rr_Key (putRequest k x) = Some k"
  "rr_Key (casRequest k x v) = Some k" "rr_Value (putRequest k x) = x" "rr_Value (casRequest k x v) = x"
  "cas_ok (putRequest k x) c" "cas_ok (casRequest k x v) c \<longleftrightarrow> v = old_version c"
  by (simp_all add: putRequest_def casRequest_def plain_def cas_ok_def)

lemma svc_Put_cases:
  assumes "handler_ok H" "con_ok H st" "plain r" "rr_Key r = Some k" "MajorKey k = bytes_of SystemTenant"
    and "svc_Put H st r = (res, st')"
  obtains (failed) e where "res = Inl e" "con_ok H st'" "con_cells H st' = con_cells H st"
  | (kept) "res = Inr (Some \<lparr>Updated = False\<rparr>)" "con_ok H st'" "con_cells H st' = con_cells H st"
      "\<not> cas_ok r (con_cells H st (con_key H k))"
  | (stored) ver cv where "res = Inr (Some \<lparr>Updated = True\<rparr>)" "con_ok H st'"
      "con_cells H st' = (con_cells H st)(con_key H k \<mapsto> fresh_cell ver (rr_Value r))"
      "cas_ok r (con_cells H st (con_key H k))"
      "ver = next_version cv (old_version (con_cells H st (con_key H k)))" "cv = 0 \<or> committed (shd (snd st)) cv"
proof -
  let ?E = "co_rt H" and ?b = "con_key H k"
  note ok = handler_okD [OF assms(1)]
  have hk: "?b \<noteq> head_cell ?E"
    by (rule system_not_head [OF ok(2) assms(5)])
  have chain: "fsm_chain (fst st) \<noteq> None" "keys_ok ?E (con_cells H st)"
    using assms(2) by (simp_all add: node_ok_def)
  have svc: "Service_Put ?E (co_values H) (unixNow H) (co_Raft H) (shd (snd st)) (fst st) r = (res, fst st')"
    using assms(6) by (auto simp: svc_Put_def split: prod.splits)
  have pl: "rr_TtlSeconds r = 0" "rr_ExpiresAt r = 0" "rr_Metadata r = 0"
    using assms(3) by (simp_all add: plain_def)
  show thesis
    using ok(1,4) chain(1) pl(1,2) svc
  proof (cases rule: Service_Put_total)
    case (failed e)
    then show ?thesis
      using chain(2) that(1) by (simp add: node_ok_def)
  next
    case (answered s cv cs)
    have cs: "cs ?b = con_cells H st ?b"
      using answered(3) hk by (metis fun_upd_other)
    show ?thesis
    proof (cases "cas_ok r (con_cells H st ?b)")
      case False
      then have "s = \<lparr>Updated = False\<rparr>" "cells ?E (fsm_Storage (fst st')) = cs"
        using answered(4) cs by (simp_all add: total_Put_def assms(4) Let_def)
      then show ?thesis
        using answered(1-3) False chain(2) by (intro that(2)) (simp_all add: off_head_def node_ok_def)
    next
      case True
      define ver where "ver = next_version cv (old_version (con_cells H st ?b))"
      from True have w: "s = \<lparr>Updated = True\<rparr>"
        "cells ?E (fsm_Storage (fst st')) = cs(?b \<mapsto> fresh_cell ver (rr_Value r))"
        using answered(4) cs
        by (simp_all add: total_Put_def assms(4) Let_def write_cell_def fresh_cell_def pl ver_def split: if_splits)
      then have "con_cells H st' = (con_cells H st)(?b \<mapsto> fresh_cell ver (rr_Value r))"
        using answered(3) hk by (metis fun_upd_twist off_head_def)
      then show ?thesis
        using answered(1,2,5) w(1) True chain(2) by (intro that(3)) (simp_all add: node_ok_def keys_ok_upd ver_def)
    qed
  qed
qed

lemma svc_Put_stored:
  assumes "handler_ok H" "con_ok H st" "MajorKey k = bytes_of SystemTenant"
    and "svc_Put H st (putRequest k x) = (Inr s, st')"
  shows "con_ok H st'" "\<exists>ver. con_cells H st' = (con_cells H st)(con_key H k \<mapsto> fresh_cell ver x)"
  using svc_Put_cases [OF assms(1,2) _ _ assms(3,4), simplified] by metis+

lemma svc_Put_ok:
  assumes "handler_ok H" "con_ok H st" "plain r" "rr_Key r = Some k" "MajorKey k = bytes_of SystemTenant"
    and "svc_Put H st r = (res, st')"
  shows "con_ok H st'"
  using svc_Put_cases [OF assms] by metis

text \<open>A create-if-absent that reports an update.\<close>

lemma svc_Put_created:
  assumes "handler_ok H" "con_ok H st" "MajorKey k = bytes_of SystemTenant"
    and "svc_Put H st (casRequest k x v) = (Inr s, st')" "wasUpdated s"
  shows "con_ok H st' \<and> v = old_version (con_cells H st (con_key H k))
    \<and> (\<exists>ver cv. con_cells H st' = (con_cells H st)(con_key H k \<mapsto> fresh_cell ver x)
        \<and> ver = next_version cv v \<and> (cv = 0 \<or> committed (shd (snd st)) cv))"
  using assms(1,2) request_sel(2,4) assms(3,4)
proof (cases rule: svc_Put_cases)
  case (stored ver cv)
  then show ?thesis by auto
qed (use assms(5) in \<open>auto simp: wasUpdated_def\<close>)

lemma svc_Remove_cases:
  assumes "handler_ok H" "con_ok H st" "MajorKey k = bytes_of SystemTenant" "svc_Remove H st k = (res, st')"
  obtains (failed) e where "res = Inl e" "con_ok H st'" "con_cells H st' = con_cells H st"
  | (removed) s where "res = Inr s" "con_ok H st'" "con_cells H st' = (con_cells H st)(con_key H k := None)"
proof -
  let ?E = "co_rt H"
  note ok = handler_okD [OF assms(1)]
  have chain: "fsm_chain (fst st) \<noteq> None" "keys_ok ?E (con_cells H st)"
    using assms(2) by (simp_all add: node_ok_def)
  have svc: "Service_Remove ?E (co_values H) (unixNow H) (co_Raft H) (shd (snd st)) (fst st)
      \<lparr>kr_Key = Some k, kr_HeadOnly = False, kr_Timeout = 0\<rparr> = (res, fst st')"
    using assms(4) by (auto simp: svc_Remove_def split: prod.splits)
  show thesis
    using ok(1,4) chain(1) _ system_not_head [OF ok(2) assms(3)] svc
    by (cases rule: Service_Remove_total) (use that chain(2) in \<open>auto simp: node_ok_def keys_ok_del\<close>)
qed

lemma svc_Remove_removed:
  assumes "handler_ok H" "con_ok H st" "MajorKey k = bytes_of SystemTenant" "svc_Remove H st k = (Inr s, st')"
  shows "con_ok H st'" "con_cells H st' = (con_cells H st)(con_key H k := None)"
  using svc_Remove_cases [OF assms] by (metis Inl_Inr_False)+

lemma svc_Get_cell:
  assumes "handler_ok H" "MajorKey k = bytes_of SystemTenant"
  obtains rec where "svc_Get H st k = Inr rec"
    "rec_Value rec = (case live (co_rt H) (unixNow H) (con_cells H st (con_key H k)) of None \<Rightarrow> [] | Some c \<Rightarrow> c_value c)"
    "\<And>c. live (co_rt H) (unixNow H) (con_cells H st (con_key H k)) = Some c
       \<Longrightarrow> \<exists>h. rec_Head rec = Some h \<and> hd_Version h = c_version c"
proof -
  let ?q = "\<lparr>kr_Key = Some k, kr_HeadOnly = False, kr_Timeout = 0\<rparr>"
  note ok = handler_okD [OF assms(1)]
  obtain r where r: "Get (co_rt H) (unixNow H) (fsm_Storage (fst st)) ?q = Inr r"
    "summary r = map_option (answer False) (live (co_rt H) (unixNow H)
       (cells (co_rt H) (fsm_Storage (fst st)) (con_key H k)))"
    using Get_cells [OF ok(2) _ readable_up [OF ok(3)], of ?q k "unixNow H" "fsm_Storage (fst st)"] by auto
  have cell: "cells (co_rt H) (fsm_Storage (fst st)) (con_key H k) = con_cells H st (con_key H k)"
    using system_not_head [OF ok(2) assms(2)] by (simp add: off_head_def)
  have "rec_Head r = None \<Longrightarrow> rec_Value r = []"
    using r(1) by (auto simp: Get_def FetchRecord_def RecordNotFound_def RecordHead_def RecordValue_def Let_def
        split_beta split: sum.splits if_splits)
  then have v: "rec_Value r = (case live (co_rt H) (unixNow H) (con_cells H st (con_key H k)) of None \<Rightarrow> [] | Some c \<Rightarrow> c_value c)"
    using summary_value [OF r(2)] cell by simp
  show thesis
  proof (rule that)
    show "svc_Get H st k = Inr r"
      using r(1) by (simp add: svc_Get_def Service_Get_def)
    show "\<exists>h. rec_Head r = Some h \<and> hd_Version h = c_version c"
      if "live (co_rt H) (unixNow H) (con_cells H st (con_key H k)) = Some c" for c
      using r(2) cell that by (auto simp: summary_def answer_def)
  qed (rule v)
qed

section \<open>Scans of the IAM region\<close>

text \<open>A sender that folds over the records it is given, and never fails.\<close>

locale folding_sender =
  fixes send :: "'s \<Rightarrow> Block \<Rightarrow> go_error option \<times> 's" and step :: "'s \<Rightarrow> Record \<Rightarrow> 's"
  assumes send_fold: "send st b = (None, foldl step st b)"
begin

lemma area_loop_fold:
  assumes "\<forall>x \<in> set xs. isOk (visit E now ho x)"
  shows "area_loop E now ho send st rs xs = (None, foldl step st (rs @ visited E now ho xs))"
  using assms
proof (induction xs arbitrary: st rs)
  case (Cons x xs)
  then obtain v where v: "visit E now ho x = Inr v"
    by (cases "visit E now ho x") auto
  with Cons show ?case
    by (cases v) (simp_all add: Let_def send_fold)
qed (simp add: send_fold)

lemma GetArea_fold:
  assumes "runtime_ok E" "badger_up (badger E)" "keys_wf E s"
    and "kr_Key q = Some k" "\<not> kr_HeadOnly q" "EncodeKeyPrefix (uuid E) k f = Inr p"
  obtains recs where "GetArea E now s q f send acc = (None, foldl step acc recs)"
    "map row_of recs = area_rows E now (cells E s) p"
    "\<forall>r \<in> set recs. rec_Key r \<noteq> None \<and> rec_Head r \<noteq> None"
proof -
  let ?it = "iterate (badger E) (db s) False p p"
  note rows = iterate_rows [OF assms(1-3), of now False False p p]
  show thesis
  proof (rule that)
    show "GetArea E now s q f send acc = (None, foldl step acc (visited E now False ?it))"
      using assms(4-6) rows by (simp add: GetArea_def area_loop_fold)
    show "map row_of (visited E now False ?it) = area_rows E now (cells E s) p"
      using rows contents_rows [OF assms(1)] forward_scan [OF badger_okD(1) [OF runtime_okD(1) [OF assms(1)]]]
      by simp
  qed (rule visited_keys)
qed

end

interpretation iam_scan: folding_sender "iam_sender fn" "visit_record fn" for fn
  by unfold_locales (simp add: iam_sender_def)

interpretation user_scan: folding_sender user_sender "\<lambda>found rec. case rec_Key rec of None \<Rightarrow> found
    | Some k \<Rightarrow> if prefix UserPrefix (string_of (MinorKey k)) then True else found"
  by unfold_locales (simp add: user_sender_def)

text \<open>What a scan shows: minor and value of each live record with a value, in key order.\<close>

definition pair_of_row :: "Key \<times> u64 \<times> u64 \<times> i32 \<times> bytes \<Rightarrow> (string \<times> bytes) option" where
  "pair_of_row row = (case row of (k, _, _, _, v) \<Rightarrow> if v = [] then None else Some (string_of (MinorKey k), v))"

definition iam_pairs :: "'db runtime \<Rightarrow> time \<Rightarrow> cell_map \<Rightarrow> (string \<times> bytes) list" where
  "iam_pairs E now cs = List.map_filter pair_of_row (area_rows E now cs iam_prefix)"

lemma iam_prefix_not_head:
  assumes "prefix iam_prefix b"
  shows "b \<noteq> head_cell E"
proof
  assume "b = head_cell E"
  with assms have "prefix (field_bytes (bytes_of SystemTenant)) (field_bytes (bytes_of HeadTenant) @
      field_bytes (RegionName headKey) @ field_bytes (MinorKey headKey))"
    unfolding iam_prefix_def head_cell_def entry_key_def row_key_def
    by (auto simp: headKey_def dest: append_prefixD)
  then have "field_bytes (bytes_of SystemTenant) = field_bytes (bytes_of HeadTenant)"
    by (auto simp: prefix_def field_bytes_def MaxKeyLength_def SystemTenant_def HeadTenant_def append_eq_append_conv)
  then show False
    by (simp add: field_bytes_def MaxKeyLength_def SystemTenant_def HeadTenant_def bytes_of_def)
qed

lemma foldl_map_filter: "foldl g a (List.map_filter f xs) = foldl (\<lambda>a x. case f x of None \<Rightarrow> a | Some y \<Rightarrow> g a y) a xs"
  by (induction xs arbitrary: a) (simp_all add: map_filter_simps split: option.splits)

lemma foldl_cong_set: "(\<And>a x. x \<in> set xs \<Longrightarrow> f a x = g a x) \<Longrightarrow> foldl f a xs = foldl g a xs"
  by (induction xs arbitrary: a) simp_all

lemma foldl_map_fun: "foldl f a (map g xs) = foldl (\<lambda>a x. f a (g x)) a xs"
  by (induction xs arbitrary: a) simp_all

lemma compiled_pairs: "compiled E A now cs = foldl (\<lambda>snap (m, v). absorb A m v snap) NewSnapshot (iam_pairs E now cs)"
  unfolding compiled_def iam_pairs_def foldl_map_filter
  by (rule foldl_cong_set) (auto simp: absorb_row_def pair_of_row_def)

lemma iam_area_prefix: "EncodeKeyPrefix U iam_area RegionNameField = Inr iam_prefix"
  by (simp add: EncodeKeyPrefix_layout iam_area_def iam_prefix_def)

lemma area_rows_off_head: "area_rows E now (cells E (fsm_Storage t)) iam_prefix = area_rows E now (off_head E t) iam_prefix"
  by (rule area_rows_cong) (use iam_prefix_not_head in \<open>auto simp: off_head_def\<close>)

lemma compiled_off_head: "compiled E A now (cells E (fsm_Storage t)) = compiled E A now (off_head E t)"
  by (simp add: compiled_def area_rows_off_head)

lemma scanIAM_pairs:
  assumes "handler_ok H" "con_ok H st"
  shows "scanIAM H st fn acc
    = (None, foldl (\<lambda>acc (m, v). fn acc m v) acc (iam_pairs (co_rt H) (unixNow H) (con_cells H st)))"
proof -
  let ?q = "\<lparr>kr_Key = Some iam_area, kr_HeadOnly = False, kr_Timeout = 0\<rparr>"
  note ok = handler_okD [OF assms(1)]
  have q: "kr_Key ?q = Some iam_area" "\<not> kr_HeadOnly ?q"
    by simp_all
  obtain recs where recs: "scanIAM H st fn acc = (None, foldl (visit_record fn) acc recs)"
    "map row_of recs = area_rows (co_rt H) (unixNow H) (con_cells H st) iam_prefix"
    "\<forall>r \<in> set recs. rec_Key r \<noteq> None \<and> rec_Head r \<noteq> None"
    unfolding scanIAM_def area_rows_off_head [symmetric]
    by (rule iam_scan.GetArea_fold [OF ok(2,3) node_ok_wf [OF assms(2)] q iam_area_prefix])
  have "foldl (visit_record fn) acc recs
      = foldl (\<lambda>acc r. case pair_of_row (row_of r) of None \<Rightarrow> acc | Some (m, v) \<Rightarrow> fn acc m v) acc recs"
    by (rule foldl_cong_set) (use recs(3) in \<open>auto simp: visit_record_def pair_of_row_def row_of_def summary_def\<close>)
  also have "\<dots> = foldl (\<lambda>acc (m, v). fn acc m v) acc (List.map_filter pair_of_row (map row_of recs))"
    by (simp add: foldl_map_filter foldl_map_fun case_prod_beta)
  finally show ?thesis
    using recs(1,2) by (simp add: iam_pairs_def)
qed

end
