(* ===== verification/Console_Spec.thy ===== *)
theory Console_Spec
  imports Console_Effects
begin

text \<open>
  The identity records of a node and what the console's operations make of them. The records of the
  IAM region are read through \<open>live_value\<close>, the value stored under a minor; a scan lists them
  (\<open>iam_pairs\<close>). For the deletion of an identity, \<open>fate\<close> says what becomes of each record, and
  \<open>purgePrincipal\<close> is shown to carry it out; the consequences for the compiled policy follow by
  induction over the scan.
\<close>

section \<open>Records by minor\<close>

abbreviation iam_cell :: "'db runtime \<Rightarrow> string \<Rightarrow> bytes" where
  "iam_cell E m \<equiv> entry_key (uuid E) (iam_Key m)"

text \<open>Every record of the IAM region is stored under an \<open>iam.Key\<close>, so without a timestamp.\<close>

definition iam_keyed :: "'db runtime \<Rightarrow> cell_map \<Rightarrow> bool" where
  "iam_keyed E cs \<longleftrightarrow> finite (dom cs)
     \<and> (\<forall>b \<in> dom cs. prefix iam_prefix b \<longrightarrow> (\<exists>m. length m \<le> MaxKeyLength \<and> b = iam_cell E m))"

lemma finite_off_head: "finite (dom (off_head E t))"
  by (rule finite_subset [of _ "dom (cells E (fsm_Storage t))"]) (auto simp: off_head_def dom_cells split: if_splits)

lemma iam_Key_fits: "key_fits (iam_Key m) \<longleftrightarrow> length m \<le> MaxKeyLength"
  by (simp add: key_fits_def iam_Key_def SystemTenant_def IamRegion_def MaxKeyLength_def)

lemma iam_cell_prefix: "prefix iam_prefix (iam_cell E m)"
  by (simp add: prefix_def iam_prefix_def iam_Key_def entry_key_def row_key_def)

lemma iam_cell_cut: "iam_cell E (take MaxKeyLength m) = iam_cell E m"
proof -
  have "sanitize_key (iam_Key m) = iam_Key (take MaxKeyLength m)"
    by (simp add: sanitize_key_def iam_Key_def bytes_of_def take_map SystemTenant_def IamRegion_def MaxKeyLength_def)
  then show ?thesis
    using entry_key_sanitize [of "uuid E" "iam_Key m"] by simp
qed

lemma live_value_cut: "live_value E now cs (take MaxKeyLength m) = live_value E now cs m"
  by (simp add: live_value_def iam_cell_cut)

lemma DecodeKey_iam_cell:
  assumes "runtime_ok E" "length m \<le> MaxKeyLength"
  shows "DecodeKey (uuid E) (iam_cell E m) = Inr (iam_Key m)"
  using runtime_okD(6) [OF assms(1), of "iam_Key m"] assms(2) by (simp add: sanitize_key_fits iam_Key_fits)

lemma iam_cell_inject:
  assumes "runtime_ok E" "length m \<le> MaxKeyLength" "length m' \<le> MaxKeyLength"
  shows "iam_cell E m = iam_cell E m' \<longleftrightarrow> m = m'"
proof
  assume "iam_cell E m = iam_cell E m'"
  from arg_cong [OF this, of "DecodeKey (uuid E)"] have "iam_Key m = iam_Key m'"
    unfolding DecodeKey_iam_cell [OF assms(1,2)] DecodeKey_iam_cell [OF assms(1,3)] by (rule Inr_inject)
  then show "m = m'"
    by (simp add: iam_Key_def)
qed simp

lemma iam_Key_minor [simp]: "string_of (MinorKey (iam_Key m)) = m"
  by (simp add: iam_Key_def)

section \<open>Scans by minor\<close>

definition pair_at :: "'db runtime \<Rightarrow> time \<Rightarrow> cell_map \<Rightarrow> bytes \<Rightarrow> (string \<times> bytes) option" where
  "pair_at E now cs b = Option.bind (cell_row E now cs b) pair_of_row"

lemma pair_at_cell:
  assumes "runtime_ok E" "length m \<le> MaxKeyLength"
  shows "pair_at E now cs (iam_cell E m) = map_option (Pair m) (live_value E now cs m)"
  by (simp add: pair_at_def cell_row_def DecodeKey_iam_cell [OF assms] live_value_def pair_of_row_def answer_def
      split: option.splits)

lemma map_filter_compose: "List.map_filter g (List.map_filter f xs) = List.map_filter (\<lambda>x. Option.bind (f x) g) xs"
  by (induction xs) (simp_all add: map_filter_simps split: option.splits)

lemma map_filter_filter: "(\<And>x. x \<in> set xs \<Longrightarrow> \<not> P x \<Longrightarrow> f x = None) \<Longrightarrow> List.map_filter f (filter P xs) = List.map_filter f xs"
  by (induction xs) (auto simp: map_filter_simps split: option.splits)

text \<open>The scan over any finite set of keys of the region that covers the stored ones.\<close>

lemma iam_pairs_over:
  assumes "finite D" "{b \<in> dom cs. prefix iam_prefix b} \<subseteq> D" "\<forall>b \<in> D. prefix iam_prefix b"
  shows "iam_pairs E now cs = List.map_filter (pair_at E now cs) (sorted_list_of_set D)"
proof -
  have keys: "sorted_list_of_set {b \<in> dom cs. prefix iam_prefix b} = filter (\<lambda>b. b \<in> dom cs) (sorted_list_of_set D)"
  proof (rule sorted_distinct_set_unique)
    show "set (sorted_list_of_set {b \<in> dom cs. prefix iam_prefix b}) = set (filter (\<lambda>b. b \<in> dom cs) (sorted_list_of_set D))"
      using assms finite_subset [OF assms(2,1)] by auto
  qed (use assms(1) in \<open>simp_all add: sorted_wrt_filter\<close>)
  have "iam_pairs E now cs = List.map_filter (pair_at E now cs) (sorted_list_of_set {b \<in> dom cs. prefix iam_prefix b})"
    unfolding iam_pairs_def area_rows_def map_filter_compose pair_at_def ..
  also have "\<dots> = List.map_filter (pair_at E now cs) (sorted_list_of_set D)"
    unfolding keys
  proof (rule map_filter_filter)
    show "pair_at E now cs b = None" if "b \<notin> dom cs" for b
      using that by (cases "DecodeKey (uuid E) b") (simp_all add: pair_at_def cell_row_def live_def domIff)
  qed
  finally show ?thesis .
qed

definition region_keys :: "cell_map \<Rightarrow> bytes set" where
  "region_keys cs = {b \<in> dom cs. prefix iam_prefix b}"

lemma iam_pairs_keys:
  "finite (region_keys cs) \<Longrightarrow> iam_pairs E now cs = List.map_filter (pair_at E now cs) (sorted_list_of_set (region_keys cs))"
  by (rule iam_pairs_over) (auto simp: region_keys_def)

lemma iam_keyedD:
  assumes "iam_keyed E cs"
  shows "finite (region_keys cs)" "b \<in> region_keys cs \<Longrightarrow> \<exists>m. length m \<le> MaxKeyLength \<and> b = iam_cell E m"
  using assms by (simp_all add: iam_keyed_def region_keys_def)

lemma iam_pairs_iff:
  assumes "runtime_ok E" "iam_keyed E cs"
  shows "(m, v) \<in> set (iam_pairs E now cs) \<longleftrightarrow> length m \<le> MaxKeyLength \<and> live_value E now cs m = Some v"
proof -
  note keyed = iam_keyedD [OF assms(2)]
  have pairs: "(m, v) \<in> set (iam_pairs E now cs) \<longleftrightarrow> (\<exists>b \<in> region_keys cs. pair_at E now cs b = Some (m, v))"
    unfolding iam_pairs_keys [OF keyed(1)] set_map_filter_iff set_sorted_list_of_set [OF keyed(1)] ..
  show ?thesis
  proof
    assume "(m, v) \<in> set (iam_pairs E now cs)"
    then obtain b where b: "b \<in> region_keys cs" "pair_at E now cs b = Some (m, v)"
      unfolding pairs ..
    obtain m' where m': "length m' \<le> MaxKeyLength" "b = iam_cell E m'"
      using keyed(2) [OF b(1)] by (elim exE conjE)
    then show "length m \<le> MaxKeyLength \<and> live_value E now cs m = Some v"
      using b(2) pair_at_cell [OF assms(1) m'(1)] by (cases "live_value E now cs m'") simp_all
  next
    assume m: "length m \<le> MaxKeyLength \<and> live_value E now cs m = Some v"
    then have "cs (iam_cell E m) \<noteq> None"
      by (cases "cs (iam_cell E m)") (simp_all add: live_value_def live_def)
    then have "iam_cell E m \<in> region_keys cs"
      by (simp add: region_keys_def iam_cell_prefix domIff)
    moreover have "pair_at E now cs (iam_cell E m) = Some (m, v)"
      using m by (simp add: pair_at_cell [OF assms(1)])
    ultimately show "(m, v) \<in> set (iam_pairs E now cs)"
      unfolding pairs by (rule bexI [rotated])
  qed
qed

lemma distinct_map_filter:
  assumes "distinct xs"
    and "\<And>x y p q. x \<in> set xs \<Longrightarrow> y \<in> set xs \<Longrightarrow> f x = Some p \<Longrightarrow> f y = Some q \<Longrightarrow> fst p = fst q \<Longrightarrow> x = y"
  shows "distinct (map fst (List.map_filter f xs))"
  using assms
proof (induction xs)
  case (Cons x xs)
  have IH: "distinct (map fst (List.map_filter f xs))"
    by (rule Cons.IH) (use Cons.prems in auto)
  show ?case
  proof (cases "f x")
    case None
    with IH show ?thesis by (simp add: map_filter_simps)
  next
    case (Some p)
    have "fst p \<notin> set (map fst (List.map_filter f xs))"
    proof
      assume "fst p \<in> set (map fst (List.map_filter f xs))"
      then obtain y q where "y \<in> set xs" "f y = Some q" "fst q = fst p"
        by (auto simp: set_map_filter_iff)
      then have "x = y"
        using Cons.prems(2) [of x y p q] Some by simp
      with \<open>y \<in> set xs\<close> Cons.prems(1) show False by simp
    qed
    with IH Some show ?thesis by (simp add: map_filter_simps)
  qed
qed (simp add: map_filter_simps)

lemma iam_pairs_distinct:
  assumes "runtime_ok E" "iam_keyed E cs"
  shows "distinct (map fst (iam_pairs E now cs))"
  unfolding iam_pairs_keys [OF iam_keyedD(1) [OF assms(2)]]
proof (rule distinct_map_filter)
  note keyed = iam_keyedD [OF assms(2)]
  show "distinct (sorted_list_of_set (region_keys cs))"
    by simp
  fix x y p q
  assume xy: "x \<in> set (sorted_list_of_set (region_keys cs))" "y \<in> set (sorted_list_of_set (region_keys cs))"
    "pair_at E now cs x = Some p" "pair_at E now cs y = Some q" "fst p = fst q"
  have x: "x \<in> region_keys cs"
    using xy(1) unfolding set_sorted_list_of_set [OF keyed(1)] .
  have y: "y \<in> region_keys cs"
    using xy(2) unfolding set_sorted_list_of_set [OF keyed(1)] .
  obtain m where m: "length m \<le> MaxKeyLength" "x = iam_cell E m"
    using keyed(2) [OF x] by (elim exE conjE)
  obtain m' where m': "length m' \<le> MaxKeyLength" "y = iam_cell E m'"
    using keyed(2) [OF y] by (elim exE conjE)
  have "fst p = m"
    using xy(3) unfolding m(2) pair_at_cell [OF assms(1) m(1)] by (cases "live_value E now cs m") auto
  moreover have "fst q = m'"
    using xy(4) unfolding m'(2) pair_at_cell [OF assms(1) m'(1)] by (cases "live_value E now cs m'") auto
  ultimately show "x = y"
    unfolding m(2) m'(2) using xy(5) by simp
qed

section \<open>Deleting an identity\<close>

subsection \<open>What becomes of each record\<close>

datatype fate = Keep | Drop | Rewrite iam_record

definition fate :: "'w iam_value_api \<Rightarrow> string \<Rightarrow> string \<Rightarrow> bytes \<Rightarrow> fate" where
  "fate A princ m v =
     (if prefix TokenIndexPrefix m then
        (case decoded A v KToken of Some (IToken r) \<Rightarrow> if tk_Principal r = princ then Drop else Keep | _ \<Rightarrow> Keep)
      else if prefix CertPrefix m then
        (case decoded A v KCertIndex of Some (ICertIndex r) \<Rightarrow> if ci_Principal r = princ then Drop else Keep | _ \<Rightarrow> Keep)
      else if prefix GroupPrefix m then
        (case decoded A v KGroup of
           Some (IGroup g) \<Rightarrow> if princ \<in> set (gr_Members g) then Rewrite (purge_group princ g) else Keep | _ \<Rightarrow> Keep)
      else if PolicyScopeKey m \<noteq> None then
        (case decoded A v KPolicy of
           Some (IPolicy q) \<Rightarrow>
             if \<exists>b \<in> set (Bindings q). princ \<in> set (bi_Members b) then Rewrite (purge_policy princ q) else Keep
         | _ \<Rightarrow> Keep)
      else Keep)"

lemma contains_iff: "contains xs v \<longleftrightarrow> v \<in> set xs"
  by (induction xs) auto

lemma without_filter: "without xs v = filter (\<lambda>x. x \<noteq> v) xs"
  by (induction xs) auto

lemma policyHasMember_iff: "policyHasMember bs p \<longleftrightarrow> (\<exists>b \<in> set bs. p \<in> set (bi_Members b))"
  by (induction bs) (auto simp: contains_iff)

text \<open>The state of the collecting scan after the records \<open>ps\<close>.\<close>

definition collected :: "'w iam_value_api \<Rightarrow> string \<Rightarrow> (string \<times> bytes) list \<Rightarrow> purge \<Rightarrow> bool" where
  "collected A princ ps p \<longleftrightarrow>
     set (pg_tokens p @ pg_certs p) = {m. \<exists>v. (m, v) \<in> set ps \<and> fate A princ m v = Drop}
     \<and> distinct (map fst (pg_groups p)) \<and> distinct (map fst (pg_policies p))
     \<and> (\<lambda>(m, g). (m, purge_group princ g)) ` set (pg_groups p) \<union> (\<lambda>(m, q). (m, purge_policy princ q)) ` set (pg_policies p)
       = {(m, r). \<exists>v. (m, v) \<in> set ps \<and> fate A princ m v = Rewrite r}"

lemma update_fresh: "k \<notin> fst ` set al \<Longrightarrow> AList.update k v al = al @ [(k, v)]"
  by (induction al) auto

lemma purge_visit_cases:
  obtains (keep) "fate A princ m v = Keep" "purge_visit A princ p m v = p"
  | (token) "fate A princ m v = Drop" "purge_visit A princ p m v = p\<lparr>pg_tokens := pg_tokens p @ [m]\<rparr>"
  | (cert) "fate A princ m v = Drop" "purge_visit A princ p m v = p\<lparr>pg_certs := pg_certs p @ [m]\<rparr>"
  | (group) g where "fate A princ m v = Rewrite (purge_group princ g)"
      "purge_visit A princ p m v = p\<lparr>pg_groups := AList.update m g (pg_groups p)\<rparr>"
  | (policy) q where "fate A princ m v = Rewrite (purge_policy princ q)"
      "purge_visit A princ p m v = p\<lparr>pg_policies := AList.update m q (pg_policies p)\<rparr>"
proof -
  consider (T) "prefix TokenIndexPrefix m" | (C) "\<not> prefix TokenIndexPrefix m" "prefix CertPrefix m"
    | (G) "\<not> prefix TokenIndexPrefix m" "\<not> prefix CertPrefix m" "prefix GroupPrefix m"
    | (P) "\<not> prefix TokenIndexPrefix m" "\<not> prefix CertPrefix m" "\<not> prefix GroupPrefix m" "PolicyScopeKey m \<noteq> None"
    | (N) "\<not> prefix TokenIndexPrefix m" "\<not> prefix CertPrefix m" "\<not> prefix GroupPrefix m" "PolicyScopeKey m = None"
    by blast
  then show thesis
  proof cases
    case T
    show ?thesis
    proof (cases "\<exists>r. decoded A v KToken = Some (IToken r) \<and> tk_Principal r = princ")
      case True
      then show ?thesis by (elim exE) (rule token, simp_all add: fate_def purge_visit_def T)
    next
      case False
      then show ?thesis
        by (intro keep) (auto simp: fate_def purge_visit_def T split: option.split iam_record.split)
    qed
  next
    case C
    show ?thesis
    proof (cases "\<exists>r. decoded A v KCertIndex = Some (ICertIndex r) \<and> ci_Principal r = princ")
      case True
      then show ?thesis by (elim exE) (rule cert, simp_all add: fate_def purge_visit_def C)
    next
      case False
      then show ?thesis
        by (intro keep) (auto simp: fate_def purge_visit_def C split: option.split iam_record.split)
    qed
  next
    case G
    show ?thesis
    proof (cases "\<exists>g. decoded A v KGroup = Some (IGroup g) \<and> princ \<in> set (gr_Members g)")
      case True
      then show ?thesis by (elim exE) (rule group, simp_all add: fate_def purge_visit_def G contains_iff)
    next
      case False
      then show ?thesis
        by (intro keep) (auto simp: fate_def purge_visit_def G contains_iff split: option.split iam_record.split)
    qed
  next
    case P
    show ?thesis
    proof (cases "\<exists>q. decoded A v KPolicy = Some (IPolicy q) \<and> (\<exists>b \<in> set (Bindings q). princ \<in> set (bi_Members b))")
      case True
      then show ?thesis by (elim exE) (rule policy, simp_all add: fate_def purge_visit_def P policyHasMember_iff)
    next
      case False
      then show ?thesis
        by (intro keep) (auto simp: fate_def purge_visit_def P policyHasMember_iff split: option.split iam_record.split)
    qed
  next
    case N
    then show ?thesis by (intro keep) (simp_all add: fate_def purge_visit_def)
  qed
qed

lemma collected_step:
  assumes "collected A princ ps p" "m \<notin> fst ` set ps"
  shows "collected A princ (ps @ [(m, v)]) (purge_visit A princ p m v)"
proof -
  let ?R = "{(m, r). \<exists>v. (m, v) \<in> set ps \<and> fate A princ m v = Rewrite r}"
  let ?R' = "{(m', r). \<exists>v'. (m', v') \<in> set (ps @ [(m, v)]) \<and> fate A princ m' v' = Rewrite r}"
  let ?D = "{m. \<exists>v. (m, v) \<in> set ps \<and> fate A princ m v = Drop}"
  let ?D' = "{m'. \<exists>v'. (m', v') \<in> set (ps @ [(m, v)]) \<and> fate A princ m' v' = Drop}"
  let ?g = "(\<lambda>(m, g). (m, purge_group princ g)) ` set (pg_groups p)"
  let ?q = "(\<lambda>(m, q). (m, purge_policy princ q)) ` set (pg_policies p)"
  have c: "set (pg_tokens p @ pg_certs p) = ?D" "distinct (map fst (pg_groups p))" "distinct (map fst (pg_policies p))"
    "?g \<union> ?q = ?R"
    using assms(1) by (simp_all add: collected_def)
  have "fst ` ?R \<subseteq> fst ` set ps"
    by force
  then have "fst ` ?g \<subseteq> fst ` set ps" "fst ` ?q \<subseteq> fst ` set ps"
    unfolding c(4) [symmetric] by (simp_all add: image_Un)
  then have new: "m \<notin> fst ` set (pg_groups p)" "m \<notin> fst ` set (pg_policies p)"
    using assms(2) by (force simp: image_image case_prod_beta)+
  show ?thesis
  proof (cases rule: purge_visit_cases [where A = A and princ = princ and m = m and v = v and p = p])
    case keep
    then have "?D' = ?D" "?R' = ?R" by auto
    with keep c show ?thesis by (simp add: collected_def)
  next
    case token
    then have "?D' = insert m ?D" "?R' = ?R" by auto
    with token c show ?thesis by (simp add: collected_def)
  next
    case cert
    then have "?D' = insert m ?D" "?R' = ?R" by auto
    with cert c show ?thesis by (simp add: collected_def)
  next
    case (group g)
    then have "?D' = ?D" "?R' = insert (m, purge_group princ g) ?R" by auto
    with group c new show ?thesis by (simp add: collected_def update_fresh)
  next
    case (policy q)
    then have "?D' = ?D" "?R' = insert (m, purge_policy princ q) ?R" by auto
    with policy c new show ?thesis by (simp add: collected_def update_fresh)
  qed
qed

lemma collected_fold:
  assumes "distinct (map fst ps)"
  shows "collected A princ ps (foldl (\<lambda>p (m, v). purge_visit A princ p m v)
      \<lparr>pg_tokens = [], pg_certs = [], pg_groups = [], pg_policies = []\<rparr> ps)"
  using assms
proof (induction ps rule: rev_induct)
  case Nil
  then show ?case by (simp add: collected_def)
next
  case (snoc x ps)
  obtain m v where x: "x = (m, v)" by (cases x)
  have "m \<notin> fst ` set ps" "distinct (map fst ps)"
    using snoc.prems x by auto
  then show ?case
    using collected_step [OF snoc.IH] by (simp add: x)
qed

subsection \<open>The loops\<close>

definition wiped :: "'db runtime \<Rightarrow> string set \<Rightarrow> cell_map \<Rightarrow> cell_map \<Rightarrow> bool" where
  "wiped E D cs cs' \<longleftrightarrow> cs' = (\<lambda>b. if b \<in> iam_cell E ` D then None else cs b)"

definition rewritten :: "'db runtime \<Rightarrow> 'w iam_value_api \<Rightarrow> ('a \<Rightarrow> iam_record) \<Rightarrow> (string \<times> 'a) set \<Rightarrow> cell_map \<Rightarrow> cell_map
    \<Rightarrow> bool" where
  "rewritten E A f R cs cs' \<longleftrightarrow>
     (\<forall>b. b \<notin> iam_cell E ` fst ` R \<longrightarrow> cs' b = cs b)
     \<and> (\<forall>(m, r) \<in> R. \<exists>raw ver. iam_Encode A (f r) = Inr raw \<and> cs' (iam_cell E m) = Some (fresh_cell ver raw))"

lemma remove_all_effect:
  assumes "handler_ok H" "con_ok H st" "remove_all H ms st = (None, st')"
  shows "con_ok H st' \<and> wiped (co_rt H) (set ms) (con_cells H st) (con_cells H st')"
  unfolding wiped_def
  using assms(2,3)
proof (induction ms arbitrary: st)
  case (Cons m ms)
  obtain res st1 where r: "svc_Remove H st (iam_Key m) = (res, st1)"
    by (cases "svc_Remove H st (iam_Key m)")
  then obtain s where "res = Inr s" "remove_all H ms st1 = (None, st')"
    using Cons.prems(2) by (cases res) auto
  moreover note eff = svc_Remove_removed [OF assms(1) Cons.prems(1) iam_Key_major(1) r [unfolded \<open>res = Inr s\<close>]]
  ultimately show ?case
    using Cons.IH [OF eff(1)] by (auto simp: fun_eq_iff)
qed simp

lemma rewrite_all_effect:
  assumes "handler_ok H" "con_ok H st" "rewrite_all H f rs st = (None, st')"
    and "distinct (map fst rs)" "\<forall>(m, r) \<in> set rs. length m \<le> MaxKeyLength"
  shows "con_ok H st' \<and> rewritten (co_rt H) (co_iam H) f (set rs) (con_cells H st) (con_cells H st')"
  unfolding rewritten_def
  using assms(2-5)
proof (induction rs arbitrary: st)
  case (Cons x rs)
  obtain m r where x: "x = (m, r)" by (cases x)
  obtain raw where raw: "iam_Encode (co_iam H) (f r) = Inr raw"
    using Cons.prems(2) x by (cases "iam_Encode (co_iam H) (f r)") auto
  obtain res st1 where p: "svc_Put H st (putRequest (iam_Key m) raw) = (res, st1)"
    by (cases "svc_Put H st (putRequest (iam_Key m) raw)")
  then obtain s where s: "res = Inr s" "rewrite_all H f rs st1 = (None, st')"
    using Cons.prems(2) x raw by (cases res) auto
  note eff = svc_Put_stored [OF assms(1) Cons.prems(1) iam_Key_major(1) p [unfolded s(1)]]
  obtain ver where ver: "con_cells H st1 = (con_cells H st)(iam_cell (co_rt H) m \<mapsto> fresh_cell ver raw)"
    using eff(2) by blast
  have ne: "iam_cell (co_rt H) m \<noteq> iam_cell (co_rt H) m'" if "(m', r') \<in> set rs" for m' r'
  proof -
    have "m \<noteq> m'" "length m \<le> MaxKeyLength" "length m' \<le> MaxKeyLength"
      using Cons.prems(3,4) x that by force+
    then show ?thesis
      using iam_cell_inject [OF handler_okD(2) [OF assms(1)]] by blast
  qed
  have out: "iam_cell (co_rt H) m \<notin> iam_cell (co_rt H) ` fst ` set rs"
  proof
    assume "iam_cell (co_rt H) m \<in> iam_cell (co_rt H) ` fst ` set rs"
    then obtain m' r' where "iam_cell (co_rt H) m = iam_cell (co_rt H) m'" "(m', r') \<in> set rs"
      by (elim imageE) (metis prod.collapse)
    with ne show False by blast
  qed
  have "distinct (map fst rs)" "\<forall>(m, r) \<in> set rs. length m \<le> MaxKeyLength"
    using Cons.prems(3,4) by simp_all
  note IH = Cons.IH [OF eff(1) s(2) this]
  have "con_cells H st' (iam_cell (co_rt H) m) = Some (fresh_cell ver raw)"
    using IH out ver by simp
  then show ?case
    using IH x raw ver by auto
qed simp

subsection \<open>The purge carries out the fates\<close>

definition carried_out :: "'db runtime \<Rightarrow> 'w iam_value_api \<Rightarrow> cell_map \<Rightarrow> string \<Rightarrow> fate \<Rightarrow> cell_map \<Rightarrow> bool" where
  "carried_out E A cs m f cs' \<longleftrightarrow> (case f of
       Keep \<Rightarrow> cs' (iam_cell E m) = cs (iam_cell E m)
     | Drop \<Rightarrow> cs' (iam_cell E m) = None
     | Rewrite r \<Rightarrow> \<exists>raw ver. iam_Encode A r = Inr raw \<and> cs' (iam_cell E m) = Some (fresh_cell ver raw))"

definition purged :: "'db runtime \<Rightarrow> 'w iam_value_api \<Rightarrow> time \<Rightarrow> string \<Rightarrow> cell_map \<Rightarrow> cell_map \<Rightarrow> bool" where
  "purged E A now princ cs cs' \<longleftrightarrow>
     (\<forall>b. \<not> prefix iam_prefix b \<longrightarrow> cs' b = cs b) \<and> dom cs' \<subseteq> dom cs
     \<and> (\<forall>m. length m \<le> MaxKeyLength \<longrightarrow>
          carried_out E A cs m (case live_value E now cs m of None \<Rightarrow> Keep | Some v \<Rightarrow> fate A princ m v) cs')"

lemma mset_same:
  assumes "mset xs = mset ys"
  shows "set xs = set ys" "distinct (map fst xs) = distinct (map fst ys)"
proof -
  show "set xs = set ys"
    using assms by (rule mset_eq_setD)
  have "mset (map fst xs) = mset (map fst ys)"
    using assms by simp
  then show "distinct (map fst xs) = distinct (map fst ys)"
    by (rule mset_eq_imp_distinct_iff)
qed

text \<open>The three steps on the database: dropping \<open>D\<close>, then rewriting the groups \<open>G\<close> and the policies \<open>Q\<close>.\<close>

lemma purge_steps:
  assumes "runtime_ok E" "length m \<le> MaxKeyLength"
    and "\<forall>m \<in> D \<union> fst ` G \<union> fst ` Q. length m \<le> MaxKeyLength"
    and "wiped E D cs cs1" "rewritten E A f G cs1 cs2" "rewritten E A g Q cs2 cs'"
  shows "(m \<in> D \<longrightarrow> m \<notin> fst ` G \<longrightarrow> m \<notin> fst ` Q \<longrightarrow> cs' (iam_cell E m) = None)
    \<and> (m \<notin> D \<longrightarrow> m \<notin> fst ` G \<longrightarrow> m \<notin> fst ` Q \<longrightarrow> cs' (iam_cell E m) = cs (iam_cell E m))
    \<and> ((m, r) \<in> G \<longrightarrow> m \<notin> fst ` Q \<longrightarrow> carried_out E A cs m (Rewrite (f r)) cs')
    \<and> ((m, q) \<in> Q \<longrightarrow> carried_out E A cs m (Rewrite (g q)) cs')"
proof -
  have out: "m \<notin> S \<Longrightarrow> \<forall>m \<in> S. length m \<le> MaxKeyLength \<Longrightarrow> iam_cell E m \<notin> iam_cell E ` S" for S
    using iam_cell_inject [OF assms(1,2)] by auto
  have "m \<notin> D \<Longrightarrow> cs1 (iam_cell E m) = cs (iam_cell E m)" "m \<in> D \<Longrightarrow> cs1 (iam_cell E m) = None"
    using assms(3,4) out [of D] by (simp_all add: wiped_def)
  moreover have "m \<notin> fst ` G \<Longrightarrow> cs2 (iam_cell E m) = cs1 (iam_cell E m)"
    using assms(3,5) out [of "fst ` G"] by (simp add: rewritten_def)
  moreover have kept: "m \<notin> fst ` Q \<Longrightarrow> cs' (iam_cell E m) = cs2 (iam_cell E m)"
    using assms(3,6) out [of "fst ` Q"] by (simp add: rewritten_def)
  moreover have "(m, r) \<in> G \<Longrightarrow> \<exists>raw ver. iam_Encode A (f r) = Inr raw \<and> cs2 (iam_cell E m) = Some (fresh_cell ver raw)"
    using assms(5) unfolding rewritten_def by blast
  moreover have "(m, q) \<in> Q \<Longrightarrow> \<exists>raw ver. iam_Encode A (g q) = Inr raw \<and> cs' (iam_cell E m) = Some (fresh_cell ver raw)"
    using assms(6) unfolding rewritten_def by blast
  ultimately show ?thesis
    by (simp add: carried_out_def)
qed

lemma purge_cells:
  assumes "runtime_ok E" "iam_keyed E cs" "collected A princ (iam_pairs E now cs) p"
    and "wiped E (set (pg_tokens p @ pg_certs p)) cs cs1" "rewritten E A (purge_group princ) (set (pg_groups p)) cs1 cs2"
    and "rewritten E A (purge_policy princ) (set (pg_policies p)) cs2 cs'"
  shows "purged E A now princ cs cs'"
proof -
  let ?D = "set (pg_tokens p @ pg_certs p)" and ?G = "set (pg_groups p)" and ?Q = "set (pg_policies p)"
  note pairs = iam_pairs_iff [OF assms(1,2), where now = now]
  define dest where "dest m = (case live_value E now cs m of None \<Rightarrow> Keep | Some v \<Rightarrow> fate A princ m v)" for m
  have D: "m \<in> ?D \<longleftrightarrow> length m \<le> MaxKeyLength \<and> dest m = Drop" for m
    using assms(3) pairs [of m] unfolding collected_def by (auto simp: dest_def split: option.splits)
  have R: "((m, r) \<in> (\<lambda>(m, g). (m, purge_group princ g)) ` ?G \<union> (\<lambda>(m, q). (m, purge_policy princ q)) ` ?Q)
      \<longleftrightarrow> length m \<le> MaxKeyLength \<and> dest m = Rewrite r" for m r
    using assms(3) pairs [of m] unfolding collected_def by (auto simp: dest_def split: option.splits)
  have G: "(m, g) \<in> ?G \<Longrightarrow> length m \<le> MaxKeyLength \<and> dest m = Rewrite (purge_group princ g)" for m g
    unfolding R [symmetric] by (rule UnI1) (rule image_eqI [where x = "(m, g)"], simp_all)
  have Q: "(m, q) \<in> ?Q \<Longrightarrow> length m \<le> MaxKeyLength \<and> dest m = Rewrite (purge_policy princ q)" for m q
    unfolding R [symmetric] by (rule UnI2) (rule image_eqI [where x = "(m, q)"], simp_all)
  have lens: "\<forall>m \<in> ?D \<union> fst ` ?G \<union> fst ` ?Q. length m \<le> MaxKeyLength"
    using D G Q by auto
  have fated: "carried_out E A cs m (dest m) cs'" if m: "length m \<le> MaxKeyLength" for m
  proof (cases "dest m")
    case Keep
    then have "m \<notin> ?D" "m \<notin> fst ` ?G" "m \<notin> fst ` ?Q"
      using D [of m] G Q by auto
    with purge_steps [OF assms(1) m lens assms(4-6)] Keep show ?thesis
      by (simp add: carried_out_def)
  next
    case Drop
    then have "m \<in> ?D" "m \<notin> fst ` ?G" "m \<notin> fst ` ?Q"
      using D [of m] m G Q by auto
    then have "cs' (iam_cell E m) = None"
      using purge_steps [OF assms(1) m lens assms(4-6)] by blast
    with Drop show ?thesis
      by (simp add: carried_out_def)
  next
    case (Rewrite r)
    with m R [of m r] consider g where "(m, g) \<in> ?G" "r = purge_group princ g" | q where "(m, q) \<in> ?Q" "r = purge_policy princ q"
      by auto
    then show ?thesis
    proof cases
      case (1 g)
      then have "m \<notin> fst ` ?Q"
        using Q Rewrite by (auto simp: purge_group_def purge_policy_def)
      then show ?thesis
        using purge_steps [OF assms(1) m lens assms(4-6), where r = g] 1 Rewrite by simp
    next
      case (2 q)
      then show ?thesis
        using purge_steps [OF assms(1) m lens assms(4-6), where q = q] Rewrite by simp
    qed
  qed
  have other: "cs' b = cs b" if "\<not> prefix iam_prefix b" for b
  proof -
    have "b \<notin> iam_cell E ` S" for S
      using that iam_cell_prefix [of E] by auto
    then show ?thesis
      using assms(4-6) by (simp add: wiped_def rewritten_def)
  qed
  have stored: "iam_cell E m \<in> dom cs" if "dest m \<noteq> Keep" for m
    using that by (auto simp: dest_def live_value_def live_def split: option.splits)
  have "dom cs' \<subseteq> dom cs"
  proof
    fix b assume b: "b \<in> dom cs'"
    show "b \<in> dom cs"
    proof (cases "b \<in> iam_cell E ` (fst ` ?G \<union> fst ` ?Q)")
      case True
      then obtain m where "b = iam_cell E m" "dest m \<noteq> Keep"
        using G Q by (elim imageE UnE) fastforce+
      then show ?thesis using stored by simp
    next
      case False
      then have "cs' b = cs1 b"
        using assms(5,6) by (simp add: rewritten_def image_Un)
      then show ?thesis
        using b assms(4) by (auto simp: wiped_def split: if_splits)
    qed
  qed
  then show ?thesis
    using fated other by (simp add: purged_def dest_def)
qed

lemma purge_effect:
  assumes "handler_ok H" "con_ok H st" "iam_keyed (co_rt H) (con_cells H st)" "purgePrincipal H princ st = (None, st')"
  shows "con_ok H st' \<and> purged (co_rt H) (co_iam H) (unixNow H) princ (con_cells H st) (con_cells H st')"
proof -
  let ?E = "co_rt H" and ?A = "co_iam H"
  note ok = handler_okD [OF assms(1)]
  define ps where "ps = iam_pairs ?E (unixNow H) (con_cells H st)"
  define p where "p = foldl (\<lambda>p (m, v). purge_visit ?A princ p m v)
      \<lparr>pg_tokens = [], pg_certs = [], pg_groups = [], pg_policies = []\<rparr> ps"
  have ps: "distinct (map fst ps)" "\<And>m v. (m, v) \<in> set ps \<Longrightarrow> length m \<le> MaxKeyLength"
    using iam_pairs_distinct [OF ok(2) assms(3)] iam_pairs_iff [OF ok(2) assms(3)] by (auto simp: ps_def)
  have c: "collected ?A princ ps p"
    unfolding p_def by (rule collected_fold [OF ps(1)])
  note G = mset_same [OF ok(6), of "pg_groups p"]
  note Q = mset_same [OF ok(7), of "pg_policies p"]
  obtain st1 st2 where st1: "remove_all H (pg_tokens p @ pg_certs p) st = (None, st1)"
    and st2: "rewrite_all H (purge_group princ) (co_rangeGroups H (pg_groups p)) st1 = (None, st2)"
    and st3: "rewrite_all H (purge_policy princ) (co_rangePolicies H (pg_policies p)) st2 = (None, st')"
    using assms(4) unfolding purgePrincipal_def scanIAM_pairs [OF assms(1,2)] ps_def [symmetric] p_def [symmetric]
    by (auto split: option.splits prod.splits)
  have "fst ` set (pg_groups p) \<union> fst ` set (pg_policies p) \<subseteq> fst ` set ps"
  proof -
    have "fst ` ((\<lambda>(m, g). (m, purge_group princ g)) ` set (pg_groups p) \<union> (\<lambda>(m, q). (m, purge_policy princ q)) ` set (pg_policies p))
        \<subseteq> fst ` set ps"
      using c unfolding collected_def by force
    then show ?thesis
      by (simp add: image_Un image_image case_prod_beta)
  qed
  then have lens: "\<forall>(m, g) \<in> set (co_rangeGroups H (pg_groups p)). length m \<le> MaxKeyLength"
    "\<forall>(m, q) \<in> set (co_rangePolicies H (pg_policies p)). length m \<le> MaxKeyLength"
    using ps(2) G(1) Q(1) by force+
  have dist: "distinct (map fst (co_rangeGroups H (pg_groups p)))" "distinct (map fst (co_rangePolicies H (pg_policies p)))"
    using c G(2) Q(2) by (simp_all add: collected_def)
  note e1 = remove_all_effect [OF assms(1,2) st1]
  note e2 = rewrite_all_effect [OF assms(1) conjunct1 [OF e1] st2 dist(1) lens(1)]
  note e3 = rewrite_all_effect [OF assms(1) conjunct1 [OF e2] st3 dist(2) lens(2)]
  show ?thesis
    using purge_cells [OF ok(2) assms(3) c [unfolded ps_def]] e1 e2 e3 G(1) Q(1) by metis
qed

end
