(* ===== verification/Console_Parts.thy ===== *)
theory Console_Parts
  imports Console_Spec
begin

text \<open>
  The compiled policy, record by record: \<open>part\<close> is what one IAM record contributes to the snapshot,
  \<open>add_part\<close> its contribution. Compiling is adding the parts of all minors in key order, so two databases
  whose parts are related minor by minor compile to related snapshots.
\<close>

section \<open>Minors\<close>

text \<open>A minor is of one kind only.\<close>

lemma other_prefix: "prefix p m \<Longrightarrow> \<not> prefix p q \<Longrightarrow> \<not> prefix q p \<Longrightarrow> \<not> prefix q m"
  using prefix_same_cases by blast

lemma scope_prefix:
  assumes "PolicyScopeKey m = Some sc"
  shows "prefix ''policy/'' m"
proof -
  consider "m = PolicyInstance" | "prefix PolicyTenantPrefix m" | "prefix PolicyRegionPrefix m"
    using assms by (auto simp: PolicyScopeKey_def split: if_splits)
  then show ?thesis
  proof cases
    case 1
    then show ?thesis by (simp add: PolicyInstance_def)
  qed (erule prefix_order.trans [rotated], simp add: layout_defs)+
qed

lemma policy_kinds:
  assumes "PolicyScopeKey m = Some sc"
  shows "\<not> prefix UserPrefix m" "\<not> prefix ServiceAccountPrefix m" "\<not> prefix GroupPrefix m" "\<not> prefix RolePrefix m"
    "\<not> prefix TokenIndexPrefix m" "\<not> prefix CertPrefix m"
  by (rule other_prefix [OF scope_prefix [OF assms]]; simp add: layout_defs)+

lemma no_scope: "\<not> prefix ''policy/'' m \<Longrightarrow> PolicyScopeKey m = None"
  using scope_prefix by (cases "PolicyScopeKey m") blast+

lemma user_kinds:
  assumes "prefix UserPrefix m"
  shows "\<not> prefix ServiceAccountPrefix m" "\<not> prefix GroupPrefix m" "\<not> prefix RolePrefix m"
    "\<not> prefix TokenIndexPrefix m" "\<not> prefix CertPrefix m" "PolicyScopeKey m = None"
  by (rule other_prefix [OF assms]; simp add: layout_defs)+ (rule no_scope, rule other_prefix [OF assms]; simp add: layout_defs)

lemma account_kinds:
  assumes "prefix ServiceAccountPrefix m"
  shows "\<not> prefix UserPrefix m" "\<not> prefix GroupPrefix m" "\<not> prefix RolePrefix m"
    "\<not> prefix TokenIndexPrefix m" "\<not> prefix CertPrefix m" "PolicyScopeKey m = None"
  by (rule other_prefix [OF assms]; simp add: layout_defs)+ (rule no_scope, rule other_prefix [OF assms]; simp add: layout_defs)

lemma group_kinds:
  assumes "prefix GroupPrefix m"
  shows "\<not> prefix UserPrefix m" "\<not> prefix ServiceAccountPrefix m" "\<not> prefix RolePrefix m"
    "\<not> prefix TokenIndexPrefix m" "\<not> prefix CertPrefix m" "PolicyScopeKey m = None"
  by (rule other_prefix [OF assms]; simp add: layout_defs)+ (rule no_scope, rule other_prefix [OF assms]; simp add: layout_defs)

lemma token_kinds:
  assumes "prefix TokenIndexPrefix m"
  shows "\<not> prefix UserPrefix m" "\<not> prefix ServiceAccountPrefix m" "\<not> prefix GroupPrefix m" "\<not> prefix RolePrefix m"
    "\<not> prefix CertPrefix m" "PolicyScopeKey m = None"
  by (rule other_prefix [OF assms]; simp add: layout_defs)+ (rule no_scope, rule other_prefix [OF assms]; simp add: layout_defs)

lemma cert_kinds:
  assumes "prefix CertPrefix m"
  shows "\<not> prefix UserPrefix m" "\<not> prefix ServiceAccountPrefix m" "\<not> prefix GroupPrefix m" "\<not> prefix RolePrefix m"
    "\<not> prefix TokenIndexPrefix m" "PolicyScopeKey m = None"
  by (rule other_prefix [OF assms]; simp add: layout_defs)+ (rule no_scope, rule other_prefix [OF assms]; simp add: layout_defs)

section \<open>Parts\<close>

datatype part = PUser UserRecord | PAccount ServiceAccountRecord | PGroup GroupRecord | PRole RoleRecord
  | PPolicy string "Binding list" | PNone

definition part :: "'w iam_value_api \<Rightarrow> string \<Rightarrow> bytes \<Rightarrow> part" where
  "part A m v =
     (if prefix UserPrefix m then (case decoded A v KUser of Some (IUser u) \<Rightarrow> PUser u | _ \<Rightarrow> PNone)
      else if prefix ServiceAccountPrefix m
      then (case decoded A v KServiceAccount of Some (IServiceAccount sa) \<Rightarrow> PAccount sa | _ \<Rightarrow> PNone)
      else if prefix GroupPrefix m then (case decoded A v KGroup of Some (IGroup g) \<Rightarrow> PGroup g | _ \<Rightarrow> PNone)
      else if prefix RolePrefix m then (case decoded A v KRole of Some (IRole r) \<Rightarrow> PRole r | _ \<Rightarrow> PNone)
      else (case PolicyScopeKey m of
              None \<Rightarrow> PNone
            | Some sc \<Rightarrow> (case decoded A v KPolicy of Some (IPolicy p) \<Rightarrow> PPolicy sc (Bindings p) | _ \<Rightarrow> PNone)))"

fun add_part :: "part \<Rightarrow> Snapshot \<Rightarrow> Snapshot" where
  "add_part (PUser u) s = s\<lparr>Admins := (Admins s)(PrincipalUser (us_Name u) \<mapsto> us_Admin u),
     Disabled := (Disabled s)(PrincipalUser (us_Name u) \<mapsto> us_Disabled u)\<rparr>"
| "add_part (PAccount sa) s = s\<lparr>Disabled := (Disabled s)(PrincipalServiceAccount (sa_Name sa) \<mapsto> sa_Disabled sa)\<rparr>"
| "add_part (PGroup g) s = foldl (\<lambda>s m. s\<lparr>MemberGroups := (MemberGroups s)
     (m \<mapsto> mget (MemberGroups s) [] m @ [PrincipalGroup (gr_Name g)])\<rparr>) s (gr_Members g)"
| "add_part (PRole r) s = (if Roles s (ro_Name r) = None then s\<lparr>Roles := (Roles s)(ro_Name r \<mapsto> ro_Permissions r)\<rparr> else s)"
| "add_part (PPolicy sc bs) s = s\<lparr>Policies := (Policies s)(sc \<mapsto> bs)\<rparr>"
| "add_part PNone s = s"

lemma absorb_part: "absorb A m v s = add_part (part A m v) s"
proof -
  consider "prefix UserPrefix m" | "\<not> prefix UserPrefix m" "prefix ServiceAccountPrefix m"
    | "\<not> prefix UserPrefix m" "\<not> prefix ServiceAccountPrefix m" "prefix GroupPrefix m"
    | "\<not> prefix UserPrefix m" "\<not> prefix ServiceAccountPrefix m" "\<not> prefix GroupPrefix m" "prefix RolePrefix m"
    | "\<not> prefix UserPrefix m" "\<not> prefix ServiceAccountPrefix m" "\<not> prefix GroupPrefix m" "\<not> prefix RolePrefix m"
    by blast
  then show ?thesis
  proof cases
    case 5
    then show ?thesis
      by (cases "PolicyScopeKey m"; cases "decoded A v KPolicy")
        (simp_all add: absorb_def part_def Let_def split: iam_record.split)
  qed (simp_all add: absorb_def part_def Let_def split: option.split iam_record.split)
qed

lemma add_member_fold:
  fixes g :: string
  defines "add \<equiv> \<lambda>s m. s\<lparr>MemberGroups := (MemberGroups s)(m \<mapsto> mget (MemberGroups s) [] m @ [g])\<rparr>"
  shows "Admins (foldl add s ms) = Admins s" "Disabled (foldl add s ms) = Disabled s" "Roles (foldl add s ms) = Roles s"
    and "Policies (foldl add s ms) = Policies s"
    and "mget (MemberGroups (foldl add s ms)) [] q = mget (MemberGroups s) [] q @ replicate (count_list ms q) g"
  by (induction ms arbitrary: s) (auto simp: add_def replicate_append_same [symmetric])

definition part_at :: "'db runtime \<Rightarrow> 'w iam_value_api \<Rightarrow> time \<Rightarrow> cell_map \<Rightarrow> string \<Rightarrow> part" where
  "part_at E A now cs m = (case live_value E now cs m of None \<Rightarrow> PNone | Some v \<Rightarrow> part A m v)"

section \<open>Compiling\<close>

definition cell_minor :: "'db runtime \<Rightarrow> bytes \<Rightarrow> string" where
  "cell_minor E b = (case DecodeKey (uuid E) b of Inr k \<Rightarrow> string_of (MinorKey k) | Inl _ \<Rightarrow> [])"

lemma cell_minor_cell [simp]: "runtime_ok E \<Longrightarrow> length m \<le> MaxKeyLength \<Longrightarrow> cell_minor E (iam_cell E m) = m"
  by (simp add: cell_minor_def DecodeKey_iam_cell)

text \<open>The minors of the region in key order.\<close>

definition minors :: "'db runtime \<Rightarrow> cell_map \<Rightarrow> string list" where
  "minors E cs = map (cell_minor E) (sorted_list_of_set (region_keys cs))"

lemma minors_iff:
  assumes "runtime_ok E" "iam_keyed E cs"
  shows "m \<in> set (minors E cs) \<longleftrightarrow> length m \<le> MaxKeyLength \<and> iam_cell E m \<in> dom cs"
proof -
  note keyed = iam_keyedD [OF assms(2)]
  have set: "m \<in> set (minors E cs) \<longleftrightarrow> (\<exists>b \<in> region_keys cs. cell_minor E b = m)"
    unfolding minors_def using keyed(1) by auto
  show ?thesis
  proof
    assume "m \<in> set (minors E cs)"
    then obtain b where b: "b \<in> region_keys cs" "cell_minor E b = m"
      unfolding set by (elim bexE)
    obtain m' where m': "length m' \<le> MaxKeyLength" "b = iam_cell E m'"
      using keyed(2) [OF b(1)] by (elim exE conjE)
    then have "m' = m"
      using b(2) assms(1) by simp
    with m' b(1) show "length m \<le> MaxKeyLength \<and> iam_cell E m \<in> dom cs"
      by (simp add: region_keys_def)
  next
    assume m: "length m \<le> MaxKeyLength \<and> iam_cell E m \<in> dom cs"
    then have "iam_cell E m \<in> region_keys cs"
      by (simp add: region_keys_def iam_cell_prefix)
    with m show "m \<in> set (minors E cs)"
      unfolding set by (intro bexI [of _ "iam_cell E m"]) (simp_all add: assms(1))
  qed
qed

lemma minors_distinct:
  assumes "runtime_ok E" "iam_keyed E cs"
  shows "distinct (minors E cs)"
proof -
  note keyed = iam_keyedD [OF assms(2)]
  have "inj_on (cell_minor E) (region_keys cs)"
  proof (rule inj_onI)
    fix x y
    assume xy: "x \<in> region_keys cs" "y \<in> region_keys cs" "cell_minor E x = cell_minor E y"
    obtain m where m: "length m \<le> MaxKeyLength" "x = iam_cell E m"
      using keyed(2) [OF xy(1)] by (elim exE conjE)
    obtain m' where m': "length m' \<le> MaxKeyLength" "y = iam_cell E m'"
      using keyed(2) [OF xy(2)] by (elim exE conjE)
    show "x = y"
      using xy(3) m m' assms(1) by simp
  qed
  then show ?thesis
    unfolding minors_def distinct_map using keyed(1) by simp
qed

lemma compiled_minors:
  assumes "runtime_ok E" "iam_keyed E cs0" "dom cs \<subseteq> dom cs0"
  shows "compiled E A now cs = foldl (\<lambda>s m. add_part (part_at E A now cs m) s) NewSnapshot (minors E cs0)"
proof -
  let ?D = "region_keys cs0" and ?add = "\<lambda>s m. add_part (part_at E A now cs m) s"
  note keyed = iam_keyedD [OF assms(2)]
  have "{b \<in> dom cs. prefix iam_prefix b} \<subseteq> ?D" "\<forall>b \<in> ?D. prefix iam_prefix b"
    using assms(3) by (auto simp: region_keys_def)
  note pairs = iam_pairs_over [OF keyed(1) this, of E now]
  have step: "(case pair_at E now cs b of None \<Rightarrow> s | Some (m, v) \<Rightarrow> absorb A m v s) = ?add s (cell_minor E b)"
    if "b \<in> set (sorted_list_of_set ?D)" for s b
  proof -
    have "b \<in> ?D"
      using that unfolding set_sorted_list_of_set [OF keyed(1)] .
    from keyed(2) [OF this] obtain m where m: "length m \<le> MaxKeyLength" "b = iam_cell E m"
      by (elim exE conjE)
    show ?thesis
      unfolding m(2) pair_at_cell [OF assms(1) m(1)] cell_minor_cell [OF assms(1) m(1)]
      by (cases "live_value E now cs m") (simp_all add: part_at_def absorb_part)
  qed
  have "compiled E A now cs
      = foldl (\<lambda>s b. case pair_at E now cs b of None \<Rightarrow> s | Some (m, v) \<Rightarrow> absorb A m v s) NewSnapshot (sorted_list_of_set ?D)"
    unfolding compiled_pairs pairs foldl_map_filter by (rule foldl_cong_set) (simp split: option.split)
  also have "\<dots> = foldl (\<lambda>s b. ?add s (cell_minor E b)) NewSnapshot (sorted_list_of_set ?D)"
    by (rule foldl_cong_set) (rule step)
  finally show ?thesis
    by (simp add: minors_def foldl_map_fun)
qed

lemma foldl_rel:
  assumes "R a b" "\<And>x a b. x \<in> set xs \<Longrightarrow> R a b \<Longrightarrow> R (f a x) (g b x)"
  shows "R (foldl f a xs) (foldl g b xs)"
  using assms by (induction xs arbitrary: a b) simp_all

lemma compiled_rel:
  assumes "runtime_ok E" "iam_keyed E cs0" "dom cs \<subseteq> dom cs0" "dom cs' \<subseteq> dom cs0" "R NewSnapshot NewSnapshot"
    and "\<And>m s s'. length m \<le> MaxKeyLength \<Longrightarrow> R s s' \<Longrightarrow>
      R (add_part (part_at E A now cs m) s) (add_part (part_at E A now cs' m) s')"
  shows "R (compiled E A now cs) (compiled E A now cs')"
  unfolding compiled_minors [OF assms(1-3)] compiled_minors [OF assms(1,2,4)]
  by (rule foldl_rel [where R = R]) (use assms(5,6) minors_iff [OF assms(1,2)] in auto)

lemma compiled_inv:
  assumes "runtime_ok E" "iam_keyed E cs" "P NewSnapshot"
    and "\<And>m s. length m \<le> MaxKeyLength \<Longrightarrow> P s \<Longrightarrow> P (add_part (part_at E A now cs m) s)"
  shows "P (compiled E A now cs)"
  using compiled_rel [OF assms(1,2) subset_refl subset_refl, where R = "\<lambda>s _. P s"] assms(3,4) by blast

end
