(* ===== verification/Console_Deletion.thy ===== *)
theory Console_Deletion
  imports Console_Parts
begin

text \<open>
  What a deleted identity leaves behind: no credential that authenticates as it, no membership and no
  binding, now or at any later time; and what it leaves alone, the credentials and the decisions of
  every other principal.
\<close>

section \<open>Records after a purge\<close>

text \<open>What is relied on of the store's clock test: what has expired stays expired.\<close>

definition expiry_stays :: "store_api \<Rightarrow> bool" where
  "expiry_stays S \<longleftrightarrow> (\<forall>now now' e. IsExpired S now e \<longrightarrow> now \<le> now' \<longrightarrow> IsExpired S now' e)"

lemma live_value_earlier:
  assumes "expiry_stays (store E)" "now \<le> now'" "live_value E now' cs m = Some v"
  shows "live_value E now cs m = Some v"
proof -
  obtain c where cell: "cs (iam_cell E m) = Some c"
    using assms(3) by (cases "cs (iam_cell E m)") (simp_all add: live_value_def live_def)
  then have c: "\<not> IsExpired (store E) now' (c_expires c)" "c_value c \<noteq> []" "v = c_value c"
    using assms(3) by (simp_all add: live_value_def live_def split: if_splits)
  then have "\<not> IsExpired (store E) now (c_expires c)"
    using assms(1,2) unfolding expiry_stays_def by blast
  with cell c show ?thesis
    by (simp add: live_value_def live_def)
qed

lemma live_value_fresh:
  assumes "runtime_ok E" "cs (iam_cell E m) = Some (fresh_cell ver x)"
  shows "live_value E now cs m = (if x = [] then None else Some x)"
  using assms by (simp add: live_value_def)

lemma live_value_off_head:
  assumes "runtime_ok E"
  shows "live_value E now (cells E (fsm_Storage t)) m = live_value E now (off_head E t) m"
  using system_not_head [OF assms iam_Key_major(1)] by (simp add: live_value_def off_head_def)

lemma fate_purged:
  assumes "iam_value_ok A" "fate A princ m v0 = Rewrite r" "iam_Encode A r = Inr v"
  shows "fate A princ m v = Keep"
proof -
  have mem: "princ \<notin> set (bi_Members b)" if "b \<in> set (purge_bindings princ bs)" for b bs
    using that by (induction bs) (auto simp: Let_def without_filter split: if_splits)
  note dec = decode_encode_iam(2) [OF assms(1,3)]
  show ?thesis
    using assms(2) dec mem
    by (auto simp: fate_def purge_group_def purge_policy_def without_filter split: if_splits option.splits iam_record.splits)
qed

lemma purged_origin:
  assumes "runtime_ok E" "iam_value_ok A" "expiry_stays (store E)" "purged E A now princ cs cs'" "now \<le> now'"
    and "length m \<le> MaxKeyLength" "live_value E now' cs' m = Some v"
  shows "fate A princ m v = Keep \<and> (live_value E now cs m = Some v
     \<or> (\<exists>v0 r. live_value E now cs m = Some v0 \<and> fate A princ m v0 = Rewrite r \<and> iam_Encode A r = Inr v))"
proof -
  have out: "carried_out E A cs m (case live_value E now cs m of None \<Rightarrow> Keep | Some v \<Rightarrow> fate A princ m v) cs'"
    using assms(4,6) by (simp add: purged_def)
  have early: "live_value E now cs' m = Some v"
    by (rule live_value_earlier [OF assms(3,5,7)])
  show ?thesis
  proof (cases "live_value E now cs m")
    case None
    with out have "live_value E now cs' m = live_value E now cs m"
      by (simp add: carried_out_def live_value_def)
    with None early show ?thesis by simp
  next
    case (Some v0)
    show ?thesis
    proof (cases "fate A princ m v0")
      case Keep
      with out Some have "live_value E now cs' m = live_value E now cs m"
        by (simp add: carried_out_def live_value_def)
      with Keep Some early show ?thesis by simp
    next
      case Drop
      with out Some have "live_value E now cs' m = None"
        by (simp add: carried_out_def live_value_def live_def)
      with early show ?thesis by simp
    next
      case (Rewrite r)
      with out Some obtain raw ver where raw: "iam_Encode A r = Inr raw" "cs' (iam_cell E m) = Some (fresh_cell ver raw)"
        by (auto simp: carried_out_def)
      then have "v = raw"
        using early live_value_fresh [where m = m and cs = cs', OF assms(1) raw(2)] by (simp split: if_splits)
      with raw(1) fate_purged [OF assms(2) Rewrite] Rewrite Some show ?thesis by blast
    qed
  qed
qed

section \<open>The policy no longer names the principal\<close>

definition unnamed :: "string \<Rightarrow> Snapshot \<Rightarrow> bool" where
  "unnamed princ s \<longleftrightarrow> \<not> mget (Admins s) False princ \<and> mget (MemberGroups s) [] princ = []
     \<and> (\<forall>sc. \<forall>b \<in> set (mget (Policies s) [] sc). princ \<notin> set (bi_Members b))"

lemma unnamed_denied: "unnamed princ s \<Longrightarrow> \<not> allowed s princ perm tenant region"
  by (auto simp: unnamed_def allowed_def granted_def speaks_for_def)

fun names :: "string \<Rightarrow> part \<Rightarrow> bool" where
  "names princ (PUser u) \<longleftrightarrow> PrincipalUser (us_Name u) = princ"
| "names princ (PGroup g) \<longleftrightarrow> princ \<in> set (gr_Members g)"
| "names princ (PPolicy sc bs) \<longleftrightarrow> (\<exists>b \<in> set bs. princ \<in> set (bi_Members b))"
| "names princ _ \<longleftrightarrow> False"

lemma add_part_unnamed:
  assumes "unnamed princ s" "\<not> names princ p"
  shows "unnamed princ (add_part p s)"
proof (cases p)
  case (PGroup g)
  with assms show ?thesis
    by (simp add: unnamed_def add_member_fold count_list_0_iff)
qed (use assms in \<open>auto simp: unnamed_def\<close>)

text \<open>A record the purge keeps names the principal only if it is the user record itself.\<close>

lemma Keep_names:
  assumes "fate A princ m v = Keep" "names princ (part A m v)"
  shows "\<exists>u. prefix UserPrefix m \<and> decoded A v KUser = Some (IUser u) \<and> PrincipalUser (us_Name u) = princ"
proof -
  consider (user) "prefix UserPrefix m" | (account) "prefix ServiceAccountPrefix m" "\<not> prefix UserPrefix m"
    | (group) "prefix GroupPrefix m" | (role) "prefix RolePrefix m" "\<not> prefix UserPrefix m" "\<not> prefix ServiceAccountPrefix m"
        "\<not> prefix GroupPrefix m"
    | (policy) sc where "PolicyScopeKey m = Some sc"
    | (other) "\<not> prefix UserPrefix m" "\<not> prefix ServiceAccountPrefix m" "\<not> prefix GroupPrefix m" "\<not> prefix RolePrefix m"
        "PolicyScopeKey m = None"
    by (cases "PolicyScopeKey m") blast+
  then show ?thesis
  proof cases
    case group
    with assms group_kinds [OF group] show ?thesis
      by (auto simp: fate_def part_def split: option.splits iam_record.splits if_splits)
  next
    case (policy sc)
    with assms policy_kinds [OF policy] show ?thesis
      by (auto simp: fate_def part_def split: option.splits iam_record.splits if_splits)
  qed (use assms(2) in \<open>auto simp: part_def split: option.splits iam_record.splits\<close>)
qed

lemma Rewrite_kinds:
  assumes "fate A princ m v = Rewrite r"
  shows "\<not> prefix UserPrefix m" "\<not> prefix ServiceAccountPrefix m" "\<not> prefix TokenIndexPrefix m" "\<not> prefix CertPrefix m"
proof -
  have "prefix GroupPrefix m \<or> (\<exists>sc. PolicyScopeKey m = Some sc)"
    using assms by (auto simp: fate_def split: if_splits option.splits iam_record.splits)
  then show "\<not> prefix UserPrefix m" "\<not> prefix ServiceAccountPrefix m" "\<not> prefix TokenIndexPrefix m" "\<not> prefix CertPrefix m"
    using group_kinds policy_kinds by blast+
qed

lemma iam_keyed_subset: "iam_keyed E cs \<Longrightarrow> dom cs' \<subseteq> dom cs \<Longrightarrow> iam_keyed E cs'"
  unfolding iam_keyed_def using finite_subset by blast

text \<open>No user record carries the principal's name.\<close>

definition no_user :: "'db runtime \<Rightarrow> 'w iam_value_api \<Rightarrow> time \<Rightarrow> cell_map \<Rightarrow> string \<Rightarrow> bool" where
  "no_user E A now cs princ \<longleftrightarrow> (\<forall>m v u. length m \<le> MaxKeyLength \<longrightarrow> live_value E now cs m = Some v \<longrightarrow> prefix UserPrefix m
     \<longrightarrow> decoded A v KUser = Some (IUser u) \<longrightarrow> PrincipalUser (us_Name u) \<noteq> princ)"

lemma purged_unnamed:
  assumes "runtime_ok E" "iam_value_ok A" "expiry_stays (store E)" "purged E A now princ cs cs'" "now \<le> now'"
    and "iam_keyed E cs" "no_user E A now cs princ"
  shows "unnamed princ (compiled E A now' cs')"
proof (rule compiled_inv [OF assms(1)])
  show "iam_keyed E cs'"
    using assms(4,6) iam_keyed_subset unfolding purged_def by blast
  show "unnamed princ NewSnapshot"
    by (simp add: unnamed_def NewSnapshot_def)
  fix m :: string and s
  assume m: "length m \<le> MaxKeyLength" and s: "unnamed princ s"
  have "\<not> names princ (part_at E A now' cs' m)"
  proof (cases "live_value E now' cs' m")
    case (Some v)
    note or = purged_origin [OF assms(1-5) m Some]
    show ?thesis
    proof
      assume "names princ (part_at E A now' cs' m)"
      then obtain u where u: "prefix UserPrefix m" "decoded A v KUser = Some (IUser u)" "PrincipalUser (us_Name u) = princ"
        using Keep_names [OF conjunct1 [OF or]] Some by (auto simp: part_at_def)
      then have "live_value E now cs m = Some v"
        using or Rewrite_kinds(1) by blast
      then show False
        using assms(7) m u unfolding no_user_def by blast
    qed
  qed (simp add: part_at_def)
  then show "unnamed princ (add_part (part_at E A now' cs' m) s)"
    by (rule add_part_unnamed [OF s])
qed

section \<open>No credential is left\<close>

lemma purged_no_token:
  assumes "runtime_ok E" "iam_value_ok A" "expiry_stays (store E)" "purged E A now princ cs cs'" "now \<le> now'"
    and "length m \<le> MaxKeyLength" "prefix TokenIndexPrefix m" "live_value E now' cs' m = Some v"
    and "decoded A v KToken = Some (IToken r)"
  shows "tk_Principal r \<noteq> princ"
  using purged_origin [OF assms(1-6,8)] assms(7,9) by (auto simp: fate_def split: if_splits)

lemma purged_no_cert:
  assumes "runtime_ok E" "iam_value_ok A" "expiry_stays (store E)" "purged E A now princ cs cs'" "now \<le> now'"
    and "length m \<le> MaxKeyLength" "prefix CertPrefix m" "live_value E now' cs' m = Some v"
    and "decoded A v KCertIndex = Some (ICertIndex r)"
  shows "ci_Principal r \<noteq> princ"
  using purged_origin [OF assms(1-6,8)] cert_kinds [OF assms(7)] assms(7,9) by (auto simp: fate_def split: if_splits)

lemma load_off_head:
  assumes "runtime_ok E" "badger_up (badger E)"
  shows "load E A now (fsm_Storage t) m kind
    = (case live_value E now (off_head E t) (take MaxKeyLength m) of None \<Rightarrow> None | Some v \<Rightarrow> decoded A v kind)"
  by (simp add: load_live [OF assms] live_value_off_head [OF assms(1)] live_value_cut)

lemma registered_source:
  "first_registered E A now s ids = Some p \<Longrightarrow> \<exists>i c. load E A now s (CertPrefix @ i) KCertIndex = Some (ICertIndex c) \<and> ci_Principal c = p"
  by (induction ids) (auto split: option.splits iam_record.splits if_splits)

lemma take_prefix: "length p \<le> n \<Longrightarrow> prefix p (take n (p @ x))"
  by (simp add: take_append)

lemma purged_authenticates_none:
  assumes "runtime_ok E" "badger_up (badger E)" "iam_value_ok A" "expiry_stays (store E)"
    and "purged E A now princ cs (off_head E t)" "now \<le> now'"
    and "\<And>name. princ = PrincipalUser name \<Longrightarrow> off_head E t (iam_cell E (UserPrefix @ name)) = None"
  shows "Authenticate E A G now' (fsm_Storage t) certs cred \<noteq> Inr princ"
proof
  let ?s = "fsm_Storage t"
  note rok = assms(1,3-6)
  have lens: "length TokenIndexPrefix \<le> MaxKeyLength" "length CertPrefix \<le> MaxKeyLength"
    by (simp_all add: layout_defs MaxKeyLength_def)
  have tok: "tk_Principal r \<noteq> princ" if l: "load E A now' ?s (TokenIndexPrefix @ h) KToken = Some (IToken r)" for h r
  proof -
    obtain v where "live_value E now' (off_head E t) (take MaxKeyLength (TokenIndexPrefix @ h)) = Some v"
      "decoded A v KToken = Some (IToken r)"
      using l unfolding load_off_head [OF assms(1,2)] by (auto split: option.splits)
    then show ?thesis
      by (rule purged_no_token [OF rok _ take_prefix [OF lens(1)], rotated 1]) simp
  qed
  have cert: "ci_Principal r \<noteq> princ" if l: "load E A now' ?s (CertPrefix @ i) KCertIndex = Some (ICertIndex r)" for i r
  proof -
    obtain v where "live_value E now' (off_head E t) (take MaxKeyLength (CertPrefix @ i)) = Some v"
      "decoded A v KCertIndex = Some (ICertIndex r)"
      using l unfolding load_off_head [OF assms(1,2)] by (auto split: option.splits)
    then show ?thesis
      by (rule purged_no_cert [OF rok _ take_prefix [OF lens(2)], rotated 1]) simp
  qed
  have pass: "load E A now' ?s (UserPrefix @ name) KUser = None" if "princ = PrincipalUser name" for name
    using assms(7) [OF that] unfolding load_live [OF assms(1,2)] live_value_off_head [OF assms(1)]
    by (simp add: live_value_def live_def)
  assume auth: "Authenticate E A G now' ?s certs cred = Inr princ"
  show False
  proof (cases cred)
    case None
    then have "certificatePrincipal E A now' ?s certs = Some princ"
      using auth by (auto simp: Authenticate_def split: option.splits)
    then obtain ids where "first_registered E A now' ?s ids = Some princ"
      by (auto simp: certificatePrincipal_def split: option.splits list.splits)
    then show False
      using registered_source cert by blast
  next
    case (Some m)
    show False
    proof (cases "m ''method'' = ''password''")
      case True
      then have "AuthenticatePassword E A G now' ?s (m ''user'') (m ''pass'') = Inr princ"
        using auth Some by (simp add: Authenticate_def passwordPrincipal_def)
      then show False
        using pass [of "m ''user''"]
        by (auto simp: AuthenticatePassword_def bindE_def split: option.splits iam_record.splits sum.splits if_splits)
    next
      case False
      then have "AuthenticateToken E A now' ?s (m ''token'') = Inr princ"
        using auth Some by (auto simp: Authenticate_def tokenPrincipal_def split: if_splits)
      then show False
        using tok [of "HashToken (m ''token'')"]
        by (auto simp: AuthenticateToken_def TokenIndexKey_def split: option.splits iam_record.splits if_splits)
    qed
  qed
qed

section \<open>The two deletions\<close>

text \<open>Every user record is stored under its own name.\<close>

definition users_named :: "'db runtime \<Rightarrow> 'w iam_value_api \<Rightarrow> time \<Rightarrow> cell_map \<Rightarrow> bool" where
  "users_named E A now cs \<longleftrightarrow> (\<forall>m v u. length m \<le> MaxKeyLength \<longrightarrow> live_value E now cs m = Some v \<longrightarrow> prefix UserPrefix m
     \<longrightarrow> decoded A v KUser = Some (IUser u) \<longrightarrow> m = UserPrefix @ us_Name u)"

text \<open>A deletion removes the identity's record and purges the principal.\<close>

definition identity_minor :: "string \<Rightarrow> string \<Rightarrow> bool" where
  "identity_minor princ m \<longleftrightarrow> (\<exists>name. princ = PrincipalUser name \<and> m = UserPrefix @ name
     \<or> princ = PrincipalServiceAccount name \<and> m = ServiceAccountPrefix @ name)"

definition deletes :: "('db, 'v, 'w, 'k, 'p) ConsoleHandler \<Rightarrow> string \<Rightarrow> 'db con \<Rightarrow> 'db con \<Rightarrow> bool" where
  "deletes H princ st st' \<longleftrightarrow> (\<exists>name body.
     princ = PrincipalUser name \<and> iamDeleteUser H name st = ((StatusOK, body), st')
     \<or> princ = PrincipalServiceAccount name \<and> iamDeleteServiceAccount H name st = ((StatusOK, body), st'))"

lemma deletes_effect:
  assumes "handler_ok H" "con_ok H st" "iam_keyed (co_rt H) (con_cells H st)" "deletes H princ st st'"
  obtains m where "identity_minor princ m" "con_ok H st'"
    "iam_keyed (co_rt H) ((con_cells H st)(iam_cell (co_rt H) m := None))"
    "purged (co_rt H) (co_iam H) (unixNow H) princ ((con_cells H st)(iam_cell (co_rt H) m := None)) (con_cells H st')"
proof -
  obtain m s st1 where m: "identity_minor princ m" "svc_Remove H st (iam_Key m) = (Inr s, st1)"
    "purgePrincipal H princ st1 = (None, st')"
    using assms(4) unfolding deletes_def identity_minor_def iamDeleteUser_def iamDeleteServiceAccount_def
    by (fastforce simp: status_codes split: if_splits prod.splits sum.splits option.splits)
  note e1 = svc_Remove_removed [OF assms(1,2) iam_Key_major(1) m(2)]
  have keyed: "iam_keyed (co_rt H) ((con_cells H st)(iam_cell (co_rt H) m := None))"
    by (rule iam_keyed_subset [OF assms(3)]) auto
  show thesis
    using that [OF m(1)] purge_effect [OF assms(1) e1(1) _ m(3)] keyed unfolding e1(2) by blast
qed

lemma deleted_no_user:
  assumes "users_named E A now cs" "identity_minor princ m"
  shows "no_user E A now (cs(iam_cell E m := None)) princ"
  unfolding no_user_def
proof (intro allI impI notI)
  fix m' v u
  assume m': "length m' \<le> MaxKeyLength" "live_value E now (cs(iam_cell E m := None)) m' = Some v" "prefix UserPrefix m'"
    and u: "decoded A v KUser = Some (IUser u)" "PrincipalUser (us_Name u) = princ"
  have cell: "iam_cell E m' \<noteq> iam_cell E m"
    using m'(2) by (auto simp: live_value_def live_def)
  then have "live_value E now cs m' = Some v"
    using m'(2) by (simp add: live_value_def)
  with assms(1) m' u(1) have "m' = UserPrefix @ us_Name u"
    unfolding users_named_def by blast
  with u(2) assms(2) have "m = m'"
    by (auto simp: identity_minor_def)
  with cell show False by simp
qed

section \<open>Everyone else\<close>

text \<open>Snapshots that decide alike for \<open>q\<close>: they differ in what they say of \<open>princ\<close> only.\<close>

definition grants :: "string \<Rightarrow> Binding list \<Rightarrow> (string \<times> string) set" where
  "grants princ bs = {(bi_Role b, x) | b x. b \<in> set bs \<and> x \<in> set (bi_Members b) \<and> x \<noteq> princ}"

definition agree_for :: "string \<Rightarrow> string \<Rightarrow> Snapshot \<Rightarrow> Snapshot \<Rightarrow> bool" where
  "agree_for princ q s s' \<longleftrightarrow> mget (Admins s) False q = mget (Admins s') False q
     \<and> mget (Disabled s) False q = mget (Disabled s') False q
     \<and> mget (MemberGroups s) [] q = mget (MemberGroups s') [] q \<and> princ \<notin> set (mget (MemberGroups s') [] q)
     \<and> Roles s = Roles s' \<and> (\<forall>sc. grants princ (mget (Policies s) [] sc) = grants princ (mget (Policies s') [] sc))"

lemma granted_grants:
  assumes "princ \<notin> speaks_for s q"
  shows "granted s q perm sc \<longleftrightarrow> (\<exists>(role, x) \<in> grants princ (mget (Policies s) [] sc).
     x \<in> speaks_for s q \<and> perm \<in> set (mget (Roles s) [] role))"
proof -
  have "x \<noteq> princ" if "x \<in> speaks_for s q" for x
    using that assms by blast
  then show ?thesis
    unfolding granted_def grants_def by blast
qed

lemma agree_for_allowed:
  assumes "agree_for princ q s s'" "q \<noteq> princ"
  shows "allowed s' q perm tenant region = allowed s q perm tenant region"
proof -
  have sp: "speaks_for s' q = speaks_for s q" "princ \<notin> speaks_for s q"
    using assms by (auto simp: agree_for_def speaks_for_def)
  have "granted s' q perm sc = granted s q perm sc" for sc
    using assms(1) granted_grants [of princ s q perm sc] granted_grants [of princ s' q perm sc] sp by (simp add: agree_for_def)
  then show ?thesis
    using assms(1) by (simp add: allowed_def agree_for_def)
qed

lemma grants_purged: "grants princ (purge_bindings princ bs) = grants princ bs"
proof (induction bs)
  case (Cons b bs)
  have cons: "grants princ (b # bs) = {(bi_Role b, x) | x. x \<in> set (bi_Members b) \<and> x \<noteq> princ} \<union> grants princ bs" for b :: Binding and bs
    unfolding grants_def by auto
  show ?case
    using Cons by (auto simp: Let_def cons without_filter filter_empty_conv)
qed simp

text \<open>What becomes of a part under a deletion.\<close>

fun own_part :: "string \<Rightarrow> part \<Rightarrow> bool" where
  "own_part princ (PUser u) \<longleftrightarrow> PrincipalUser (us_Name u) = princ"
| "own_part princ (PAccount sa) \<longleftrightarrow> PrincipalServiceAccount (sa_Name sa) = princ"
| "own_part princ PNone \<longleftrightarrow> True"
| "own_part princ _ \<longleftrightarrow> False"

inductive spared :: "string \<Rightarrow> part \<Rightarrow> part \<Rightarrow> bool" for princ where
  same: "spared princ p p"
| own: "own_part princ p \<Longrightarrow> spared princ p PNone"
| group: "spared princ (PGroup g) (PGroup (g\<lparr>gr_Members := without (gr_Members g) princ\<rparr>))"
| policy: "spared princ (PPolicy sc bs) (PPolicy sc (purge_bindings princ bs))"

lemma count_without: "q \<noteq> princ \<Longrightarrow> count_list (without ms princ) q = count_list ms q"
  by (induction ms) auto

lemma add_part_same:
  assumes "agree_for princ q s s'" "\<And>g. princ \<noteq> PrincipalGroup g"
  shows "agree_for princ q (add_part p s) (add_part p s')"
proof (cases p)
  case (PGroup g)
  with assms show ?thesis
    by (auto simp: agree_for_def add_member_fold)
qed (use assms in \<open>auto simp: agree_for_def\<close>)

lemma add_part_spared:
  assumes "spared princ p p'" "agree_for princ q s s'" "q \<noteq> princ" "\<And>g. princ \<noteq> PrincipalGroup g"
  shows "agree_for princ q (add_part p s) (add_part p' s')"
  using assms(1)
proof cases
  case same
  with add_part_same [OF assms(2,4)] show ?thesis by simp
next
  case own
  then have "mget (Admins (add_part p s)) False q = mget (Admins s) False q" "mget (Disabled (add_part p s)) False q = mget (Disabled s) False q"
    "MemberGroups (add_part p s) = MemberGroups s" "Roles (add_part p s) = Roles s" "Policies (add_part p s) = Policies s"
    using assms(3) by (cases p; simp)+
  with own assms(2) show ?thesis
    by (simp add: agree_for_def)
next
  case (group g)
  then show ?thesis
    using assms(2,3) assms(4) [of "gr_Name g"] by (simp add: agree_for_def add_member_fold count_without)
next
  case (policy sc bs)
  then show ?thesis
    using assms(2) by (simp add: agree_for_def grants_purged)
qed

lemma Drop_part:
  assumes "fate A princ m v = Drop"
  shows "part A m x = PNone"
proof -
  have "prefix TokenIndexPrefix m \<or> prefix CertPrefix m"
    using assms by (auto simp: fate_def split: if_splits option.splits iam_record.splits)
  then show ?thesis
    using token_kinds cert_kinds by (auto simp: part_def)
qed

lemma Rewrite_part:
  assumes "iam_value_ok A" "fate A princ m v = Rewrite r" "iam_Encode A r = Inr v'"
  shows "spared princ (part A m v) (part A m v')"
proof -
  note dec = decode_encode_iam(2) [OF assms(1,3)]
  consider g where "prefix GroupPrefix m" "decoded A v KGroup = Some (IGroup g)" "r = purge_group princ g"
    | q sc where "PolicyScopeKey m = Some sc" "decoded A v KPolicy = Some (IPolicy q)" "r = purge_policy princ q"
    using assms(2) by (auto simp: fate_def split: if_splits option.splits iam_record.splits)
  then show ?thesis
  proof cases
    case (1 g)
    with group_kinds [OF 1(1)] dec show ?thesis
      by (simp add: part_def purge_group_def spared.group)
  next
    case (2 q sc)
    with policy_kinds [OF 2(1)] dec show ?thesis
      by (simp add: part_def purge_policy_def spared.policy)
  qed
qed

lemma purged_spared:
  assumes "runtime_ok E" "iam_value_ok A" "purged E A now princ cs cs'" "length m \<le> MaxKeyLength"
  shows "spared princ (part_at E A now cs m) (part_at E A now cs' m)"
proof -
  have out: "carried_out E A cs m (case live_value E now cs m of None \<Rightarrow> Keep | Some v \<Rightarrow> fate A princ m v) cs'"
    using assms(3,4) by (simp add: purged_def)
  have keep: "live_value E now cs' m = live_value E now cs m" if "cs' (iam_cell E m) = cs (iam_cell E m)"
    using that by (simp add: live_value_def)
  show ?thesis
  proof (cases "live_value E now cs m")
    case None
    with out keep show ?thesis
      by (simp add: carried_out_def part_at_def spared.same)
  next
    case (Some v)
    show ?thesis
    proof (cases "fate A princ m v")
      case Keep
      with out keep Some show ?thesis
        by (simp add: carried_out_def part_at_def spared.same)
    next
      case Drop
      with Some have "part_at E A now cs m = PNone"
        by (simp add: part_at_def Drop_part)
      moreover have "part_at E A now cs' m = PNone"
        using Drop by (simp add: part_at_def Drop_part split: option.split)
      ultimately show ?thesis
        by (simp add: spared.same)
    next
      case (Rewrite r)
      with out Some obtain raw ver where raw: "iam_Encode A r = Inr raw" "cs' (iam_cell E m) = Some (fresh_cell ver raw)"
        by (auto simp: carried_out_def)
      then have "live_value E now cs' m = Some raw"
        using live_value_fresh [where m = m and cs = cs', OF assms(1) raw(2)] decode_encode_iam(3) [OF assms(2) raw(1)] by simp
      then show ?thesis
        using Rewrite_part [OF assms(2) Rewrite raw(1)] Some by (simp add: part_at_def)
    qed
  qed
qed

text \<open>Service accounts are stored under their own names too.\<close>

definition accounts_named :: "'db runtime \<Rightarrow> 'w iam_value_api \<Rightarrow> time \<Rightarrow> cell_map \<Rightarrow> bool" where
  "accounts_named E A now cs \<longleftrightarrow> (\<forall>m v sa. length m \<le> MaxKeyLength \<longrightarrow> live_value E now cs m = Some v
     \<longrightarrow> prefix ServiceAccountPrefix m \<longrightarrow> decoded A v KServiceAccount = Some (IServiceAccount sa)
     \<longrightarrow> m = ServiceAccountPrefix @ sa_Name sa)"

lemma identity_part:
  assumes "users_named E A now cs" "accounts_named E A now cs" "identity_minor princ m" "length m \<le> MaxKeyLength"
  shows "own_part princ (part_at E A now cs m)"
proof (cases "live_value E now cs m")
  case (Some v)
  from assms(3) consider name where "princ = PrincipalUser name" "m = UserPrefix @ name"
    | name where "princ = PrincipalServiceAccount name" "m = ServiceAccountPrefix @ name"
    unfolding identity_minor_def by blast
  then show ?thesis
  proof cases
    case (1 name)
    then have "prefix UserPrefix m" by simp
    then have "us_Name u = name" if "decoded A v KUser = Some (IUser u)" for u
      using assms(1,4) Some that 1(2) unfolding users_named_def by blast
    with \<open>prefix UserPrefix m\<close> 1 Some show ?thesis
      by (simp add: part_at_def part_def split: option.split iam_record.split)
  next
    case (2 name)
    then have "prefix ServiceAccountPrefix m" by simp
    then have "sa_Name sa = name" if "decoded A v KServiceAccount = Some (IServiceAccount sa)" for sa
      using assms(2,4) Some that 2(2) unfolding accounts_named_def by blast
    with account_kinds [OF \<open>prefix ServiceAccountPrefix m\<close>] \<open>prefix ServiceAccountPrefix m\<close> 2 Some show ?thesis
      by (simp add: part_at_def part_def split: option.split iam_record.split)
  qed
qed (simp add: part_at_def)

lemma deletion_agrees:
  assumes "runtime_ok E" "iam_value_ok A" "iam_keyed E cs" "users_named E A now cs" "accounts_named E A now cs"
    and "identity_minor princ m0" "length m0 \<le> MaxKeyLength" "purged E A now princ (cs(iam_cell E m0 := None)) cs'" "q \<noteq> princ"
  shows "agree_for princ q (compiled E A now cs) (compiled E A now cs')"
proof (rule compiled_rel [OF assms(1,3) subset_refl])
  show "dom cs' \<subseteq> dom cs"
    using assms(8) unfolding purged_def by auto
  show "agree_for princ q NewSnapshot NewSnapshot"
    by (simp add: agree_for_def NewSnapshot_def)
  fix m :: string and s s'
  assume m: "length m \<le> MaxKeyLength" and s: "agree_for princ q s s'"
  have sp: "spared princ (part_at E A now (cs(iam_cell E m0 := None)) m) (part_at E A now cs' m)"
    by (rule purged_spared [OF assms(1,2,8) m])
  have "spared princ (part_at E A now cs m) (part_at E A now cs' m)"
  proof (cases "m = m0")
    case True
    then have "part_at E A now (cs(iam_cell E m0 := None)) m = PNone"
      by (simp add: part_at_def live_value_def live_def)
    with sp have "part_at E A now cs' m = PNone"
      by (auto elim: spared.cases)
    with identity_part [OF assms(4-7)] True show ?thesis
      by (simp add: spared.own)
  next
    case False
    then have "iam_cell E m \<noteq> iam_cell E m0"
      using iam_cell_inject [OF assms(1) m assms(7)] by blast
    then have "part_at E A now (cs(iam_cell E m0 := None)) m = part_at E A now cs m"
      by (simp add: part_at_def live_value_def)
    with sp show ?thesis by simp
  qed
  moreover have "princ \<noteq> PrincipalGroup g" for g
    using assms(6) by (auto simp: identity_minor_def)
  ultimately show "agree_for princ q (add_part (part_at E A now cs m) s) (add_part (part_at E A now cs' m) s')"
    by (intro add_part_spared [OF _ s assms(9)])
qed

subsection \<open>Their credentials\<close>

lemma load_kept:
  assumes "runtime_ok E" "badger_up (badger E)" "purged E A now princ ((off_head E t)(iam_cell E m0 := None)) (off_head E t')"
    and "length m0 < MaxKeyLength" "m \<noteq> m0"
    and "\<And>v. live_value E now (off_head E t) (take MaxKeyLength m) = Some v \<Longrightarrow> fate A princ (take MaxKeyLength m) v = Keep"
  shows "load E A now (fsm_Storage t') m kind = load E A now (fsm_Storage t) m kind"
proof -
  let ?m = "take MaxKeyLength m"
  have "iam_cell E ?m \<noteq> iam_cell E m0"
  proof
    assume "iam_cell E ?m = iam_cell E m0"
    then have "?m = m0"
      using iam_cell_inject [OF assms(1), of ?m m0] assms(4) by simp
    with assms(4,5) show False
      by (auto simp: min_def split: if_splits)
  qed
  then have cell: "((off_head E t)(iam_cell E m0 := None)) (iam_cell E ?m) = off_head E t (iam_cell E ?m)"
    by simp
  then have lv: "live_value E now ((off_head E t)(iam_cell E m0 := None)) ?m = live_value E now (off_head E t) ?m"
    by (simp add: live_value_def)
  have "carried_out E A ((off_head E t)(iam_cell E m0 := None)) ?m
      (case live_value E now (off_head E t) ?m of None \<Rightarrow> Keep | Some v \<Rightarrow> fate A princ ?m v) (off_head E t')"
    using assms(3) unfolding purged_def lv [symmetric] by simp
  then have "off_head E t' (iam_cell E ?m) = off_head E t (iam_cell E ?m)"
    using assms(6) cell by (cases "live_value E now (off_head E t) ?m") (simp_all add: carried_out_def)
  then show ?thesis
    unfolding load_off_head [OF assms(1,2)] by (simp add: live_value_def)
qed

lemma cut_prefix: "p \<in> {UserPrefix, TokenIndexPrefix, CertPrefix} \<Longrightarrow> prefix p (take MaxKeyLength (p @ x))"
  by (intro take_prefix) (auto simp: layout_defs MaxKeyLength_def)

lemma identity_not_index:
  assumes "identity_minor princ m"
  shows "TokenIndexPrefix @ x \<noteq> m" "CertPrefix @ x \<noteq> m"
  using assms by (auto simp: identity_minor_def layout_defs)

lemma user_kept:
  assumes "runtime_ok E" "badger_up (badger E)" "purged E A now princ ((off_head E t)(iam_cell E m0 := None)) (off_head E t')"
    and "identity_minor princ m0" "length m0 < MaxKeyLength" "princ \<noteq> PrincipalUser name"
  shows "load E A now (fsm_Storage t') (UserPrefix @ name) k = load E A now (fsm_Storage t) (UserPrefix @ name) k"
proof (rule load_kept [OF assms(1-3,5)])
  show "UserPrefix @ name \<noteq> m0"
    using assms(4,6) by (auto simp: identity_minor_def layout_defs)
  show "fate A princ (take MaxKeyLength (UserPrefix @ name)) v = Keep" for v
    using user_kinds [OF cut_prefix [of UserPrefix name]] by (simp add: fate_def)
qed

lemma token_kept:
  assumes "runtime_ok E" "badger_up (badger E)" "purged E A now princ ((off_head E t)(iam_cell E m0 := None)) (off_head E t')"
    and "identity_minor princ m0" "length m0 < MaxKeyLength"
    and "load E A now (fsm_Storage t) (TokenIndexPrefix @ h) KToken = Some (IToken r)" "tk_Principal r \<noteq> princ"
  shows "load E A now (fsm_Storage t') (TokenIndexPrefix @ h) KToken = Some (IToken r)"
proof -
  have "load E A now (fsm_Storage t') (TokenIndexPrefix @ h) KToken = load E A now (fsm_Storage t) (TokenIndexPrefix @ h) KToken"
  proof (rule load_kept [OF assms(1-3,5) identity_not_index(1) [OF assms(4)]])
    show "fate A princ (take MaxKeyLength (TokenIndexPrefix @ h)) v = Keep"
      if "live_value E now (off_head E t) (take MaxKeyLength (TokenIndexPrefix @ h)) = Some v" for v
      using cut_prefix [of TokenIndexPrefix h] that assms(6,7)
      unfolding load_off_head [OF assms(1,2)] by (simp add: fate_def)
  qed
  with assms(6) show ?thesis by simp
qed

lemma cert_kept:
  assumes "runtime_ok E" "badger_up (badger E)" "purged E A now princ ((off_head E t)(iam_cell E m0 := None)) (off_head E t')"
    and "identity_minor princ m0" "length m0 < MaxKeyLength"
    and "\<And>c. load E A now (fsm_Storage t) (CertPrefix @ i) KCertIndex = Some (ICertIndex c) \<Longrightarrow> ci_Principal c \<noteq> princ"
  shows "load E A now (fsm_Storage t') (CertPrefix @ i) KCertIndex = load E A now (fsm_Storage t) (CertPrefix @ i) KCertIndex"
proof (rule load_kept [OF assms(1-3,5) identity_not_index(2) [OF assms(4)]])
  show "fate A princ (take MaxKeyLength (CertPrefix @ i)) v = Keep"
    if "live_value E now (off_head E t) (take MaxKeyLength (CertPrefix @ i)) = Some v" for v
    using cut_prefix [of CertPrefix i] cert_kinds [OF cut_prefix [of CertPrefix i]] that assms(6)
    unfolding load_off_head [OF assms(1,2)] by (auto simp: fate_def split: option.split iam_record.split)
qed

lemma registered_kept:
  assumes "runtime_ok E" "badger_up (badger E)" "purged E A now princ ((off_head E t)(iam_cell E m0 := None)) (off_head E t')"
    and "identity_minor princ m0" "length m0 < MaxKeyLength" "q \<noteq> princ"
    and "first_registered E A now (fsm_Storage t) ids = Some q"
  shows "first_registered E A now (fsm_Storage t') ids = Some q"
  using assms(7)
proof (induction ids)
  case (Cons i ids)
  have "load E A now (fsm_Storage t') (CertPrefix @ i) KCertIndex = load E A now (fsm_Storage t) (CertPrefix @ i) KCertIndex"
  proof (rule cert_kept [OF assms(1-5)])
    show "ci_Principal c \<noteq> princ" if "load E A now (fsm_Storage t) (CertPrefix @ i) KCertIndex = Some (ICertIndex c)" for c
      using Cons.prems that assms(4,6)
      by (auto simp: identity_minor_def PrincipalUser_def PrincipalServiceAccount_def split: if_splits)
  qed
  with Cons show ?case
    by (auto split: option.splits iam_record.splits)
qed simp

lemma deletion_authenticates:
  assumes "runtime_ok E" "badger_up (badger E)" "purged E A now princ ((off_head E t)(iam_cell E m0 := None)) (off_head E t')"
    and "identity_minor princ m0" "length m0 < MaxKeyLength" "q \<noteq> princ"
    and "Authenticate E A G now (fsm_Storage t) certs cred = Inr q"
  shows "Authenticate E A G now (fsm_Storage t') certs cred = Inr q"
proof (cases cred)
  case None
  then have "certificatePrincipal E A now (fsm_Storage t) certs = Some q"
    using assms(7) by (auto simp: Authenticate_def split: option.splits)
  then have "certificatePrincipal E A now (fsm_Storage t') certs = Some q"
    using registered_kept [OF assms(1-6)] by (auto simp: certificatePrincipal_def split: option.splits list.splits)
  with None show ?thesis
    by (simp add: Authenticate_def)
next
  case (Some m)
  show ?thesis
  proof (cases "m ''method'' = ''password''")
    case True
    then have auth: "AuthenticatePassword E A G now (fsm_Storage t) (m ''user'') (m ''pass'') = Inr q"
      using assms(7) Some by (simp add: Authenticate_def passwordPrincipal_def)
    then have "q = PrincipalUser (m ''user'')"
      by (auto simp: AuthenticatePassword_def bindE_def split: option.splits iam_record.splits sum.splits if_splits)
    then have "AuthenticatePassword E A G now (fsm_Storage t') (m ''user'') (m ''pass'') = Inr q"
      using user_kept [OF assms(1-5), of "m ''user''"] assms(6) auth by (simp add: AuthenticatePassword_def)
    with True Some show ?thesis
      by (simp add: Authenticate_def passwordPrincipal_def)
  next
    case False
    then have m: "m ''method'' = ''token''" "AuthenticateToken E A now (fsm_Storage t) (m ''token'') = Inr q"
      using assms(7) Some by (auto simp: Authenticate_def tokenPrincipal_def split: if_splits)
    then obtain r where "load E A now (fsm_Storage t) (TokenIndexKey (HashToken (m ''token''))) KToken = Some (IToken r)"
      "tk_Principal r = q"
      by (auto simp: AuthenticateToken_def split: option.splits iam_record.splits if_splits)
    then have "AuthenticateToken E A now (fsm_Storage t') (m ''token'') = Inr q"
      using token_kept [OF assms(1-5)] assms(6) m(2) by (simp add: AuthenticateToken_def TokenIndexKey_def)
    with m(1) Some show ?thesis
      by (simp add: Authenticate_def tokenPrincipal_def)
  qed
qed

end
