(* ===== verification/Console_Grants.thy ===== *)
theory Console_Grants
  imports Console_Deletion
begin

text \<open>
  Role bindings and the first-run setup: what \<open>applyBinding\<close> does to the members of a role, what storing a
  policy record does to the compiled policy, and the administrator that \<open>setupBootstrap\<close> creates.
\<close>

section \<open>Members of a role\<close>

definition members_of :: "Binding list \<Rightarrow> string \<Rightarrow> string set" where
  "members_of bs role = (\<Union>b \<in> {b \<in> set bs. bi_Role b = role}. set (bi_Members b))"

lemma members_of_simps [simp]:
  "members_of [] role = {}"
  "members_of (b # bs) role = (if bi_Role b = role then set (bi_Members b) \<union> members_of bs role else members_of bs role)"
  "members_of (xs @ ys) role = members_of xs role \<union> members_of ys role"
  by (auto simp: members_of_def)

lemma insert_fold: "set (foldl (\<lambda>s m. if m \<in> set s then s else s @ [m]) s ms) = set s \<union> set ms"
  by (induction ms arbitrary: s) auto

lemma delete_fold: "set (foldl (\<lambda>s m. filter (\<lambda>x. x \<noteq> m) s) s ms) = set s - set ms"
  by (induction ms arbitrary: s) auto

lemma merge_members_set:
  "set (merge_members old members grant) = (if grant then set old \<union> set members else set old - set members)"
  by (simp add: merge_members_def insert_fold delete_fold)

lemma dedup_set: "set (dedup ms) = set ms - {''''}"
proof -
  have "set (dedup_loop out ms) = set out \<union> (set ms - {''''})" for out
    by (induction ms arbitrary: out) auto
  then show ?thesis
    by (simp add: dedup_def)
qed

lemma apply_loop_members:
  assumes "\<And>xs. set (rng xs) = set xs" "apply_loop rng role members grant bs = (out, found)"
  shows "found = (\<exists>b \<in> set bs. bi_Role b = role) \<and> members_of out r =
    (if r \<noteq> role then members_of bs r
     else if grant then members_of bs r \<union> (if found then set members else {}) else members_of bs r - set members)"
  using assms(2)
proof (induction bs arbitrary: out found)
  case (Cons b bs)
  obtain out' found' where rest: "apply_loop rng role members grant bs = (out', found')"
    by (cases "apply_loop rng role members grant bs")
  let ?merged = "keysOf rng (merge_members (bi_Members b) members grant)"
  have merged: "set ?merged = (if grant then set (bi_Members b) \<union> set members else set (bi_Members b) - set members)"
    by (simp add: keysOf_def assms(1) merge_members_set)
  show ?case
  proof (cases "bi_Role b = role")
    case True
    then have o: "out = (if length ?merged > 0 then \<lparr>bi_Role = role, bi_Members = ?merged\<rparr> # out' else out')" "found"
      using Cons.prems rest by (simp_all add: Let_def)
    have mo: "members_of out r = (if r = role then set ?merged \<union> members_of out' r else members_of out' r)"
      by (simp add: o(1))
    have f: "\<exists>b \<in> set (b # bs). bi_Role b = role"
      using True by simp
    have "members_of out r = (if r \<noteq> role then members_of (b # bs) r
        else if grant then members_of (b # bs) r \<union> (if found then set members else {})
        else members_of (b # bs) r - set members)"
      unfolding mo conjunct2 [OF Cons.IH [OF rest]] merged using True o(2)
      by (cases "r = role"; cases grant; cases found') auto
    with f o(2) show ?thesis by blast
  next
    case False
    then have o: "out = b # out'" "found = found'"
      using Cons.prems rest by simp_all
    have "members_of out r = (if r \<noteq> role then members_of (b # bs) r
        else if grant then members_of (b # bs) r \<union> (if found then set members else {})
        else members_of (b # bs) r - set members)"
      unfolding o members_of_simps conjunct2 [OF Cons.IH [OF rest]] using False by (cases "r = role") simp_all
    moreover have "found = (\<exists>b \<in> set (b # bs). bi_Role b = role)"
      using Cons.IH [OF rest] False o(2) by simp
    ultimately show ?thesis by blast
  qed
qed simp

lemma applyBinding_members:
  assumes "\<And>xs. set (rng xs) = set xs" "x \<noteq> ''''"
  shows "x \<in> members_of (applyBinding rng bs role members grant) r \<longleftrightarrow>
    (if r \<noteq> role then x \<in> members_of bs r
     else if grant then x \<in> members_of bs r \<or> x \<in> set members else x \<in> members_of bs r \<and> x \<notin> set members)"
proof -
  obtain out found where out: "apply_loop rng role members grant bs = (out, found)"
    by (cases "apply_loop rng role members grant bs")
  have mo: "members_of out r = (if r \<noteq> role then members_of bs r
      else if grant then members_of bs r \<union> (if found then set members else {}) else members_of bs r - set members)"
    using apply_loop_members [where rng = rng, OF assms(1) out] by blast
  show ?thesis
  proof (cases "grant \<and> \<not> found")
    case True
    then have "members_of (applyBinding rng bs role members grant) r
        = members_of out r \<union> (if r = role then set members - {[]} else {})"
      unfolding applyBinding_def out by (simp add: dedup_set)
    with True assms(2) show ?thesis unfolding mo by simp
  next
    case False
    then have "applyBinding rng bs role members grant = out"
      unfolding applyBinding_def out by auto
    then show ?thesis
      using mo False by (cases "r = role"; cases grant) auto
  qed
qed

section \<open>Storing a policy\<close>

lemma part_policy: "part A m v = PPolicy sc bs \<Longrightarrow> PolicyScopeKey m = Some sc"
  by (auto simp: part_def split: if_splits option.splits iam_record.splits)

lemma part_at_policy: "part_at E A now cs m = PPolicy sc bs \<Longrightarrow> PolicyScopeKey m = Some sc"
  by (auto simp: part_at_def part_policy split: option.splits)

lemma scope_part:
  assumes "PolicyScopeKey m = Some sc"
  shows "part A m v = (case decoded A v KPolicy of Some (IPolicy p) \<Rightarrow> PPolicy sc (Bindings p) | _ \<Rightarrow> PNone)"
  using assms policy_kinds [OF assms] by (simp add: part_def)

definition policy_of :: "part \<Rightarrow> Binding list option" where
  "policy_of p = (case p of PPolicy _ bs \<Rightarrow> Some bs | _ \<Rightarrow> None)"

lemma add_part_Policies:
  "Policies (add_part p s) sc = (case p of PPolicy sc' bs \<Rightarrow> if sc = sc' then Some bs else Policies s sc | _ \<Rightarrow> Policies s sc)"
  by (cases p) (simp_all add: add_member_fold)

lemma compiled_Policies:
  assumes "runtime_ok E" "iam_keyed E cs" "length m \<le> MaxKeyLength" "PolicyScopeKey m = Some sc"
  shows "Policies (compiled E A now cs) sc = policy_of (part_at E A now cs m)"
proof -
  have fold: "Policies (foldl (\<lambda>s m. add_part (part_at E A now cs m) s) NewSnapshot ms) sc
      = (if m \<in> set ms then policy_of (part_at E A now cs m) else None)" for ms
  proof (induction ms rule: rev_induct)
    case (snoc x ms)
    show ?case
    proof (cases "x = m")
      case True
      have "part_at E A now cs m = PNone \<or> (\<exists>bs. part_at E A now cs m = PPolicy sc bs)"
        by (auto simp: part_at_def scope_part [OF assms(4)] split: option.split iam_record.split)
      with True snoc show ?thesis
        by (auto simp: add_part_Policies policy_of_def)
    next
      case False
      then have "part_at E A now cs x \<noteq> PPolicy sc bs" for bs
        using part_at_policy [of E A now cs x sc bs] PolicyScopeKey_inject [OF assms(4)] by blast
      with False snoc show ?thesis
        by (auto simp: add_part_Policies split: part.splits)
    qed
  qed (simp add: NewSnapshot_def)
  show ?thesis
  proof (cases "m \<in> set (minors E cs)")
    case True
    with fold show ?thesis
      by (simp add: compiled_minors [OF assms(1,2) subset_refl])
  next
    case False
    then have "cs (iam_cell E m) = None"
      using minors_iff [OF assms(1,2), of m] assms(3) by (auto simp: domIff)
    then have "part_at E A now cs m = PNone"
      by (simp add: part_at_def live_value_def live_def)
    with False fold show ?thesis
      by (simp add: compiled_minors [OF assms(1,2) subset_refl] policy_of_def)
  qed
qed

text \<open>Snapshots that agree off one scope.\<close>

definition off_scope :: "string \<Rightarrow> Snapshot \<Rightarrow> Snapshot" where
  "off_scope sc s = s\<lparr>Policies := (Policies s)(sc := None)\<rparr>"

lemma off_scope_add: "off_scope sc (add_part p s) = off_scope sc (add_part p (off_scope sc s))"
proof (cases p)
  case (PGroup g)
  define f where "f s m = s\<lparr>MemberGroups := (MemberGroups s)(m \<mapsto> mget (MemberGroups s) [] m @ [PrincipalGroup (gr_Name g)])\<rparr>"
    for s :: Snapshot and m
  have "f (off_scope sc s) m = off_scope sc (f s m)" for s m
    by (simp add: f_def off_scope_def)
  then have "foldl f (off_scope sc s) ms = off_scope sc (foldl f s ms)" for ms
    by (induction ms arbitrary: s) simp_all
  then have "off_scope sc (foldl f s (gr_Members g)) = off_scope sc (foldl f (off_scope sc s) (gr_Members g))"
    by (simp add: off_scope_def)
  then show ?thesis
    unfolding f_def using PGroup by simp
qed (simp_all add: off_scope_def)

lemma off_scope_eq:
  assumes "off_scope sc s = off_scope sc s'" "Policies s' sc = Some bs"
  shows "s' = s\<lparr>Policies := (Policies s)(sc \<mapsto> bs)\<rparr>"
proof -
  have eq: "(Policies s)(sc := None) = (Policies s')(sc := None)"
    using arg_cong [OF assms(1), of Policies] by (simp add: off_scope_def)
  have "Policies s' = (Policies s)(sc \<mapsto> bs)"
  proof
    show "Policies s' x = ((Policies s)(sc \<mapsto> bs)) x" for x
      using fun_cong [OF eq, of x] assms(2) by (cases "x = sc") simp_all
  qed
  moreover have "Admins s = Admins s'" "Disabled s = Disabled s'" "MemberGroups s = MemberGroups s'" "Roles s = Roles s'"
    using assms(1) by (cases s; cases s'; simp add: off_scope_def)+
  ultimately show ?thesis
    by simp
qed

lemma iam_keyed_put:
  assumes "iam_keyed E cs"
  shows "iam_keyed E (cs(iam_cell E m \<mapsto> c))"
  using assms iam_cell_cut [of E m, symmetric] unfolding iam_keyed_def
  by (auto intro: exI [of _ "take MaxKeyLength m"])

lemma compiled_policy_put:
  assumes "runtime_ok E" "iam_value_ok A" "iam_keyed E cs" "length m \<le> MaxKeyLength" "PolicyScopeKey m = Some sc"
    and "iam_Encode A (IPolicy p) = Inr raw" "cs' = cs(iam_cell E m \<mapsto> fresh_cell ver raw)"
  shows "compiled E A now cs' = (compiled E A now cs)\<lparr>Policies := (Policies (compiled E A now cs))(sc \<mapsto> Bindings p)\<rparr>"
proof (rule off_scope_eq)
  have keyed: "iam_keyed E cs'"
    unfolding assms(7) by (rule iam_keyed_put [OF assms(3)])
  have new: "part_at E A now cs' m = PPolicy sc (Bindings p)"
    using live_value_fresh [OF assms(1), of cs' m ver raw now] decode_encode_iam [OF assms(2,6)]
    by (simp add: part_at_def assms(7) scope_part [OF assms(5)])
  then show "Policies (compiled E A now cs') sc = Some (Bindings p)"
    by (simp add: compiled_Policies [OF assms(1) keyed assms(4,5)] policy_of_def)
  show "off_scope sc (compiled E A now cs) = off_scope sc (compiled E A now cs')"
  proof (rule compiled_rel [OF assms(1) keyed _ subset_refl, where R = "\<lambda>s s'. off_scope sc s = off_scope sc s'"])
    show "dom cs \<subseteq> dom cs'"
      by (auto simp: assms(7))
    fix m' :: string and s s'
    assume m': "length m' \<le> MaxKeyLength" and eq: "off_scope sc s = off_scope sc s'"
    have same: "off_scope sc (add_part q s) = off_scope sc (add_part q s')" for q
      using off_scope_add [of sc q s] off_scope_add [of sc q s'] eq by simp
    show "off_scope sc (add_part (part_at E A now cs m') s) = off_scope sc (add_part (part_at E A now cs' m') s')"
    proof (cases "m' = m")
      case True
      have "part_at E A now cs m = PNone \<or> (\<exists>bs. part_at E A now cs m = PPolicy sc bs)"
        by (auto simp: part_at_def scope_part [OF assms(5)] split: option.split iam_record.split)
      with True new eq show ?thesis
        by (auto simp: off_scope_def)
    next
      case False
      then have "iam_cell E m' \<noteq> iam_cell E m"
        using iam_cell_inject [OF assms(1) m' assms(4)] by blast
      then have "part_at E A now cs' m' = part_at E A now cs m'"
        by (simp add: part_at_def live_value_def assms(7))
      with same show ?thesis by simp
    qed
  qed simp
qed

section \<open>Changing a binding\<close>

definition binding_scope :: "string \<Rightarrow> string \<Rightarrow> string" where
  "binding_scope tenant region =
     (if tenant = [] then ''i'' else if region = [] then ''t/'' @ tenant else ''r/'' @ tenant @ ''/'' @ region)"

lemma bindingMinor_scope: "PolicyScopeKey (bindingMinor tenant region) = Some (binding_scope tenant region)"
  by (simp add: bindingMinor_def binding_scope_def PolicyScopeKey_minors)

lemma grantRole_effect:
  assumes "handler_ok H" "con_ok H st" "iam_keyed (co_rt H) (con_cells H st)"
    and "grantRole H members role tenant region grant st = (None, st')" "length (bindingMinor tenant region) \<le> MaxKeyLength"
  obtains p raw ver where "iam_Encode (co_iam H) (IPolicy p) = Inr raw" "con_ok H st'"
    "con_cells H st' = (con_cells H st)(iam_cell (co_rt H) (bindingMinor tenant region) \<mapsto> fresh_cell ver raw)"
    "Bindings p = applyBinding (co_rangeSet H) (mget (Policies (compiled (co_rt H) (co_iam H) (unixNow H) (con_cells H st))) []
       (binding_scope tenant region)) role members grant"
proof -
  let ?E = "co_rt H" and ?A = "co_iam H" and ?cs = "con_cells H st" and ?m = "bindingMinor tenant region"
  note ok = handler_okD [OF assms(1)] and sc = bindingMinor_scope [of tenant region]
  obtain rec where rec: "svc_Get H st (iam_Key ?m) = Inr rec"
    "rec_Value rec = (case live ?E (unixNow H) (?cs (iam_cell ?E ?m)) of None \<Rightarrow> [] | Some c \<Rightarrow> c_value c)"
    by (rule svc_Get_cell [OF assms(1) iam_Key_major(1)])
  let ?old = "if length (rec_Value rec) > 0
    then (case decoded ?A (rec_Value rec) KPolicy of Some (IPolicy p) \<Rightarrow> p | _ \<Rightarrow> \<lparr>Bindings = []\<rparr>) else \<lparr>Bindings = []\<rparr>"
  have lv: "live_value ?E (unixNow H) ?cs ?m = (if rec_Value rec = [] then None else Some (rec_Value rec))"
    unfolding rec(2) live_value_def by (simp split: option.split)
  have old: "Bindings ?old = mget (Policies (compiled ?E ?A (unixNow H) ?cs)) [] (binding_scope tenant region)"
    unfolding mget_def compiled_Policies [OF ok(2) assms(3,5) sc] part_at_def lv
    by (simp add: scope_part [OF sc] policy_of_def split: option.split iam_record.split)
  define p where "p = ?old\<lparr>Bindings := applyBinding (co_rangeSet H) (Bindings ?old) role members grant\<rparr>"
  obtain raw s where put: "iam_Encode ?A (IPolicy p) = Inr raw" "svc_Put H st (putRequest (iam_Key ?m) raw) = (Inr s, st')"
    using assms(4) unfolding grantRole_def Let_def rec(1) p_def [symmetric] sum.case
    by (auto split: sum.splits prod.splits)
  note eff = svc_Put_stored [OF assms(1,2) iam_Key_major(1) put(2)]
  show thesis
    using eff that [OF put(1) eff(1)] old p_def by (metis PolicyRecord.select_convs(1) PolicyRecord.surjective PolicyRecord.update_convs(1))
qed

end
