(* ===== verification/Console_Setup.thy ===== *)
theory Console_Setup
  imports Console_Grants
begin

text \<open>
  The first-run setup (pkg/console/setup.go): when a node counts as set up, which cells the setup
  writes, and the administrator it leaves.
\<close>

section \<open>Whether a user exists\<close>

lemma found_fold:
  "foldl (\<lambda>found rec. case rec_Key rec of None \<Rightarrow> found | Some k \<Rightarrow> if P k then True else found) a recs
     \<longleftrightarrow> a \<or> (\<exists>r \<in> set recs. \<exists>k. rec_Key r = Some k \<and> P k)"
  by (induction recs arbitrary: a) (auto split: option.split)

lemma anyUserExists_iff:
  assumes "handler_ok H" "con_ok H st" "iam_keyed (co_rt H) (con_cells H st)"
  shows "anyUserExists H st \<longleftrightarrow> (\<exists>m. length m \<le> MaxKeyLength \<and> prefix UserPrefix m
    \<and> live (co_rt H) (unixNow H) (con_cells H st (iam_cell (co_rt H) m)) \<noteq> None)"
proof -
  let ?E = "co_rt H" and ?cs = "con_cells H st"
  let ?q = "\<lparr>kr_Key = Some iam_area, kr_HeadOnly = False, kr_Timeout = 0\<rparr>"
  let ?user = "\<lambda>k. prefix UserPrefix (string_of (MinorKey k))"
  note ok = handler_okD [OF assms(1)]
  have q: "kr_Key ?q = Some iam_area" "\<not> kr_HeadOnly ?q"
    by simp_all
  obtain recs where recs: "anyUserExists H st \<longleftrightarrow> (\<exists>r \<in> set recs. \<exists>k. rec_Key r = Some k \<and> ?user k)"
    "map row_of recs = area_rows ?E (unixNow H) ?cs iam_prefix" "\<forall>r \<in> set recs. rec_Key r \<noteq> None \<and> rec_Head r \<noteq> None"
    unfolding anyUserExists_def area_rows_off_head [symmetric]
    by (rule user_scan.GetArea_fold [OF ok(2,3) node_ok_wf [OF assms(2)] q iam_area_prefix, of "unixNow H" False])
      (simp add: found_fold)
  have key: "rec_Key r = Some (fst (row_of r))" if "r \<in> set recs" for r
    using that recs(3) by (simp add: row_of_def)
  have "(\<exists>r \<in> set recs. \<exists>k. rec_Key r = Some k \<and> ?user k) \<longleftrightarrow> (\<exists>x \<in> set (area_rows ?E (unixNow H) ?cs iam_prefix). ?user (fst x))"
    unfolding recs(2) [symmetric] by (simp add: key)
  also have "\<dots> \<longleftrightarrow> (\<exists>m. length m \<le> MaxKeyLength \<and> prefix UserPrefix m \<and> live ?E (unixNow H) (?cs (iam_cell ?E m)) \<noteq> None)"
  proof
    assume "\<exists>x \<in> set (area_rows ?E (unixNow H) ?cs iam_prefix). ?user (fst x)"
    then obtain x where x: "x \<in> set (area_rows ?E (unixNow H) ?cs iam_prefix)" "?user (fst x)"
      by (elim bexE)
    then obtain b where b: "b \<in> region_keys ?cs" "cell_row ?E (unixNow H) ?cs b = Some x"
      unfolding area_rows_iff [OF finite_off_head] region_keys_def by blast
    obtain m where m: "length m \<le> MaxKeyLength" "b = iam_cell ?E m"
      using iam_keyedD(2) [OF assms(3) b(1)] by (elim exE conjE)
    obtain c where "live ?E (unixNow H) (?cs (iam_cell ?E m)) = Some c" "x = (iam_Key m, answer False c)"
      using b(2) unfolding cell_row_def m(2) DecodeKey_iam_cell [OF ok(2) m(1)] by (simp add: map_option_case split: option.splits)
    with x(2) m(1) show "\<exists>m. length m \<le> MaxKeyLength \<and> prefix UserPrefix m \<and> live ?E (unixNow H) (?cs (iam_cell ?E m)) \<noteq> None"
      by (intro exI [of _ m]) simp
  next
    assume "\<exists>m. length m \<le> MaxKeyLength \<and> prefix UserPrefix m \<and> live ?E (unixNow H) (?cs (iam_cell ?E m)) \<noteq> None"
    then obtain m c where m: "length m \<le> MaxKeyLength" "prefix UserPrefix m" "live ?E (unixNow H) (?cs (iam_cell ?E m)) = Some c"
      by (elim exE conjE) (simp only: not_None_eq, elim exE)
    have "iam_cell ?E m \<in> dom ?cs"
      using m(3) by (cases "?cs (iam_cell ?E m)") (simp_all add: live_def domIff)
    moreover have "cell_row ?E (unixNow H) ?cs (iam_cell ?E m) = Some (iam_Key m, answer False c)"
      using m by (simp add: cell_row_def DecodeKey_iam_cell [OF ok(2)])
    ultimately have "(iam_Key m, answer False c) \<in> set (area_rows ?E (unixNow H) ?cs iam_prefix)"
      unfolding area_rows_iff [OF finite_off_head] using iam_cell_prefix by blast
    then show "\<exists>x \<in> set (area_rows ?E (unixNow H) ?cs iam_prefix). ?user (fst x)"
      using m(2) by (intro bexI [of _ "(iam_Key m, answer False c)"]) simp_all
  qed
  finally show ?thesis
    using recs(1) by simp
qed

section \<open>What the authority writes\<close>

text \<open>The certificate authority and the join tokens live in a region of their own.\<close>

lemma pki_not_iam: "\<not> prefix iam_prefix (entry_key U (PKIKey m))"
proof
  assume "prefix iam_prefix (entry_key U (PKIKey m))"
  then have "prefix (field_bytes (bytes_of IamRegion)) (field_bytes (bytes_of PKIRegion) @ field_bytes (bytes_of m))"
    unfolding iam_prefix_def entry_key_def row_key_def by (auto simp: PKIKey_def)
  then have "field_bytes (bytes_of IamRegion) = field_bytes (bytes_of PKIRegion)"
    by (auto simp: prefix_def field_bytes_def MaxKeyLength_def IamRegion_def PKIRegion_def append_eq_append_conv)
  then show False
    by (simp add: field_bytes_def MaxKeyLength_def IamRegion_def PKIRegion_def bytes_of_def)
qed

definition same_iam :: "cell_map \<Rightarrow> cell_map \<Rightarrow> bool" where
  "same_iam cs cs' \<longleftrightarrow> (\<forall>b. prefix iam_prefix b \<longrightarrow> cs' b = cs b)"

lemma same_iam_upd: "same_iam cs (cs(entry_key U (PKIKey m) := c))"
  using pki_not_iam by (auto simp: same_iam_def)

lemma ensureCA_frame:
  assumes "handler_ok H" "con_ok H st" "ensureCA H st = (r, st')"
  shows "con_ok H st' \<and> (con_cells H st' = con_cells H st \<or> (\<exists>c. con_cells H st' = (con_cells H st)(con_key H (PKIKey CAMinor) \<mapsto> c)))"
proof -
  consider "st' = st" | raw res where "svc_Put H st (casRequest (PKIKey CAMinor) raw 0) = (res, st')"
    using assms(3) by (auto simp: ensureCA_def split: sum.splits option.splits prod.splits if_splits)
  then show ?thesis
  proof cases
    case 1
    with assms(2) show ?thesis by simp
  next
    case (2 raw res)
    show ?thesis
      using assms(1,2) request_sel(2,4) iam_Key_major(2) 2 by (cases rule: svc_Put_cases) blast+
  qed
qed

lemma putGenesis_frame:
  assumes "handler_ok H" "con_ok H st"
  shows "con_ok H (putGenesisRecord H by st) \<and> (con_cells H (putGenesisRecord H by st) = con_cells H st
    \<or> (\<exists>c. con_cells H (putGenesisRecord H by st) = (con_cells H st)(iam_cell (co_rt H) GenesisMinor \<mapsto> c)))"
proof (cases "iam_Encode (co_iam H) (IGenesis \<lparr>gn_InitializedAt = word_of_int (unixNow H), gn_CreatedBy = by\<rparr>)")
  case (Inr raw)
  obtain res st' where put: "svc_Put H st (casRequest (iam_Key GenesisMinor) raw 0) = (res, st')"
    by (cases "svc_Put H st (casRequest (iam_Key GenesisMinor) raw 0)")
  have "con_ok H st' \<and> (con_cells H st' = con_cells H st \<or> (\<exists>c. con_cells H st' = (con_cells H st)(iam_cell (co_rt H) GenesisMinor \<mapsto> c)))"
    using assms request_sel(2,4) iam_Key_major(1) put by (cases rule: svc_Put_cases) blast+
  with Inr put show ?thesis
    by (simp add: putGenesisRecord_def)
qed (use assms in \<open>simp add: putGenesisRecord_def\<close>)

section \<open>The administrator\<close>

lemma user_cell_other:
  assumes "runtime_ok E" "length m \<le> MaxKeyLength" "\<not> prefix UserPrefix m"
  shows "iam_cell E (UserPrefix @ name) \<noteq> iam_cell E m"
proof
  assume "iam_cell E (UserPrefix @ name) = iam_cell E m"
  then have "iam_cell E (take MaxKeyLength (UserPrefix @ name)) = iam_cell E m"
    by (simp only: iam_cell_cut)
  moreover have "length (take MaxKeyLength (UserPrefix @ name)) \<le> MaxKeyLength"
    unfolding length_take by (rule min.cobounded2)
  ultimately have "take MaxKeyLength (UserPrefix @ name) = m"
    using iam_cell_inject [OF assms(1) _ assms(2)] by blast
  with cut_prefix [of UserPrefix name] assms(3) show False by simp
qed

text \<open>The record of the first user.\<close>

definition admin_record :: "('db, 'v, 'w, 'k, 'p) ConsoleHandler \<Rightarrow> string \<Rightarrow> string \<Rightarrow> UserRecord" where
  "admin_record H username hash = \<lparr>us_Name = username, us_PasswordHash = hash, us_Admin = False, us_Disabled = False,
     us_CreatedAt = word_of_int (unixNow H)\<rparr>"

definition fixed_minors :: "string set" where
  "fixed_minors = {PolicyInstance, GenesisMinor}"

lemma fixed_minors_kinds: "m \<in> fixed_minors \<Longrightarrow> length m \<le> MaxKeyLength \<and> \<not> prefix UserPrefix m"
  by (auto simp: fixed_minors_def layout_defs MaxKeyLength_def)

lemma fixed_cells:
  assumes "runtime_ok E"
  shows "iam_cell E PolicyInstance \<noteq> iam_cell E GenesisMinor"
  using iam_cell_inject [OF assms, of PolicyInstance GenesisMinor] by (simp add: layout_defs MaxKeyLength_def)

lemma bootstrap_writes:
  assumes "handler_ok H" "con_ok H st" "iam_keyed (co_rt H) (con_cells H st)" "forwardedToLeader H hdr proxy = None"
    and "setupBootstrap H hdr proxy (Some (username, password)) st = ((StatusCreated, body), st')"
  obtains hash raw ver p rawp verp where "\<not> anyUserExists H st" "con_ok H st'"
    "HashPassword (co_argon H) (dr_salt (co_draws H)) password = Inr hash"
    "iam_Encode (co_iam H) (IUser (admin_record H username hash)) = Inr raw"
    "con_cells H st' (iam_cell (co_rt H) (UserPrefix @ username)) = Some (fresh_cell ver raw)"
    "iam_Encode (co_iam H) (IPolicy p) = Inr rawp"
    "con_cells H st' (iam_cell (co_rt H) PolicyInstance) = Some (fresh_cell verp rawp)"
    "PrincipalUser username \<in> members_of (Bindings p) RoleAdmin"
    "\<And>b. prefix iam_prefix b \<Longrightarrow> b \<notin> iam_cell (co_rt H) ` insert (UserPrefix @ username) fixed_minors
       \<Longrightarrow> con_cells H st' b = con_cells H st b"
proof -
  let ?E = "co_rt H" and ?A = "co_iam H" and ?u = "iam_cell (co_rt H) (UserPrefix @ username)"
  note ok = handler_okD [OF assms(1)]
  have free: "\<not> anyUserExists H st"
    using assms(4,5) by (auto simp: setupBootstrap_def status_codes split: if_splits)
  obtain hash raw s st1 st2 where run:
    "HashPassword (co_argon H) (dr_salt (co_draws H)) password = Inr hash"
    "iam_Encode ?A (IUser (admin_record H username hash)) = Inr raw"
    "svc_Put H st (casRequest (iam_Key (UserPrefix @ username)) raw 0) = (Inr s, st1)" "wasUpdated s"
    "grantRole H [PrincipalUser username] RoleAdmin [] [] True st1 = (None, st2)"
    "st' = snd (ensureCA H (putGenesisRecord H username st2))"
    using assms(4,5) unfolding setupBootstrap_def admin_record_def
    by (auto simp: status_codes Let_def split: if_splits option.splits sum.splits prod.splits)
  obtain ver where e1: "con_ok H st1" "con_cells H st1 = (con_cells H st)(?u \<mapsto> fresh_cell ver raw)"
    using svc_Put_created [OF assms(1,2) iam_Key_major(1) run(3,4)] by blast
  have keyed1: "iam_keyed ?E (con_cells H st1)"
    unfolding e1(2) by (rule iam_keyed_put [OF assms(3)])
  have min: "bindingMinor [] [] = PolicyInstance" "length PolicyInstance \<le> MaxKeyLength"
    by (simp_all add: bindingMinor_def layout_defs MaxKeyLength_def)
  obtain p rawp verp where e2: "iam_Encode ?A (IPolicy p) = Inr rawp" "con_ok H st2"
    "con_cells H st2 = (con_cells H st1)(iam_cell ?E PolicyInstance \<mapsto> fresh_cell verp rawp)"
    "Bindings p = applyBinding (co_rangeSet H) (mget (Policies (compiled ?E ?A (unixNow H) (con_cells H st1))) []
       (binding_scope [] [])) RoleAdmin [PrincipalUser username] True"
    using grantRole_effect [OF assms(1) e1(1) keyed1 run(5)] min by (metis (no_types))
  have mem: "PrincipalUser username \<in> members_of (Bindings p) RoleAdmin"
    unfolding e2(4) using applyBinding_members [where rng = "co_rangeSet H", OF ok(8), of "PrincipalUser username"] by simp
  note e3 = putGenesis_frame [OF assms(1) e2(2), of username]
  have e4: "con_ok H st'" "same_iam (con_cells H (putGenesisRecord H username st2)) (con_cells H st')"
    using ensureCA_frame [OF assms(1) conjunct1 [OF e3], of "fst (ensureCA H (putGenesisRecord H username st2))" st'] run(6)
      same_iam_upd by (auto simp: same_iam_def)
  have cell: "con_cells H st' b = con_cells H st2 b" if "prefix iam_prefix b" "b \<noteq> iam_cell ?E GenesisMinor" for b
    using e4(2) e3 that unfolding same_iam_def by (metis fun_upd_other)
  have ne: "?u \<noteq> iam_cell ?E m" if "m \<in> fixed_minors" for m
    using user_cell_other [OF ok(2)] fixed_minors_kinds [OF that] by blast
  show thesis
  proof (rule that [OF free e4(1) run(1,2) _ e2(1) _ mem])
    show "con_cells H st' ?u = Some (fresh_cell ver raw)"
      using cell [of ?u, OF iam_cell_prefix] ne [of PolicyInstance] ne [of GenesisMinor]
      by (simp add: e1(2) e2(3) fixed_minors_def)
    show "con_cells H st' (iam_cell ?E PolicyInstance) = Some (fresh_cell verp rawp)"
      using cell [OF iam_cell_prefix fixed_cells [OF ok(2)]] by (simp add: e2(3))
    show "con_cells H st' b = con_cells H st b"
      if "prefix iam_prefix b" "b \<notin> iam_cell ?E ` insert (UserPrefix @ username) fixed_minors" for b
      using that cell [of b] by (auto simp: e1(2) e2(3) fixed_minors_def)
  qed
qed

lemma bootstrap_keyed:
  assumes "iam_keyed E cs" "finite (dom cs')"
    and "\<And>b. prefix iam_prefix b \<Longrightarrow> b \<notin> iam_cell E ` M \<Longrightarrow> cs' b = cs b"
  shows "iam_keyed E cs'"
  unfolding iam_keyed_def
proof (intro conjI ballI impI)
  fix b
  assume b: "b \<in> dom cs'" "prefix iam_prefix b"
  show "\<exists>m. length m \<le> MaxKeyLength \<and> b = iam_cell E m"
  proof (cases "b \<in> iam_cell E ` M")
    case True
    then obtain m where "b = iam_cell E m"
      by (elim imageE)
    then have "b = iam_cell E (take MaxKeyLength m)"
      by (simp only: iam_cell_cut)
    then show ?thesis
      by (intro exI [of _ "take MaxKeyLength m"]) simp
  next
    case False
    then have "b \<in> dom cs"
      using assms(3) [OF b(2)] b(1) by (simp add: domIff)
    then show ?thesis
      using assms(1) b(2) unfolding iam_keyed_def by blast
  qed
qed (rule assms(2))

lemma bootstrap_enabled:
  assumes "handler_ok H" "con_ok H st" "iam_keyed (co_rt H) (con_cells H st)" "\<not> anyUserExists H st"
    and "expiry_stays (store (co_rt H))" "unixNow H \<le> now'" "iam_keyed (co_rt H) cs'"
    and "iam_Encode (co_iam H) (IUser (admin_record H username hash)) = Inr raw"
    and "cs' (iam_cell (co_rt H) (UserPrefix @ username)) = Some (fresh_cell ver raw)"
    and "\<And>b. prefix iam_prefix b \<Longrightarrow> b \<notin> iam_cell (co_rt H) ` insert (UserPrefix @ username) fixed_minors
       \<Longrightarrow> cs' b = con_cells H st b"
  shows "\<not> mget (Disabled (compiled (co_rt H) (co_iam H) now' cs')) False (PrincipalUser username)"
proof (rule compiled_inv [OF handler_okD(2) [OF assms(1)] assms(7)])
  let ?E = "co_rt H" and ?A = "co_iam H" and ?u = "iam_cell (co_rt H) (UserPrefix @ username)"
  note ok = handler_okD [OF assms(1)]
  show "\<not> mget (Disabled NewSnapshot) False (PrincipalUser username)"
    by (simp add: NewSnapshot_def)
  fix m :: string and s :: Snapshot
  assume m: "length m \<le> MaxKeyLength" and s: "\<not> mget (Disabled s) False (PrincipalUser username)"
  have user: "\<not> us_Disabled u" if part: "part_at ?E ?A now' cs' m = PUser u" for u
  proof -
    obtain v where v: "live_value ?E now' cs' m = Some v" "prefix UserPrefix m" "decoded ?A v KUser = Some (IUser u)"
      using part by (auto simp: part_at_def part_def split: option.splits if_splits iam_record.splits)
    show ?thesis
    proof (cases "iam_cell ?E m = ?u")
      case True
      then have "v = raw"
        using v(1) ok(2) by (simp add: live_value_def assms(9) split: if_splits)
      with v(3) decode_encode_iam(2) [OF ok(5) assms(8)] show ?thesis
        by (simp add: admin_record_def)
    next
      case False
      moreover have "iam_cell ?E m \<noteq> iam_cell ?E m'" if "m' \<in> fixed_minors" for m'
        using iam_cell_inject [OF ok(2) m] fixed_minors_kinds [OF that] v(2) by blast
      ultimately have "cs' (iam_cell ?E m) = con_cells H st (iam_cell ?E m)"
        using assms(10) [OF iam_cell_prefix] by blast
      then have "live_value ?E now' (con_cells H st) m = Some v"
        using v(1) by (simp add: live_value_def)
      from live_value_earlier [OF assms(5,6) this] have "live ?E (unixNow H) (con_cells H st (iam_cell ?E m)) \<noteq> None"
        by (auto simp: live_value_def split: option.splits)
      with assms(4) m v(2) show ?thesis
        unfolding anyUserExists_iff [OF assms(1-3)] by blast
    qed
  qed
  show "\<not> mget (Disabled (add_part (part_at ?E ?A now' cs' m) s)) False (PrincipalUser username)"
    using s user by (cases "part_at ?E ?A now' cs' m") (simp_all add: add_member_fold)
qed

lemma compiled_predefined:
  assumes "runtime_ok E" "iam_keyed E cs" "PredefinedRoles role = Some ps"
  shows "Roles (compiled E A now cs) role = Some ps"
proof (rule compiled_inv [OF assms(1,2)])
  show "Roles NewSnapshot role = Some ps"
    by (simp add: NewSnapshot_def assms(3))
  show "Roles (add_part (part_at E A now cs m) s) role = Some ps" if "Roles s role = Some ps" for m s
    using that by (cases "part_at E A now cs m") (auto simp: add_member_fold)
qed

lemma admin_permissions: "PredefinedRoles RoleAdmin = Some AllPermissions"
  by (simp add: PredefinedRoles_def RoleAdmin_def AllPermissions_def Let_def)

end
