(* ===== verification/Console_Enroll.thy ===== *)
theory Console_Enroll
  imports Console_Setup
begin

text \<open>
  Credentials the console hands out: passwords and bearer tokens of created identities, the join tokens
  of pki.go, which are burned before a node certificate is signed, and their expiry.
\<close>

section \<open>Bearer tokens\<close>

lemma load_stored:
  assumes "handler_ok H" "con_cells H st (iam_cell (co_rt H) m) = Some (fresh_cell ver raw)"
    and "iam_Encode (co_iam H) r = Inr raw"
  shows "load (co_rt H) (co_iam H) now (fsm_Storage (fst st)) m (iam_kind_of r) = Some r"
proof -
  note ok = handler_okD [OF assms(1)]
  have "live_value (co_rt H) now (con_cells H st) m = Some raw"
    using assms(2) decode_encode_iam(3) [OF ok(5) assms(3)] ok(2) by (simp add: live_value_def)
  then show ?thesis
    using decode_encode_iam(2) [OF ok(5) assms(3)]
    unfolding load_live [OF ok(2,3)] live_value_off_head [OF ok(2)] by simp
qed

lemma load_absent:
  assumes "handler_ok H" "con_cells H st (iam_cell (co_rt H) m) = None"
  shows "load (co_rt H) (co_iam H) now (fsm_Storage (fst st)) m kind = None"
  using assms(2) unfolding load_live [OF handler_okD(2,3) [OF assms(1)]] live_value_off_head [OF handler_okD(2) [OF assms(1)]]
  by (simp add: live_value_def live_def)

lemma token_authenticates:
  assumes "handler_ok H" "con_cells H st (iam_cell (co_rt H) (TokenIndexKey (HashToken token))) = Some (fresh_cell ver raw)"
    and "iam_Encode (co_iam H) (IToken r) = Inr raw" "tk_Principal r \<noteq> []"
  shows "AuthenticateToken (co_rt H) (co_iam H) now (fsm_Storage (fst st)) token
    = (if tk_ExpiresAt r \<noteq> 0 \<and> now > sint (tk_ExpiresAt r) then Inl (Msg ''token expired'') else Inr (tk_Principal r))"
  using load_stored [OF assms(1-3)] assms(4) by (simp add: AuthenticateToken_def)

lemma password_authenticates:
  assumes "handler_ok H" "argon_ok (co_argon H)"
    and "con_cells H st (iam_cell (co_rt H) (UserPrefix @ name)) = Some (fresh_cell ver raw)"
    and "iam_Encode (co_iam H) (IUser u) = Inr raw" "\<not> us_Disabled u"
    and "HashPassword (co_argon H) salt password = Inr (us_PasswordHash u)"
  shows "AuthenticatePassword (co_rt H) (co_iam H) (co_argon H) now (fsm_Storage (fst st)) name password
    = Inr (PrincipalUser name)"
proof -
  obtain s where "salt = Inr s"
    using assms(6) by (cases salt) (simp_all add: HashPassword_def)
  then have "VerifyPassword (co_argon H) (us_PasswordHash u) password = Inr True"
    using VerifyPassword_hash [OF assms(2), of s password "us_PasswordHash u" password] assms(6) by (auto simp: bindE_def)
  then show ?thesis
    using load_stored [OF assms(1,3,4)] assms(5) by (simp add: AuthenticatePassword_def bindE_def)
qed

lemma NewToken_hash: "NewToken draw kind = Inr (token, hash) \<Longrightarrow> hash = HashToken token"
  by (auto simp: NewToken_def Let_def split: sum.splits)

section \<open>Join tokens\<close>

abbreviation join_cell :: "('db, 'v, 'w, 'k, 'p) ConsoleHandler \<Rightarrow> string \<Rightarrow> bytes" where
  "join_cell H hash \<equiv> con_key H (PKIKey (JoinIndexKey hash))"

text \<open>The live record of a join token.\<close>

definition join_record :: "('db, 'v, 'w, 'k, 'p) ConsoleHandler \<Rightarrow> 'db con \<Rightarrow> string \<Rightarrow> JoinRecord option" where
  "join_record H st token = (case live (co_rt H) (unixNow H) (con_cells H st (join_cell H (HashToken token))) of
       None \<Rightarrow> None
     | Some c \<Rightarrow> if c_value c = [] then None
         else (case decoded (co_iam H) (c_value c) KJoin of Some (IJoin jr) \<Rightarrow> Some jr | _ \<Rightarrow> None))"

lemma lookup_join:
  assumes "handler_ok H" "join_record H st token = Some jr"
  obtains rec head where "enroll_lookup H (HashToken token) st = (Inr rec, st)"
    "decoded (co_iam H) (rec_Value rec) KJoin = Some (IJoin jr)" "rec_Head rec = Some head"
    "hd_Version head = old_version (con_cells H st (join_cell H (HashToken token)))"
proof -
  obtain c where c: "live (co_rt H) (unixNow H) (con_cells H st (join_cell H (HashToken token))) = Some c" "c_value c \<noteq> []"
    "decoded (co_iam H) (c_value c) KJoin = Some (IJoin jr)"
    using assms(2) by (auto simp: join_record_def split: option.splits if_splits iam_record.splits)
  then have cell: "con_cells H st (join_cell H (HashToken token)) = Some c"
    by (auto simp: live_def split: option.splits if_splits)
  obtain rec where rec: "svc_Get H st (PKIKey (JoinIndexKey (HashToken token))) = Inr rec"
    "rec_Value rec = (case live (co_rt H) (unixNow H) (con_cells H st (join_cell H (HashToken token))) of None \<Rightarrow> [] | Some c \<Rightarrow> c_value c)"
    "\<And>c. live (co_rt H) (unixNow H) (con_cells H st (join_cell H (HashToken token))) = Some c
       \<Longrightarrow> \<exists>h. rec_Head rec = Some h \<and> hd_Version h = c_version c"
    by (rule svc_Get_cell [where st = st, OF assms(1) iam_Key_major(2) [of "JoinIndexKey (HashToken token)"]]) blast
  obtain h where h: "rec_Head rec = Some h" "hd_Version h = c_version c"
    using rec(3) [OF c(1)] by blast
  have v: "rec_Value rec = c_value c"
    using rec(2) c(1) by simp
  then have "enroll_lookup H (HashToken token) st = (Inr rec, st)"
    using rec(1) c(2) by (simp add: enroll_lookup_def)
  then show thesis
    by (rule that) (use v c(3) h cell in \<open>simp_all add: old_version_def\<close>)
qed

lemma burn_writes:
  assumes "handler_ok H" "con_ok H st" "decoded (co_iam H) (rec_Value rec) KJoin = Some (IJoin jr)" "\<not> jn_Reusable jr"
    and "enroll_burn H hash rec st = (None, st')"
  obtains head burned ver cv where "rec_Head rec = Some head" "hd_Version head = old_version (con_cells H st (join_cell H hash))"
    "con_ok H st'" "con_cells H st' = (con_cells H st)(join_cell H hash \<mapsto> fresh_cell ver burned)"
    "iam_Encode (co_iam H) (IJoin \<lparr>jn_ExpiresAt = 1, jn_CreatedBy = jn_CreatedBy jr, jn_Reusable = False\<rparr>) = Inr burned"
    "ver = next_version cv (hd_Version head)" "cv = 0 \<or> committed (shd (snd st)) cv"
proof -
  have dec: "iam_Decode (co_iam H) (rec_Value rec) KJoin = Inr (IJoin jr)"
    using assms(3) by (simp add: decoded_def split: sum.splits)
  obtain head burned s where run: "rec_Head rec = Some head"
    "iam_Encode (co_iam H) (IJoin \<lparr>jn_ExpiresAt = 1, jn_CreatedBy = jn_CreatedBy jr, jn_Reusable = False\<rparr>) = Inr burned"
    "svc_Put H st (casRequest (PKIKey (JoinIndexKey hash)) burned (hd_Version head)) = (Inr s, st')" "wasUpdated s"
    using assms(4,5) unfolding enroll_burn_def dec
    by (auto split: if_splits option.splits sum.splits prod.splits)
  from svc_Put_created [OF assms(1,2) iam_Key_major(2) run(3,4)] show thesis
    using that [OF run(1)] run(2) by blast
qed

text \<open>A second burn of a record that is no longer the one read.\<close>

lemma burn_stale:
  assumes "handler_ok H" "con_ok H st" "decoded (co_iam H) (rec_Value rec) KJoin = Some (IJoin jr)" "\<not> jn_Reusable jr"
    and "rec_Head rec = Some head" "hd_Version head \<noteq> old_version (con_cells H st (join_cell H hash))"
  shows "fst (enroll_burn H hash rec st) \<noteq> None \<and> con_cells H (snd (enroll_burn H hash rec st)) = con_cells H st"
proof -
  have dec: "iam_Decode (co_iam H) (rec_Value rec) KJoin = Inr (IJoin jr)"
    using assms(3) by (simp add: decoded_def split: sum.splits)
  show ?thesis
  proof (cases "iam_Encode (co_iam H) (IJoin \<lparr>jn_ExpiresAt = 1, jn_CreatedBy = jn_CreatedBy jr, jn_Reusable = False\<rparr>)")
    case (Inr burned)
    let ?r = "casRequest (PKIKey (JoinIndexKey hash)) burned (hd_Version head)"
    obtain res st' where put: "svc_Put H st ?r = (res, st')"
      by (cases "svc_Put H st ?r")
    have burn: "enroll_burn H hash rec st = (if jn_ExpiresAt jr \<noteq> 0 \<and> unixNow H > sint (jn_ExpiresAt jr)
        then (Some (Msg ''join token expired''), st)
        else (case res of Inl e \<Rightarrow> (Some e, st')
          | Inr s \<Rightarrow> if \<not> wasUpdated s then (Some (Msg ''join token already used''), st') else (None, st')))"
      using assms(4,5) Inr put by (simp add: enroll_burn_def dec)
    show ?thesis
      using assms(1,2) request_sel(2,4) iam_Key_major(2) put
    proof (cases rule: svc_Put_cases)
      case (stored ver cv)
      with assms(6) show ?thesis by simp
    qed (use burn in \<open>auto simp: wasUpdated_def\<close>)
  qed (use assms(4,5) in \<open>auto simp: enroll_burn_def dec\<close>)
qed

lemma next_version_new: "cv = 0 \<or> cv \<noteq> v \<Longrightarrow> next_version cv v \<noteq> v"
  by (auto simp: next_version_def)

lemma join_not_ca:
  assumes "runtime_ok E"
  shows "entry_key (uuid E) (PKIKey CAMinor) \<noteq> entry_key (uuid E) (PKIKey (JoinIndexKey hash))"
proof
  assume "entry_key (uuid E) (PKIKey CAMinor) = entry_key (uuid E) (PKIKey (JoinIndexKey hash))"
  then have "sanitize_key (PKIKey CAMinor) = sanitize_key (PKIKey (JoinIndexKey hash))"
    using runtime_okD(6) [OF assms, of "PKIKey CAMinor"] runtime_okD(6) [OF assms, of "PKIKey (JoinIndexKey hash)"] by simp
  then have "take MaxKeyLength (bytes_of CAMinor) = take MaxKeyLength (bytes_of (JoinIndexKey hash))"
    by (simp add: sanitize_key_def PKIKey_def)
  then have "take 1 (take MaxKeyLength (bytes_of CAMinor)) = take 1 (take MaxKeyLength (bytes_of (JoinIndexKey hash)))"
    by simp
  then show False
    by (simp add: MaxKeyLength_def CAMinor_def JoinIndexKey_def JoinPrefix_def bytes_of_def)
qed

text \<open>Signing leaves the token's record as it is.\<close>

lemma sign_keeps_join:
  assumes "handler_ok H" "con_ok H st" "enroll_sign H nodeID hosts csr st = (res, st')"
  shows "con_ok H st' \<and> con_cells H st' (join_cell H hash) = con_cells H st (join_cell H hash)"
proof -
  consider "st' = st" | r where "ensureCA H st = (r, st')"
    using assms(3) by (auto simp: enroll_sign_def split: sum.splits prod.splits)
  then show ?thesis
  proof cases
    case (2 r)
    from ensureCA_frame [OF assms(1,2) this] join_not_ca [OF handler_okD(2) [OF assms(1)], of hash] show ?thesis
      by auto
  qed (use assms(2) in simp)
qed

text \<open>A burned token is refused as expired, a removed one as unknown.\<close>

lemma burned_refused:
  assumes "handler_ok H" "unixNow H > 1" "con_cells H st (join_cell H (HashToken token)) = Some (fresh_cell ver burned)"
    and "iam_Encode (co_iam H) (IJoin \<lparr>jn_ExpiresAt = 1, jn_CreatedBy = by, jn_Reusable = False\<rparr>) = Inr burned"
  shows "\<exists>e. signNodeEnrollment H token nodeID hosts csr st = (Inl e, st)"
proof -
  note ok = handler_okD [OF assms(1)]
  obtain rec where rec: "svc_Get H st (PKIKey (JoinIndexKey (HashToken token))) = Inr rec" "rec_Value rec = burned"
    using svc_Get_cell [OF assms(1) iam_Key_major(2), of st "JoinIndexKey (HashToken token)"] assms(3) ok(2) by (metis (no_types, lifting) fresh_cell_sel(3) live_fresh option.simps(5))
  note dec = decode_encode_iam [OF ok(5) assms(4)]
  have "enroll_lookup H (HashToken token) st = (Inr rec, st)"
    using rec dec(3) by (simp add: enroll_lookup_def)
  moreover have "enroll_burn H (HashToken token) rec st = (Some (Msg ''join token expired''), st)"
    using dec(1) assms(2) by (simp add: enroll_burn_def rec(2))
  ultimately show ?thesis
    by (simp add: signNodeEnrollment_def)
qed

lemma removed_refused:
  assumes "handler_ok H" "con_cells H st (join_cell H (HashToken token)) = None"
    and "co_BootstrapToken H = [] \<or> HashToken (co_BootstrapToken H) \<noteq> HashToken token"
  shows "\<exists>e. signNodeEnrollment H token nodeID hosts csr st = (Inl e, st)"
proof -
  obtain rec where rec: "svc_Get H st (PKIKey (JoinIndexKey (HashToken token))) = Inr rec" "rec_Value rec = []"
    using svc_Get_cell [OF assms(1) iam_Key_major(2), of st "JoinIndexKey (HashToken token)"] assms(2)
    by (metis (no_types, lifting) live_def option.simps(4))
  then have "enroll_lookup H (HashToken token) st = (Inl (Msg ''invalid join token''), st)"
    using assms(3) by (auto simp: enroll_lookup_def adoptBootstrapToken_def)
  then show ?thesis
    by (simp add: signNodeEnrollment_def)
qed

lemma consume_removes:
  assumes "handler_ok H" "con_ok H st" "con_cells H st (join_cell H (HashToken token)) = Some (fresh_cell ver burned)"
    and "iam_Encode (co_iam H) (IJoin jr) = Inr burned" "\<not> jn_Reusable jr"
  shows "con_cells H (consumeJoinToken H token st) (join_cell H (HashToken token)) \<in> {None, Some (fresh_cell ver burned)}"
proof -
  note ok = handler_okD [OF assms(1)] and dec = decode_encode_iam(2) [OF handler_okD(5) [OF assms(1)] assms(4)]
  let ?k = "PKIKey (JoinIndexKey (HashToken token))"
  obtain rec where rec: "svc_Get H st ?k = Inr rec" "rec_Value rec = burned"
    using svc_Get_cell [OF assms(1) iam_Key_major(2), of st "JoinIndexKey (HashToken token)"] assms(3) ok(2) by (metis (no_types, lifting) fresh_cell_sel(3) live_fresh option.simps(5))
  obtain res st' where rem: "svc_Remove H st ?k = (res, st')"
    by (cases "svc_Remove H st ?k")
  have "consumeJoinToken H token st = st'"
    using rec rem dec assms(5) by (simp add: consumeJoinToken_def Let_def)
  moreover have "con_cells H st' (join_cell H (HashToken token)) \<in> {None, Some (fresh_cell ver burned)}"
    using assms(1,2) iam_Key_major(2) rem by (cases rule: svc_Remove_cases) (use assms(3) in simp_all)
  ultimately show ?thesis by simp
qed

lemma enrollment_burns:
  assumes "handler_ok H" "con_ok H st" "join_record H st token = Some jr" "\<not> jn_Reusable jr"
    and "signNodeEnrollment H token nodeID hosts csr st = (Inr certs, st')"
  obtains ver burned where "con_ok H st'" "con_cells H st' (join_cell H (HashToken token)) = Some (fresh_cell ver burned)"
    "iam_Encode (co_iam H) (IJoin \<lparr>jn_ExpiresAt = 1, jn_CreatedBy = jn_CreatedBy jr, jn_Reusable = False\<rparr>) = Inr burned"
proof -
  obtain rec head where rec: "enroll_lookup H (HashToken token) st = (Inr rec, st)"
    "decoded (co_iam H) (rec_Value rec) KJoin = Some (IJoin jr)"
    by (rule lookup_join [OF assms(1,3)])
  obtain stb where burn: "enroll_burn H (HashToken token) rec st = (None, stb)" "enroll_sign H nodeID hosts csr stb = (Inr certs, st')"
    using assms(5) rec(1) by (auto simp: signNodeEnrollment_def split: if_splits prod.splits option.splits)
  obtain ver burned where w: "con_ok H stb" "con_cells H stb = (con_cells H st)(join_cell H (HashToken token) \<mapsto> fresh_cell ver burned)"
    "iam_Encode (co_iam H) (IJoin \<lparr>jn_ExpiresAt = 1, jn_CreatedBy = jn_CreatedBy jr, jn_Reusable = False\<rparr>) = Inr burned"
    by (rule burn_writes [OF assms(1,2) rec(2) assms(4) burn(1)])
  show thesis
    using that sign_keeps_join [OF assms(1) w(1) burn(2)] w(2,3) by simp
qed

end
