(* ===== verification/Console_Instances.thy ===== *)
theory Console_Instances
  imports Console_Enroll Access_Props "HOL-Library.Countable"
begin

text \<open>A console on the in-memory engine, for the concrete runs: every record has an encoding and no write
  fails.\<close>

section \<open>A value package for all records\<close>

type_synonym iam_tuple = "nat \<times> string list \<times> int list \<times> (string \<times> string list) list"

definition flag :: "bool \<Rightarrow> int" where
  "flag b = (if b then 1 else 0)"

lemma flag_eq [simp]: "flag b = 1 \<longleftrightarrow> b"
  by (simp add: flag_def)

fun tuple_of :: "iam_record \<Rightarrow> iam_tuple" where
  "tuple_of (IGenesis g) = (0, [gn_CreatedBy g], [sint (gn_InitializedAt g)], [])"
| "tuple_of (IUser u) = (1, [us_Name u, us_PasswordHash u], [flag (us_Admin u), flag (us_Disabled u), sint (us_CreatedAt u)], [])"
| "tuple_of (IServiceAccount s) = (2, [sa_Name s, sa_TokenHash s], [flag (sa_Disabled s), sint (sa_CreatedAt s)], [])"
| "tuple_of (ICertIndex c) = (3, [ci_Principal c], [flag (ci_Issued c), sint (ci_CreatedAt c)], [])"
| "tuple_of (IToken t) = (4, [tk_Principal t, tk_Label t], [sint (tk_ExpiresAt t), sint (tk_CreatedAt t)], [])"
| "tuple_of (IGroup g) = (5, [gr_Name g], [], [([], gr_Members g)])"
| "tuple_of (IRole r) = (6, [ro_Name r], [], [([], ro_Permissions r)])"
| "tuple_of (IPolicy p) = (7, [], [], map (\<lambda>b. (bi_Role b, bi_Members b)) (Bindings p))"
| "tuple_of (IJoin j) = (8, [jn_CreatedBy j], [sint (jn_ExpiresAt j), flag (jn_Reusable j)], [])"
| "tuple_of (ICA c) = (9, [string_of (ca_CertPEM c), string_of (ca_KeyPEM c)], [sint (ca_CreatedAt c)], [])"

definition of_tuple :: "iam_tuple \<Rightarrow> iam_record" where
  "of_tuple x = (case x of (n, ss, is, bs) \<Rightarrow>
     if n = 0 then IGenesis \<lparr>gn_InitializedAt = word_of_int (is ! 0), gn_CreatedBy = ss ! 0\<rparr>
     else if n = 1 then IUser \<lparr>us_Name = ss ! 0, us_PasswordHash = ss ! 1, us_Admin = (is ! 0 = 1), us_Disabled = (is ! 1 = 1),
       us_CreatedAt = word_of_int (is ! 2)\<rparr>
     else if n = 2 then IServiceAccount \<lparr>sa_Name = ss ! 0, sa_TokenHash = ss ! 1, sa_Disabled = (is ! 0 = 1),
       sa_CreatedAt = word_of_int (is ! 1)\<rparr>
     else if n = 3 then ICertIndex \<lparr>ci_Principal = ss ! 0, ci_Issued = (is ! 0 = 1), ci_CreatedAt = word_of_int (is ! 1)\<rparr>
     else if n = 4 then IToken \<lparr>tk_Principal = ss ! 0, tk_ExpiresAt = word_of_int (is ! 0), tk_Label = ss ! 1,
       tk_CreatedAt = word_of_int (is ! 1)\<rparr>
     else if n = 5 then IGroup \<lparr>gr_Name = ss ! 0, gr_Members = snd (bs ! 0)\<rparr>
     else if n = 6 then IRole \<lparr>ro_Name = ss ! 0, ro_Permissions = snd (bs ! 0)\<rparr>
     else if n = 7 then IPolicy \<lparr>Bindings = map (\<lambda>(r, ms). \<lparr>bi_Role = r, bi_Members = ms\<rparr>) bs\<rparr>
     else if n = 8 then IJoin \<lparr>jn_ExpiresAt = word_of_int (is ! 0), jn_CreatedBy = ss ! 0, jn_Reusable = (is ! 1 = 1)\<rparr>
     else ICA \<lparr>ca_CertPEM = bytes_of (ss ! 0), ca_KeyPEM = bytes_of (ss ! 1), ca_CreatedAt = word_of_int (is ! 0)\<rparr>)"

lemma of_tuple_of [simp]: "of_tuple (tuple_of r) = r"
proof (cases r)
  case (IPolicy p)
  have "(\<lambda>b. \<lparr>bi_Role = bi_Role b, bi_Members = bi_Members b\<rparr>) = (\<lambda>b. b)"
    by auto
  with IPolicy show ?thesis
    by (simp add: of_tuple_def comp_def)
qed (simp_all add: of_tuple_def)

definition all_iam :: "iam_tuple iam_value_api" where
  "all_iam = \<lparr>iam_Marshal = (\<lambda>r. Inr (tuple_of r)), iam_Pack = (\<lambda>x. Inr (replicate (Suc (to_nat x)) 0)),
     iam_Unpack = (\<lambda>b. if b = [] then Inl (Msg ''empty'') else Inr (from_nat (length b - 1))),
     iam_Unmarshal = (\<lambda>x k. if iam_kind_of (of_tuple x) = k then Inr (of_tuple x) else Inl (Msg ''wrong type''))\<rparr>"

lemma all_iam_ok: "iam_value_ok all_iam"
  by (auto simp: iam_value_ok_def all_iam_def)

lemma all_iam_Encode: "\<exists>raw. iam_Encode all_iam r = Inr raw"
  by (simp add: iam_Encode_def all_iam_def)

section \<open>The handler\<close>

definition mem_x509 :: "(nat, nat) x509_api" where
  "mem_x509 = \<lparr>PublicKey = (\<lambda>k. k), MarshalECPrivateKey = (\<lambda>k. Inr (replicate k 0)), ParseECPrivateKey = (\<lambda>b. Inr (length b)),
     CreateCertificate = (\<lambda>tm par pub k. Inr []),
     ParseCertificate = (\<lambda>b. Inr \<lparr>xc_SerialNumber = 4, xc_CommonName = caCommonName, xc_NotBefore = 0, xc_NotAfter = 0,
        xc_KeyUsage = [], xc_ExtKeyUsage = [], xc_DNSNames = [], xc_IPAddresses = [], xc_URIs = [], xc_IsCA = True,
        xc_MaxPathLenZero = True\<rparr>),
     ParseCertificateRequest = (\<lambda>b. Inr (1, None)), pem_EncodeToMemory = (\<lambda>t b. b), pem_Decode = Some,
     url_Parse = Inr, net_ParseIP = (\<lambda>_. None)\<rparr>"

definition desk :: "(entries, payload, iam_tuple, nat, nat) ConsoleHandler" where
  "desk = \<lparr>co_rt = mem_runtime, co_values = sample_V, co_iam = all_iam, co_argon = mem_argon, co_x509 = mem_x509,
     co_Raft = None, co_clock = 5000000000,
     co_draws = \<lparr>dr_salt = Inr [1], dr_token = Inr [2], dr_caKey = Inr 3, dr_caSerial = Inr 4, dr_leafKey = Inr 5, dr_serial = Inr 6\<rparr>,
     co_rangeGroups = (\<lambda>x. x), co_rangePolicies = (\<lambda>x. x), co_rangeSet = (\<lambda>x. x),
     co_AddDate = (\<lambda>n d. n + d * 86400000000000), co_AuthEnabled = True, co_BootstrapToken = [], co_caCert = None,
     co_caKey = None\<rparr>"

lemma desk_sel [simp]:
  "co_rt desk = mem_runtime" "co_values desk = sample_V" "co_iam desk = all_iam" "co_argon desk = mem_argon"
  "co_x509 desk = mem_x509" "co_Raft desk = None" "co_clock desk = 5000000000" "unixNow desk = 5"
  "dr_salt (co_draws desk) = Inr [1]" "dr_token (co_draws desk) = Inr [2]" "co_BootstrapToken desk = []"
  "dr_caKey (co_draws desk) = Inr 3" "dr_caSerial (co_draws desk) = Inr 4" "dr_serial (co_draws desk) = Inr 6"
  "co_caCert desk = None" "co_caKey desk = None"
  by (simp_all add: desk_def unixNow_def)

lemma desk_ok: "handler_ok desk"
  by (simp add: handler_ok_def mem_engine_ok sample_V_ok all_iam_ok) (simp add: desk_def)

lemma mem_expiry_stays: "expiry_stays (store mem_runtime)"
  by (auto simp: expiry_stays_def mem_store_def)

section \<open>Its writes succeed\<close>

definition desk_start :: "entries con" where
  "desk_start = (fresh_node, sconst (commit_at 1))"

lemma desk_start_ok: "con_ok desk desk_start" "con_cells desk desk_start = Map.empty" "iam_keyed mem_runtime (con_cells desk desk_start)"
  by (simp_all add: desk_start_def node_ok_def keys_ok_def off_head_def mem_empty_cells iam_keyed_def)

lemma desk_start_cells [simp]: "off_head mem_runtime (fst desk_start) = Map.empty"
  using desk_start_ok(2) by simp

lemma desk_Put:
  assumes "plain r" "rr_Key r = Some k"
  obtains s st' where "svc_Put desk st r = (Inr s, st')"
proof -
  have r: "rr_TtlSeconds r = 0" "rr_ExpiresAt r = 0"
    using assms(1) by (simp_all add: plain_def)
  let ?p = "Put mem_runtime 5 (fsm_Storage (fst st)) r 0"
  have "(okOf (fst ?p), cells mem_runtime (snd ?p)) = total_Put (world_of mem_runtime) r 0 (cells mem_runtime (fsm_Storage (fst st)))"
    by (rule Put_total [OF mem_engine_ok]) (simp add: resolved_def r)
  then have "okOf (fst ?p) = fst (total_Put (world_of mem_runtime) r 0 (cells mem_runtime (fsm_Storage (fst st))))"
    by (metis fst_conv)
  moreover have "fst (total_Put (world_of mem_runtime) r 0 cs) \<noteq> None" for cs
    using assms(2) by (simp add: total_Put_def Let_def write_cell_def mem_badger_def)
  ultimately have "okOf (fst ?p) \<noteq> None"
    by simp
  then obtain s where "fst ?p = Inr s"
    by (cases "fst ?p") auto
  then show thesis
    using that by (simp add: svc_Put_def Service_Put_def replicates_def Let_def stamp_plain [OF r] localReply_def split_beta)
qed

lemma desk_Remove:
  obtains s st' where "svc_Remove desk st k = (Inr s, st')"
proof -
  let ?q = "\<lparr>kr_Key = Some k, kr_HeadOnly = False, kr_Timeout = 0\<rparr>"
  have "okOf (fst (Remove mem_runtime (fsm_Storage (fst st)) ?q)) = Some \<lparr>Updated = True\<rparr>"
    using Remove_total [OF mem_engine_ok, of "fsm_Storage (fst st)" ?q] by (simp add: total_Remove_def)
  then show thesis
    using that by (cases "fst (Remove mem_runtime (fsm_Storage (fst st)) ?q)")
      (simp_all add: svc_Remove_def Service_Remove_def replicates_def localReply_def split_beta)
qed

lemma desk_remove_all: "\<exists>st'. remove_all desk ms st = (None, st')"
proof (induction ms arbitrary: st)
  case (Cons m ms)
  obtain s st' where "svc_Remove desk st (iam_Key m) = (Inr s, st')"
    by (rule desk_Remove)
  with Cons [of st'] show ?case by simp
qed simp

lemma desk_rewrite_all: "\<exists>st'. rewrite_all desk f rs st = (None, st')"
proof (induction rs arbitrary: st)
  case (Cons x rs)
  obtain m r where x: "x = (m, r)" by (cases x)
  obtain raw where raw: "iam_Encode all_iam (f r) = Inr raw"
    using all_iam_Encode by blast
  obtain s st' where "svc_Put desk st (putRequest (iam_Key m) raw) = (Inr s, st')"
    by (rule desk_Put [of "putRequest (iam_Key m) raw"]) simp_all
  with Cons [of st'] x raw show ?case by simp
qed simp

lemma desk_purge:
  assumes "con_ok desk st"
  obtains st' where "purgePrincipal desk princ st = (None, st')"
proof -
  define p where "p = foldl (\<lambda>p (m, v). purge_visit all_iam princ p m v)
      \<lparr>pg_tokens = [], pg_certs = [], pg_groups = [], pg_policies = []\<rparr> (iam_pairs mem_runtime 5 (con_cells desk st))"
  obtain st1 where st1: "remove_all desk (pg_tokens p @ pg_certs p) st = (None, st1)"
    using desk_remove_all by blast
  obtain st2 where st2: "rewrite_all desk (purge_group princ) (co_rangeGroups desk (pg_groups p)) st1 = (None, st2)"
    using desk_rewrite_all by blast
  obtain st3 where st3: "rewrite_all desk (purge_policy princ) (co_rangePolicies desk (pg_policies p)) st2 = (None, st3)"
    using desk_rewrite_all by blast
  have "scanIAM desk st (purge_visit (co_iam desk) princ) \<lparr>pg_tokens = [], pg_certs = [], pg_groups = [], pg_policies = []\<rparr> = (None, p)"
    unfolding scanIAM_pairs [OF desk_ok assms] p_def by simp
  then show thesis
    using that st1 st2 st3 by (simp add: purgePrincipal_def)
qed

lemma desk_deletes:
  assumes "con_ok desk st" "name \<noteq> []"
  obtains st' where "iamDeleteUser desk name st = ((StatusOK, JDeleted name), st')"
proof -
  obtain s st1 where rem: "svc_Remove desk st (iam_Key (UserPrefix @ name)) = (Inr s, st1)"
    by (rule desk_Remove)
  have "con_ok desk st1"
    by (rule svc_Remove_removed(1) [OF desk_ok assms(1) iam_Key_major(1) rem])
  then obtain st2 where "purgePrincipal desk (PrincipalUser name) st1 = (None, st2)"
    by (rule desk_purge)
  then show thesis
    using that assms(2) rem by (simp add: iamDeleteUser_def)
qed

lemma desk_hash: obtains h where "HashPassword mem_argon (Inr [1]) pw = Inr h"
  by (simp add: HashPassword_def mem_argon_def argonTime_def argonThreads_def)

lemma desk_store:
  obtains st' where "(case iam_Encode (co_iam desk) r of Inl e \<Rightarrow> (Some e, st)
    | Inr raw \<Rightarrow> (case svc_Put desk st (putRequest k raw) of (Inl e, st) \<Rightarrow> (Some e, st) | (Inr _, st) \<Rightarrow> (None, st))) = (None, st')"
proof -
  obtain raw where raw: "iam_Encode all_iam r = Inr raw"
    using all_iam_Encode by blast
  obtain s st' where "svc_Put desk st (putRequest k raw) = (Inr s, st')"
    by (rule desk_Put [of "putRequest k raw"]) simp_all
  with raw that show thesis by simp
qed

lemma desk_grants:
  obtains st' where "grantRole desk members role tenant region grant st = (None, st')"
proof -
  obtain rec where rec: "svc_Get desk st (iam_Key (bindingMinor tenant region)) = Inr rec"
    by (rule svc_Get_cell [OF desk_ok iam_Key_major(1)])
  show thesis
    by (rule desk_store, rule that) (unfold grantRole_def Let_def rec sum.case)
qed

lemma desk_creates:
  assumes "con_ok desk st" "con_cells desk st (con_key desk k) = None" "MajorKey k = bytes_of SystemTenant"
  obtains s st' where "svc_Put desk st (casRequest k raw 0) = (Inr s, st')" "wasUpdated s"
proof -
  obtain s st' where put: "svc_Put desk st (casRequest k raw 0) = (Inr s, st')"
    by (rule desk_Put [of "casRequest k raw 0"]) simp_all
  show thesis
    using desk_ok assms(1) request_sel(2,4) assms(3) put
    by (cases rule: svc_Put_cases) (use that put assms(2) in \<open>simp_all add: wasUpdated_def old_version_def\<close>)
qed

section \<open>A node after its setup\<close>

lemma desk_forwards: "forwardedToLeader desk hdr proxy = None"
  by (simp add: forwardedToLeader_def)

lemma desk_free: "\<not> anyUserExists desk desk_start" "\<not> clusterInitialized desk desk_start"
proof -
  show "\<not> anyUserExists desk desk_start"
    unfolding anyUserExists_iff [OF desk_ok desk_start_ok(1) desk_start_ok(3) [folded desk_sel(1)]]
    by (simp add: live_def)
  obtain rec where "svc_Get desk desk_start (iam_Key GenesisMinor) = Inr rec"
    "rec_Value rec = (case live (co_rt desk) (unixNow desk) (con_cells desk desk_start (con_key desk (iam_Key GenesisMinor))) of
       None \<Rightarrow> [] | Some c \<Rightarrow> c_value c)"
    by (rule svc_Get_cell [OF desk_ok iam_Key_major(1)])
  then show "\<not> clusterInitialized desk desk_start"
    by (simp add: clusterInitialized_def live_def)
qed

definition desk_setup :: "reply \<times> entries con" where
  "desk_setup = setupBootstrap desk False None (Some (''root'', ''password'')) desk_start"

definition desk_root :: "entries con" where
  "desk_root = snd desk_setup"

lemma desk_bootstraps:
  "setupBootstrap desk False None (Some (''root'', ''password'')) desk_start = ((StatusCreated, JBootstrapped ''root'' True), desk_root)"
proof -
  obtain h where h: "HashPassword mem_argon (Inr [1]) ''password'' = Inr h"
    by (rule desk_hash)
  obtain raw where raw: "iam_Encode all_iam (IUser \<lparr>us_Name = ''root'', us_PasswordHash = h, us_Admin = False, us_Disabled = False,
      us_CreatedAt = 5\<rparr>) = Inr raw"
    using all_iam_Encode by blast
  obtain s st1 where put: "svc_Put desk desk_start (casRequest (iam_Key (UserPrefix @ ''root'')) raw 0) = (Inr s, st1)" "wasUpdated s"
    by (rule desk_creates [OF desk_start_ok(1) _ iam_Key_major(1)]) simp
  obtain st2 where grant: "grantRole desk [PrincipalUser ''root''] RoleAdmin [] [] True st1 = (None, st2)"
    by (rule desk_grants)
  have "fst desk_setup = (StatusCreated, JBootstrapped ''root'' True)"
    unfolding desk_setup_def setupBootstrap_def desk_forwards
    using desk_free h raw put grant by (simp add: Let_def) (simp add: desk_def)
  then show ?thesis
    by (metis desk_root_def desk_setup_def prod.collapse)
qed

lemma desk_root_writes:
  obtains h raw ver p rawp verp where "con_ok desk desk_root" "HashPassword mem_argon (Inr [1]) ''password'' = Inr h"
    "iam_Encode all_iam (IUser (admin_record desk ''root'' h)) = Inr raw"
    "con_cells desk desk_root (iam_cell mem_runtime (UserPrefix @ ''root'')) = Some (fresh_cell ver raw)"
    "iam_Encode all_iam (IPolicy p) = Inr rawp"
    "con_cells desk desk_root (iam_cell mem_runtime PolicyInstance) = Some (fresh_cell verp rawp)"
    "PrincipalUser ''root'' \<in> members_of (Bindings p) RoleAdmin"
    "\<And>b. prefix iam_prefix b \<Longrightarrow> b \<notin> iam_cell mem_runtime ` insert (UserPrefix @ ''root'') fixed_minors
       \<Longrightarrow> con_cells desk desk_root b = None"
proof -
  obtain h raw ver p rawp verp where w: "con_ok desk desk_root"
    "HashPassword (co_argon desk) (dr_salt (co_draws desk)) ''password'' = Inr h"
    "iam_Encode (co_iam desk) (IUser (admin_record desk ''root'' h)) = Inr raw"
    "con_cells desk desk_root (iam_cell (co_rt desk) (UserPrefix @ ''root'')) = Some (fresh_cell ver raw)"
    "iam_Encode (co_iam desk) (IPolicy p) = Inr rawp"
    "con_cells desk desk_root (iam_cell (co_rt desk) PolicyInstance) = Some (fresh_cell verp rawp)"
    "PrincipalUser ''root'' \<in> members_of (Bindings p) RoleAdmin"
    "\<And>b. prefix iam_prefix b \<Longrightarrow> b \<notin> iam_cell (co_rt desk) ` insert (UserPrefix @ ''root'') fixed_minors
       \<Longrightarrow> con_cells desk desk_root b = con_cells desk desk_start b"
    by (rule bootstrap_writes [OF desk_ok desk_start_ok(1) desk_start_ok(3) [folded desk_sel(1)] desk_forwards desk_bootstraps]) blast
  show thesis
    by (rule that [OF w(1) _ _ _ _ _ w(7)]) (use w(2-6,8) in simp_all)
qed

lemma desk_root_ok:
  shows "con_ok desk desk_root" "iam_keyed mem_runtime (con_cells desk desk_root)"
    and "users_named mem_runtime all_iam 5 (con_cells desk desk_root)" "accounts_named mem_runtime all_iam 5 (con_cells desk desk_root)"
proof -
  let ?E = "mem_runtime" and ?cs = "con_cells desk desk_root"
  obtain h raw ver where w: "con_ok desk desk_root" "iam_Encode all_iam (IUser (admin_record desk ''root'' h)) = Inr raw"
    "?cs (iam_cell ?E (UserPrefix @ ''root'')) = Some (fresh_cell ver raw)"
    "\<And>b. prefix iam_prefix b \<Longrightarrow> b \<notin> iam_cell ?E ` insert (UserPrefix @ ''root'') fixed_minors \<Longrightarrow> ?cs b = None"
    by (rule desk_root_writes) blast
  show "con_ok desk desk_root" by (rule w(1))
  show "iam_keyed ?E ?cs"
    by (rule bootstrap_keyed [where cs = Map.empty and M = "insert (UserPrefix @ ''root'') fixed_minors"])
      (use w(4) finite_off_head in \<open>auto simp: iam_keyed_def\<close>)
  have where_: "m \<in> insert (UserPrefix @ ''root'') fixed_minors"
    if "length m \<le> MaxKeyLength" "live_value ?E 5 ?cs m = Some v" for m v
  proof (rule ccontr)
    assume "m \<notin> insert (UserPrefix @ ''root'') fixed_minors"
    moreover have "length m' \<le> MaxKeyLength" if "m' \<in> insert (UserPrefix @ ''root'') fixed_minors" for m'
      using that fixed_minors_kinds [of m'] by (auto simp: layout_defs MaxKeyLength_def)
    ultimately have "iam_cell ?E m \<notin> iam_cell ?E ` insert (UserPrefix @ ''root'') fixed_minors"
      using iam_cell_inject [OF mem_runtime_ok that(1)] by blast
    then have "?cs (iam_cell ?E m) = None"
      by (rule w(4) [OF iam_cell_prefix])
    with that(2) show False
      by (simp add: live_value_def live_def)
  qed
  have val: "v = raw" if "live_value ?E 5 ?cs (UserPrefix @ ''root'') = Some v" for v
    using that w(3) mem_runtime_ok by (simp add: live_value_def split: if_splits)
  show "users_named ?E all_iam 5 ?cs"
    unfolding users_named_def
  proof (intro allI impI)
    fix m v u
    assume a: "length m \<le> MaxKeyLength" "live_value ?E 5 ?cs m = Some v" "prefix UserPrefix m"
      "decoded all_iam v KUser = Some (IUser u)"
    then have "m = UserPrefix @ ''root''"
      using where_ [OF a(1,2)] fixed_minors_kinds by auto
    with a val decode_encode_iam(2) [OF all_iam_ok w(2)] show "m = UserPrefix @ us_Name u"
      by (auto simp: admin_record_def)
  qed
  show "accounts_named ?E all_iam 5 ?cs"
    unfolding accounts_named_def
  proof (intro allI impI)
    fix m v sa
    assume a: "length m \<le> MaxKeyLength" "live_value ?E 5 ?cs m = Some v" "prefix ServiceAccountPrefix m"
    from where_ [OF this(1,2)] this(3) show "m = ServiceAccountPrefix @ sa_Name sa"
      by (auto simp: fixed_minors_def layout_defs)
  qed
qed

section \<open>A node with a join token\<close>

lemma desk_ensureCA:
  assumes "con_ok desk st" "con_cells desk st (con_key desk (PKIKey CAMinor)) = None"
  obtains ca st' where "ensureCA desk st = (Inr ca, st')"
proof -
  obtain rec where "svc_Get desk st (PKIKey CAMinor) = Inr rec"
    "rec_Value rec = (case live (co_rt desk) (unixNow desk) (con_cells desk st (con_key desk (PKIKey CAMinor))) of
       None \<Rightarrow> [] | Some c \<Rightarrow> c_value c)"
    by (rule svc_Get_cell [where st = st, OF desk_ok iam_Key_major(2) [of CAMinor]])
  then have load: "loadCA desk st = Inr None"
    using assms(2) by (simp add: loadCA_def live_def)
  obtain r where new: "newCARecord desk = Inr r"
    by (simp add: newCARecord_def LoadGenesisCA_def HasTransportCA_def GenerateCA_def randSerial_def Let_def mem_x509_def)
  obtain raw where raw: "iam_Encode all_iam (ICA r) = Inr raw"
    using all_iam_Encode by blast
  obtain s st' where put: "svc_Put desk st (casRequest (PKIKey CAMinor) raw 0) = (Inr s, st')" "wasUpdated s"
    by (rule desk_creates [OF assms iam_Key_major(2)])
  obtain ca where "CA_Load mem_x509 r = Inr ca"
    by (simp add: CA_Load_def mem_x509_def)
  with load new raw put that show thesis
    by (simp add: ensureCA_def)
qed

definition join_raw :: bytes where
  "join_raw = (case iam_Encode all_iam (IJoin \<lparr>jn_ExpiresAt = 0, jn_CreatedBy = ''root'', jn_Reusable = False\<rparr>) of Inr raw \<Rightarrow> raw | Inl _ \<Rightarrow> [])"

lemma join_raw: "iam_Encode all_iam (IJoin \<lparr>jn_ExpiresAt = 0, jn_CreatedBy = ''root'', jn_Reusable = False\<rparr>) = Inr join_raw"
  using all_iam_Encode [of "IJoin \<lparr>jn_ExpiresAt = 0, jn_CreatedBy = ''root'', jn_Reusable = False\<rparr>"] by (auto simp: join_raw_def)

definition desk_join :: "entries con" where
  "desk_join = (fst (snd (svc_Put desk desk_start (putRequest (PKIKey (JoinIndexKey (HashToken ''join-1''))) join_raw))), sconst (commit_at 7))"

lemma desk_join_cells:
  "con_ok desk desk_join" "con_cells desk desk_join = [join_cell desk (HashToken ''join-1'') \<mapsto> fresh_cell 1 join_raw]"
proof -
  let ?r = "putRequest (PKIKey (JoinIndexKey (HashToken ''join-1''))) join_raw"
  obtain s st' where put: "svc_Put desk desk_start ?r = (Inr s, st')"
    by (rule desk_Put [of ?r]) simp_all
  then have j: "desk_join = (fst st', sconst (commit_at 7))"
    by (simp add: desk_join_def)
  have "con_ok desk st' \<and> con_cells desk st' = [join_cell desk (HashToken ''join-1'') \<mapsto> fresh_cell 1 join_raw]"
    using desk_ok desk_start_ok(1) request_sel(1,3) iam_Key_major(2) put
    by (cases rule: svc_Put_cases)
      (use desk_start_ok(2) in \<open>auto simp: desk_start_def committed_def commit_at_def next_version_def old_version_def\<close>)
  then show "con_ok desk desk_join" "con_cells desk desk_join = [join_cell desk (HashToken ''join-1'') \<mapsto> fresh_cell 1 join_raw]"
    by (simp_all add: j)
qed

lemma desk_join_record:
  "join_record desk desk_join ''join-1'' = Some \<lparr>jn_ExpiresAt = 0, jn_CreatedBy = ''root'', jn_Reusable = False\<rparr>"
  using desk_join_cells(2) decode_encode_iam [OF all_iam_ok join_raw] mem_runtime_ok by (simp add: join_record_def)

lemma desk_burns:
  obtains rec st' where "enroll_lookup desk (HashToken ''join-1'') desk_join = (Inr rec, desk_join)"
    "enroll_burn desk (HashToken ''join-1'') rec desk_join = (None, st')"
proof -
  obtain rec head where rec: "enroll_lookup desk (HashToken ''join-1'') desk_join = (Inr rec, desk_join)"
    "decoded (co_iam desk) (rec_Value rec) KJoin = Some (IJoin \<lparr>jn_ExpiresAt = 0, jn_CreatedBy = ''root'', jn_Reusable = False\<rparr>)"
    "rec_Head rec = Some head" "hd_Version head = old_version (con_cells desk desk_join (join_cell desk (HashToken ''join-1'')))"
    by (rule lookup_join [OF desk_ok desk_join_record])
  note ok = desk_join_cells(1)
  obtain burned where burned: "iam_Encode all_iam (IJoin \<lparr>jn_ExpiresAt = 1, jn_CreatedBy = ''root'', jn_Reusable = False\<rparr>) = Inr burned"
    using all_iam_Encode by blast
  let ?r = "casRequest (PKIKey (JoinIndexKey (HashToken ''join-1''))) burned (hd_Version head)"
  obtain s st' where put: "svc_Put desk desk_join ?r = (Inr s, st')"
    by (rule desk_Put [of ?r]) simp_all
  have up: "wasUpdated s"
    using desk_ok ok request_sel(2,4) iam_Key_major(2) put
    by (cases rule: svc_Put_cases) (use rec(4) in \<open>simp_all add: wasUpdated_def\<close>)
  have "iam_Decode all_iam (rec_Value rec) KJoin = Inr (IJoin \<lparr>jn_ExpiresAt = 0, jn_CreatedBy = ''root'', jn_Reusable = False\<rparr>)"
    using rec(2) by (simp add: decoded_def split: sum.splits)
  then have "enroll_burn desk (HashToken ''join-1'') rec desk_join = (None, st')"
    using rec(3) burned put up by (simp add: enroll_burn_def)
  with that rec(1) show thesis by blast
qed

lemma desk_enrolls:
  obtains certs st' where "signNodeEnrollment desk ''join-1'' ''n1'' [] [] desk_join = (Inr certs, st')"
proof -
  obtain rec stb where run: "enroll_lookup desk (HashToken ''join-1'') desk_join = (Inr rec, desk_join)"
    "enroll_burn desk (HashToken ''join-1'') rec desk_join = (None, stb)"
    by (rule desk_burns)
  obtain rec' head where "enroll_lookup desk (HashToken ''join-1'') desk_join = (Inr rec', desk_join)"
    "decoded (co_iam desk) (rec_Value rec') KJoin = Some (IJoin \<lparr>jn_ExpiresAt = 0, jn_CreatedBy = ''root'', jn_Reusable = False\<rparr>)"
    by (rule lookup_join [OF desk_ok desk_join_record])
  with run(1) have dec: "decoded (co_iam desk) (rec_Value rec) KJoin = Some (IJoin \<lparr>jn_ExpiresAt = 0, jn_CreatedBy = ''root'', jn_Reusable = False\<rparr>)"
    by simp
  note j = desk_join_cells
  obtain ver' burned where b: "con_ok desk stb"
    "con_cells desk stb = (con_cells desk desk_join)(join_cell desk (HashToken ''join-1'') \<mapsto> fresh_cell ver' burned)"
    by (rule burn_writes [OF desk_ok j(1) dec _ run(2)]) simp_all
  have "con_cells desk stb (con_key desk (PKIKey CAMinor)) = None"
    unfolding b(2) j(2) using join_not_ca [OF mem_runtime_ok] by simp
  then obtain ca st' where ca: "ensureCA desk stb = (Inr ca, st')"
    by (rule desk_ensureCA [OF b(1)])
  obtain dns ips where hosts: "splitHosts mem_x509 [''n1'', NodeSANDNS] = (dns, ips)"
    by (cases "splitHosts mem_x509 [''n1'', NodeSANDNS]")
  have "\<exists>certs. enroll_sign desk ''n1'' [] [] stb = (Inr certs, st')"
    using ca hosts by (simp add: enroll_sign_def ParseCSR_def CA_Sign_def randSerial_def mem_x509_def)
  then obtain certs where "enroll_sign desk ''n1'' [] [] stb = (Inr certs, st')" by blast
  with run have "signNodeEnrollment desk ''join-1'' ''n1'' [] [] desk_join = (Inr certs, st')"
    by (simp add: signNodeEnrollment_def)
  then show thesis by (rule that)
qed

end
