(* ===== verification/Console_Props.thy ===== *)
theory Console_Props
  imports Console_Instances
begin

text \<open>Properties of the admin console (pkg/console) and the built-in authority (pkg/iam/ca.go).\<close>

section \<open>Deleting an identity\<close>

text \<open>C11 Deleting an identity is complete: once \<open>iamDeleteUser\<close> or \<open>iamDeleteServiceAccount\<close> has answered 200,
  no password, token or certificate authenticates as the principal, and the policy compiled from the
  records grants it nothing anywhere, at that moment and at every later one.\<close>

theorem deletion_is_complete:
  assumes "handler_ok H" "con_ok H st" "expiry_stays (store (co_rt H))" "iam_keyed (co_rt H) (con_cells H st)"
    and "users_named (co_rt H) (co_iam H) (unixNow H) (con_cells H st)" "deletes H princ st st'" "unixNow H \<le> now'"
  shows "Authenticate (co_rt H) (co_iam H) G now' (fsm_Storage (fst st')) certs cred \<noteq> Inr princ
    \<and> \<not> allowed (compiled (co_rt H) (co_iam H) now' (cells (co_rt H) (fsm_Storage (fst st')))) princ perm tenant region"
proof -
  note ok = handler_okD [OF assms(1)]
  obtain m where m: "identity_minor princ m" "iam_keyed (co_rt H) ((con_cells H st)(iam_cell (co_rt H) m := None))"
    "purged (co_rt H) (co_iam H) (unixNow H) princ ((con_cells H st)(iam_cell (co_rt H) m := None)) (con_cells H st')"
    by (rule deletes_effect [OF assms(1,2,4,6)])
  have gone: "con_cells H st' (iam_cell (co_rt H) m) = None"
    using m(3) unfolding purged_def by auto
  have "Authenticate (co_rt H) (co_iam H) G now' (fsm_Storage (fst st')) certs cred \<noteq> Inr princ"
    by (rule purged_authenticates_none [OF ok(2,3,5) assms(3) m(3) assms(7)])
      (use m(1) gone in \<open>auto simp: identity_minor_def\<close>)
  moreover have "unnamed princ (compiled (co_rt H) (co_iam H) now' (con_cells H st'))"
    by (rule purged_unnamed [OF ok(2,5) assms(3) m(3) assms(7) m(2) deleted_no_user [OF assms(5) m(1)]])
  ultimately show ?thesis
    by (simp add: compiled_off_head unnamed_denied)
qed

theorem deletion_is_complete_witness:
  "\<exists>st'. iamDeleteUser desk ''root'' desk_root = ((StatusOK, JDeleted ''root''), st')
    \<and> Authenticate mem_runtime all_iam mem_argon 9 (fsm_Storage (fst st')) None
        (Some (\<lambda>f. if f = ''method'' then ''password'' else if f = ''user'' then ''root'' else ''password''))
      \<noteq> Inr (PrincipalUser ''root'')
    \<and> \<not> allowed (compiled mem_runtime all_iam 9 (cells mem_runtime (fsm_Storage (fst st')))) (PrincipalUser ''root'')
        PermIamSet [] []"
proof -
  obtain st' where del: "iamDeleteUser desk ''root'' desk_root = ((StatusOK, JDeleted ''root''), st')"
    by (rule desk_deletes [OF desk_root_ok(1), of "''root''"]) simp
  then have "deletes desk (PrincipalUser ''root'') desk_root st'"
    by (auto simp: deletes_def)
  with del show ?thesis
    using deletion_is_complete [OF desk_ok desk_root_ok(1), where princ = "PrincipalUser ''root''" and st' = st' and now' = 9
        and G = mem_argon and certs = None and perm = PermIamSet and tenant = "[]" and region = "[]"]
      mem_expiry_stays desk_root_ok by simp
qed

text \<open>C19 Deleting an identity touches no one else: every credential that authenticated as another principal
  still does, and every decision about another principal is what it was.\<close>

theorem deletion_spares_others:
  assumes "handler_ok H" "con_ok H st" "iam_keyed (co_rt H) (con_cells H st)"
    and "users_named (co_rt H) (co_iam H) (unixNow H) (con_cells H st)"
    and "accounts_named (co_rt H) (co_iam H) (unixNow H) (con_cells H st)"
    and "deletes H princ st st'" "length princ < MaxKeyLength" "q \<noteq> princ"
  shows "(Authenticate (co_rt H) (co_iam H) G (unixNow H) (fsm_Storage (fst st)) certs cred = Inr q \<longrightarrow>
      Authenticate (co_rt H) (co_iam H) G (unixNow H) (fsm_Storage (fst st')) certs cred = Inr q)
    \<and> allowed (compiled (co_rt H) (co_iam H) (unixNow H) (cells (co_rt H) (fsm_Storage (fst st')))) q perm tenant region
      = allowed (compiled (co_rt H) (co_iam H) (unixNow H) (cells (co_rt H) (fsm_Storage (fst st)))) q perm tenant region"
proof -
  note ok = handler_okD [OF assms(1)]
  obtain m where m: "identity_minor princ m"
    "purged (co_rt H) (co_iam H) (unixNow H) princ ((con_cells H st)(iam_cell (co_rt H) m := None)) (con_cells H st')"
    by (rule deletes_effect [OF assms(1-3,6)])
  have len: "length m < MaxKeyLength"
    using m(1) assms(7) by (auto simp: identity_minor_def PrincipalUser_def PrincipalServiceAccount_def layout_defs)
  have "agree_for princ q (compiled (co_rt H) (co_iam H) (unixNow H) (con_cells H st))
      (compiled (co_rt H) (co_iam H) (unixNow H) (con_cells H st'))"
    by (rule deletion_agrees [OF ok(2,5) assms(3-5) m(1) less_imp_le [OF len] m(2) assms(8)])
  then show ?thesis
    using deletion_authenticates [OF ok(2,3) m(2,1) len assms(8)] agree_for_allowed assms(8)
    unfolding compiled_off_head by blast
qed

theorem deletion_spares_others_witness:
  "\<exists>st'. iamDeleteUser desk ''nobody'' desk_root = ((StatusOK, JDeleted ''nobody''), st')
    \<and> allowed (compiled mem_runtime all_iam 5 (cells mem_runtime (fsm_Storage (fst st')))) (PrincipalUser ''root'') PermIamSet [] []
      = allowed (compiled mem_runtime all_iam 5 (cells mem_runtime (fsm_Storage (fst desk_root)))) (PrincipalUser ''root'') PermIamSet [] []"
proof -
  obtain st' where del: "iamDeleteUser desk ''nobody'' desk_root = ((StatusOK, JDeleted ''nobody''), st')"
    by (rule desk_deletes [OF desk_root_ok(1), of "''nobody''"]) simp
  then have "deletes desk (PrincipalUser ''nobody'') desk_root st'"
    by (auto simp: deletes_def)
  with del show ?thesis
    using deletion_spares_others [OF desk_ok desk_root_ok(1), where princ = "PrincipalUser ''nobody''" and st' = st'
        and q = "PrincipalUser ''root''" and perm = PermIamSet and tenant = "[]" and region = "[]"]
      desk_root_ok by (simp add: PrincipalUser_def MaxKeyLength_def)
qed

section \<open>Bindings\<close>

text \<open>C12 Changing a binding is exact: granting a role to members, or revoking it, at the instance, a tenant or
  a region changes the compiled policy at that one scope only, and there adds or removes exactly those
  members of exactly that role.\<close>

theorem binding_change_exact:
  assumes "handler_ok H" "con_ok H st" "iam_keyed (co_rt H) (con_cells H st)"
    and "iamChangeBinding H (Some q) grant st = ((StatusOK, body), st')"
    and "length (bindingMinor (bq_Tenant q) (bq_Region q)) \<le> MaxKeyLength"
  shows "\<exists>bs. (\<forall>now. compiled (co_rt H) (co_iam H) now (cells (co_rt H) (fsm_Storage (fst st')))
        = (compiled (co_rt H) (co_iam H) now (cells (co_rt H) (fsm_Storage (fst st))))
          \<lparr>Policies := (Policies (compiled (co_rt H) (co_iam H) now (cells (co_rt H) (fsm_Storage (fst st)))))
             (binding_scope (bq_Tenant q) (bq_Region q) \<mapsto> bs)\<rparr>)
    \<and> (let old = mget (Policies (compiled (co_rt H) (co_iam H) (unixNow H) (cells (co_rt H) (fsm_Storage (fst st))))) []
             (binding_scope (bq_Tenant q) (bq_Region q)) in
       \<forall>x role. x \<noteq> [] \<longrightarrow> (x \<in> members_of bs role \<longleftrightarrow>
         (if role \<noteq> bq_Role q then x \<in> members_of old role
          else if grant then x \<in> members_of old role \<or> x \<in> set (bq_Members q)
          else x \<in> members_of old role \<and> x \<notin> set (bq_Members q))))"
proof -
  note ok = handler_okD [OF assms(1)]
  have run: "grantRole H (bq_Members q) (bq_Role q) (bq_Tenant q) (bq_Region q) grant st = (None, st')"
    using assms(4) by (auto simp: iamChangeBinding_def status_codes split: if_splits prod.splits option.splits)
  obtain p raw ver where p: "iam_Encode (co_iam H) (IPolicy p) = Inr raw"
    "con_cells H st' = (con_cells H st)(iam_cell (co_rt H) (bindingMinor (bq_Tenant q) (bq_Region q)) \<mapsto> fresh_cell ver raw)"
    "Bindings p = applyBinding (co_rangeSet H) (mget (Policies (compiled (co_rt H) (co_iam H) (unixNow H) (con_cells H st))) []
       (binding_scope (bq_Tenant q) (bq_Region q))) (bq_Role q) (bq_Members q) grant"
    by (rule grantRole_effect [OF assms(1-3) run assms(5)])
  note put = compiled_policy_put [OF ok(2,5) assms(3,5) bindingMinor_scope p(1,2)]
  note mem = applyBinding_members [where rng = "co_rangeSet H", OF ok(8)]
  show ?thesis
    unfolding compiled_off_head Let_def by (intro exI [of _ "Bindings p"] conjI allI impI put) (unfold p(3), rule mem)
qed

theorem binding_change_exact_witness:
  "\<exists>st'. iamChangeBinding desk (Some \<lparr>bq_Role = ''roles/cdb.viewer'', bq_Members = [''user:w''], bq_Tenant = ''t'', bq_Region = []\<rparr>) True
      desk_root = ((StatusOK, JScope ''t'' ''roles/cdb.viewer''), st')
    \<and> (\<exists>bs. ''user:w'' \<in> members_of bs ''roles/cdb.viewer''
      \<and> Policies (compiled mem_runtime all_iam 9 (cells mem_runtime (fsm_Storage (fst st')))) ''t/t'' = Some bs)"
proof -
  let ?q = "\<lparr>bq_Role = ''roles/cdb.viewer'', bq_Members = [''user:w''], bq_Tenant = ''t'', bq_Region = []\<rparr>"
  obtain st' where "grantRole desk [''user:w''] ''roles/cdb.viewer'' ''t'' [] True desk_root = (None, st')"
    by (rule desk_grants)
  then have run: "iamChangeBinding desk (Some ?q) True desk_root = ((StatusOK, JScope ''t'' ''roles/cdb.viewer''), st')"
    by (simp add: iamChangeBinding_def bindingScopeLabelOf_def)
  have len: "length (bindingMinor (bq_Tenant ?q) (bq_Region ?q)) \<le> MaxKeyLength"
    by (simp add: bindingMinor_def PolicyTenantMinor_def layout_defs MaxKeyLength_def)
  from binding_change_exact [OF desk_ok desk_root_ok(1) desk_root_ok(2) [folded desk_sel(1)] run len] run show ?thesis
    by (auto simp: binding_scope_def Let_def)
qed

section \<open>First-run setup\<close>

lemma bootstrap_allows:
  assumes "handler_ok H" "con_ok H st" "iam_keyed (co_rt H) (con_cells H st)" "forwardedToLeader H hdr proxy = None"
    and "setupBootstrap H hdr proxy (Some (username, password)) st = ((StatusCreated, body), st')"
    and "expiry_stays (store (co_rt H))" "unixNow H \<le> now'" "perm \<in> set AllPermissions"
  shows "allowed (compiled (co_rt H) (co_iam H) now' (con_cells H st')) (PrincipalUser username) perm tenant region"
proof -
  let ?E = "co_rt H" and ?A = "co_iam H" and ?s = "compiled (co_rt H) (co_iam H) now' (con_cells H st')"
  note ok = handler_okD [OF assms(1)]
  obtain hash raw ver p rawp verp where w: "\<not> anyUserExists H st"
    "iam_Encode ?A (IUser (admin_record H username hash)) = Inr raw"
    "con_cells H st' (iam_cell ?E (UserPrefix @ username)) = Some (fresh_cell ver raw)"
    "iam_Encode ?A (IPolicy p) = Inr rawp" "con_cells H st' (iam_cell ?E PolicyInstance) = Some (fresh_cell verp rawp)"
    "PrincipalUser username \<in> members_of (Bindings p) RoleAdmin"
    "\<And>b. prefix iam_prefix b \<Longrightarrow> b \<notin> iam_cell ?E ` insert (UserPrefix @ username) fixed_minors \<Longrightarrow> con_cells H st' b = con_cells H st b"
    by (rule bootstrap_writes [OF assms(1-5)]) blast
  have keyed: "iam_keyed ?E (con_cells H st')"
    by (rule bootstrap_keyed [OF assms(3) finite_off_head w(7)])
  have pol: "PolicyScopeKey PolicyInstance = Some ''i''" "length PolicyInstance \<le> MaxKeyLength"
    by (rule PolicyScopeKey_minors(1)) (simp add: layout_defs MaxKeyLength_def)
  have "live_value ?E now' (con_cells H st') PolicyInstance = Some rawp"
    using live_value_fresh [where cs = "con_cells H st'", OF ok(2) w(5)] decode_encode_iam(3) [OF ok(5) w(4)] by simp
  then have "Policies ?s ''i'' = Some (Bindings p)"
    using decode_encode_iam(2) [OF ok(5) w(4)]
    by (simp add: compiled_Policies [OF ok(2) keyed pol(2,1)] part_at_def scope_part [OF pol(1)] policy_of_def)
  moreover obtain b where "b \<in> set (Bindings p)" "bi_Role b = RoleAdmin" "PrincipalUser username \<in> set (bi_Members b)"
    using w(6) by (auto simp: members_of_def)
  moreover have "perm \<in> set (mget (Roles ?s) [] RoleAdmin)"
    using assms(8) by (simp add: mget_def compiled_predefined [OF ok(2) keyed admin_permissions])
  ultimately have "granted ?s (PrincipalUser username) perm ''i''"
    unfolding granted_def by (intro bexI [of _ b]) (auto simp: mget_def speaks_for_def)
  moreover have "\<not> mget (Disabled ?s) False (PrincipalUser username)"
    by (rule bootstrap_enabled [OF assms(1-3) w(1) assms(6,7) keyed w(2,3,7)])
  ultimately show ?thesis
    by (simp add: allowed_def)
qed

lemma user_stops_setup:
  assumes "handler_ok H" "con_ok H st" "con_cells H st (iam_cell (co_rt H) (UserPrefix @ name)) = Some (fresh_cell ver raw)"
    and "iam_keyed (co_rt H) (con_cells H st)" "forwardedToLeader H hdr proxy = None"
  shows "setupBootstrap H hdr proxy req st = ((StatusForbidden, JError ''setup already completed''), st)"
proof -
  let ?m = "take MaxKeyLength (UserPrefix @ name)"
  have "live (co_rt H) (unixNow H) (con_cells H st (iam_cell (co_rt H) ?m)) \<noteq> None"
    unfolding iam_cell_cut using assms(3) handler_okD(2) [OF assms(1)] by simp
  then have "anyUserExists H st"
    unfolding anyUserExists_iff [OF assms(1,2,4)] using cut_prefix [of UserPrefix name]
    by (intro exI [of _ ?m]) (simp del: take_append)
  with assms(5) show ?thesis
    by (simp add: setupBootstrap_def)
qed



section \<open>Credentials\<close>

lemma created_user_logs_in:
  assumes "handler_ok H" "con_ok H st" "argon_ok (co_argon H)"
    and "iamCreateUser H (Some (name, password)) st = ((StatusCreated, body), st')"
  shows "AuthenticatePassword (co_rt H) (co_iam H) (co_argon H) now (fsm_Storage (fst st')) name password = Inr (PrincipalUser name)"
proof -
  obtain hash raw s where r: "HashPassword (co_argon H) (dr_salt (co_draws H)) password = Inr hash"
    "iam_Encode (co_iam H) (IUser (admin_record H name hash)) = Inr raw"
    "svc_Put H st (casRequest (iam_Key (UserPrefix @ name)) raw 0) = (Inr s, st')" "wasUpdated s"
    using assms(4) unfolding iamCreateUser_def admin_record_def
    by (auto simp: status_codes split: if_splits sum.splits prod.splits)
  from svc_Put_created [OF assms(1,2) iam_Key_major(1) r(3,4)]
  obtain ver where "con_cells H st' (iam_cell (co_rt H) (UserPrefix @ name)) = Some (fresh_cell ver raw)"
    by auto
  from password_authenticates [OF assms(1,3) this r(2)] r(1) show ?thesis
    by (simp add: admin_record_def)
qed

lemma stored_token_authenticates:
  assumes "handler_ok H" "con_ok H st" "NewToken draw kind = Inr (token, hash)" "tk_Principal r \<noteq> []"
    and "iam_Encode (co_iam H) (IToken r) = Inr raw" "svc_Put H st (putRequest (iam_Key (TokenIndexKey hash)) raw) = (Inr s, st')"
  shows "AuthenticateToken (co_rt H) (co_iam H) now (fsm_Storage (fst st')) token
    = (if tk_ExpiresAt r \<noteq> 0 \<and> now > sint (tk_ExpiresAt r) then Inl (Msg ''token expired'') else Inr (tk_Principal r))"
proof -
  from svc_Put_stored(2) [OF assms(1,2) iam_Key_major(1) assms(6)]
  obtain ver where "con_cells H st' (iam_cell (co_rt H) (TokenIndexKey hash)) = Some (fresh_cell ver raw)"
    by auto
  with token_authenticates [OF assms(1) _ assms(5,4)] NewToken_hash [OF assms(3)] show ?thesis
    by simp
qed

lemma account_token_works:
  assumes "handler_ok H" "con_ok H st"
    and "iamCreateServiceAccount H (Some name) st = ((StatusCreated, JServiceAccount name token), st')"
  shows "AuthenticateToken (co_rt H) (co_iam H) now (fsm_Storage (fst st')) token = Inr (PrincipalServiceAccount name)"
proof -
  obtain hash raw s st0 where r: "NewToken (dr_token (co_draws H)) TokenPrefixServiceAccount = Inr (token, hash)"
    "svc_Put H st (casRequest (iam_Key (ServiceAccountPrefix @ name)) raw 0) = (Inr s, st0)" "wasUpdated s"
    "writeTokenIndex H hash (PrincipalServiceAccount name) 0 st0 = (None, st')"
    using assms(3) unfolding iamCreateServiceAccount_def
    by (auto simp: status_codes split: if_splits sum.splits prod.splits option.splits)
  have ok0: "con_ok H st0"
    using svc_Put_created [OF assms(1,2) iam_Key_major(1) r(2,3)] by blast
  let ?t = "\<lparr>tk_Principal = PrincipalServiceAccount name, tk_ExpiresAt = 0, tk_Label = [], tk_CreatedAt = 0\<rparr>"
  obtain raw' s' where w: "iam_Encode (co_iam H) (IToken ?t) = Inr raw'"
    "svc_Put H st0 (putRequest (iam_Key (TokenIndexKey hash)) raw') = (Inr s', st')"
    using r(4) by (auto simp: writeTokenIndex_def split: sum.splits prod.splits)
  from stored_token_authenticates [OF assms(1) ok0 r(1) _ w] show ?thesis
    by simp
qed

lemma user_token_works:
  assumes "handler_ok H" "con_ok H st"
    and "iamCreateUserToken H (Some (label, days)) name st = ((StatusCreated, JToken tid token lab ex), st')"
  shows "AuthenticateToken (co_rt H) (co_iam H) now (fsm_Storage (fst st')) token
    = (if ex \<noteq> 0 \<and> now > sint ex then Inl (Msg ''token expired'') else Inr (PrincipalUser name))"
proof -
  define r where "r = \<lparr>tk_Principal = PrincipalUser name,
    tk_ExpiresAt = time_Unix (co_AddDate H (co_clock H) (if days \<le> 0 then defaultPATDays else days)),
    tk_Label = TrimSpace label, tk_CreatedAt = time_Unix (co_clock H)\<rparr>"
  obtain hash raw s where run: "NewToken (dr_token (co_draws H)) TokenPrefixUser = Inr (token, hash)"
    "iam_Encode (co_iam H) (IToken r) = Inr raw"
    "svc_Put H st (putRequest (iam_Key (TokenIndexKey hash)) raw) = (Inr s, st')" "tk_ExpiresAt r = ex"
    using assms(3) unfolding iamCreateUserToken_def Let_def
    by (auto simp: status_codes r_def split: if_splits sum.splits prod.splits)
  have "tk_Principal r = PrincipalUser name"
    by (simp add: r_def)
  with stored_token_authenticates [OF assms(1,2) run(1) _ run(2,3)] run(4) show ?thesis
    by simp
qed

lemma revoked_token_refused:
  assumes "handler_ok H" "con_ok H st" "iamRevokeUserToken H name (HashToken token) st = ((StatusOK, body), st')"
  shows "AuthenticateToken (co_rt H) (co_iam H) now (fsm_Storage (fst st')) token = Inl (Msg ''invalid token'')"
proof -
  obtain s where "svc_Remove H st (iam_Key (TokenIndexKey (HashToken token))) = (Inr s, st')"
    using assms(3) unfolding iamRevokeUserToken_def by (auto simp: status_codes split: if_splits sum.splits prod.splits)
  from svc_Remove_removed(2) [OF assms(1,2) iam_Key_major(1) this]
  have "con_cells H st' (iam_cell (co_rt H) (TokenIndexKey (HashToken token))) = None"
    by simp
  from load_absent [OF assms(1) this] show ?thesis
    by (simp add: AuthenticateToken_def)
qed

text \<open>C20 The credentials the console hands out work as said: a created user logs in with the given password, the
  token of a created service account authenticates as it, a personal access token authenticates as its
  user up to the expiry in the reply and is refused as expired after it, and a revoked token is refused.\<close>

theorem issued_credentials_work:
  assumes "handler_ok H" "con_ok H st" "argon_ok (co_argon H)"
  shows "(iamCreateUser H (Some (name, password)) st = ((StatusCreated, ba), sta) \<longrightarrow>
      AuthenticatePassword (co_rt H) (co_iam H) (co_argon H) now (fsm_Storage (fst sta)) name password = Inr (PrincipalUser name))
    \<and> (iamCreateServiceAccount H (Some name) st = ((StatusCreated, JServiceAccount name token), stb) \<longrightarrow>
      AuthenticateToken (co_rt H) (co_iam H) now (fsm_Storage (fst stb)) token = Inr (PrincipalServiceAccount name))
    \<and> (iamCreateUserToken H (Some (label, days)) name st = ((StatusCreated, JToken tid token lab ex), stc) \<longrightarrow>
      AuthenticateToken (co_rt H) (co_iam H) now (fsm_Storage (fst stc)) token
        = (if ex \<noteq> 0 \<and> now > sint ex then Inl (Msg ''token expired'') else Inr (PrincipalUser name)))
    \<and> (iamRevokeUserToken H name (HashToken token) st = ((StatusOK, bd), std) \<longrightarrow>
      AuthenticateToken (co_rt H) (co_iam H) now (fsm_Storage (fst std)) token = Inl (Msg ''invalid token''))"
  by (intro conjI impI)
    (erule created_user_logs_in [OF assms] account_token_works [OF assms(1,2)] user_token_works [OF assms(1,2)]
      revoked_token_refused [OF assms(1,2)])+

theorem issued_credentials_work_witness:
  "\<exists>token st'. iamCreateServiceAccount desk (Some ''app'') desk_start = ((StatusCreated, JServiceAccount ''app'' token), st')
    \<and> AuthenticateToken mem_runtime all_iam 9 (fsm_Storage (fst st')) token = Inr (PrincipalServiceAccount ''app'')"
proof -
  obtain token hash where tok: "NewToken (Inr [2]) TokenPrefixServiceAccount = Inr (token, hash)"
    by (simp add: NewToken_def Let_def)
  obtain raw where raw: "iam_Encode all_iam (IServiceAccount \<lparr>sa_Name = ''app'', sa_TokenHash = hash, sa_Disabled = False,
      sa_CreatedAt = 5\<rparr>) = Inr raw"
    using all_iam_Encode by blast
  obtain s st1 where put: "svc_Put desk desk_start (casRequest (iam_Key (ServiceAccountPrefix @ ''app'')) raw 0) = (Inr s, st1)"
    "wasUpdated s"
    by (rule desk_creates [OF desk_start_ok(1) _ iam_Key_major(1)]) simp
  obtain st' where "writeTokenIndex desk hash (PrincipalServiceAccount ''app'') 0 st1 = (None, st')"
    unfolding writeTokenIndex_def by (rule desk_store)
  with tok raw put have run: "iamCreateServiceAccount desk (Some ''app'') desk_start
      = ((StatusCreated, JServiceAccount ''app'' token), st')"
    by (simp add: iamCreateServiceAccount_def badName_def)
  with issued_credentials_work [OF desk_ok desk_start_ok(1), where name = "''app''" and token = token and stb = st' and now = 9]
    mem_argon_ok show ?thesis
    by auto
qed

section \<open>Join tokens\<close>

text \<open>C13 A minted join token enrolls one node: once a node certificate was signed for it, every later request
  with the same token is refused and changes nothing, whether its record is still the burned one or
  already removed.\<close>

theorem join_token_single_use:
  assumes "handler_ok H" "con_ok H st" "join_record H st token = Some jr" "\<not> jn_Reusable jr"
    and "signNodeEnrollment H token nodeID hosts csr st = (Inr certs, st1)" "st2 \<in> {st1, consumeJoinToken H token st1}"
    and "handler_ok H'" "co_rt H' = co_rt H" "co_iam H' = co_iam H" "unixNow H' > 1"
    and "co_BootstrapToken H' = [] \<or> HashToken (co_BootstrapToken H') \<noteq> HashToken token"
  shows "\<exists>e. signNodeEnrollment H' token nodeID' hosts' csr' st2 = (Inl e, st2)"
proof -
  obtain ver burned where w: "con_ok H st1" "con_cells H st1 (join_cell H (HashToken token)) = Some (fresh_cell ver burned)"
    "iam_Encode (co_iam H) (IJoin \<lparr>jn_ExpiresAt = 1, jn_CreatedBy = jn_CreatedBy jr, jn_Reusable = False\<rparr>) = Inr burned"
    by (rule enrollment_burns [OF assms(1-5)])
  have "con_cells H st2 (join_cell H (HashToken token)) \<in> {None, Some (fresh_cell ver burned)}"
    using assms(6) w(2) consume_removes [OF assms(1) w] by auto
  then have "con_cells H' st2 (join_cell H' (HashToken token)) = None
      \<or> con_cells H' st2 (join_cell H' (HashToken token)) = Some (fresh_cell ver burned)"
    by (simp add: assms(8))
  then show ?thesis
  proof
    assume "con_cells H' st2 (join_cell H' (HashToken token)) = None"
    then show ?thesis
      by (rule removed_refused [OF assms(7) _ assms(11)])
  next
    assume "con_cells H' st2 (join_cell H' (HashToken token)) = Some (fresh_cell ver burned)"
    from burned_refused [OF assms(7,10) this w(3) [folded assms(9)]] show ?thesis .
  qed
qed

theorem join_token_single_use_witness:
  "\<exists>certs st1 e. signNodeEnrollment desk ''join-1'' ''n1'' [] [] desk_join = (Inr certs, st1)
     \<and> signNodeEnrollment desk ''join-1'' ''n2'' [] [] (consumeJoinToken desk ''join-1'' st1) = (Inl e, consumeJoinToken desk ''join-1'' st1)"
proof -
  obtain certs st1 where run: "signNodeEnrollment desk ''join-1'' ''n1'' [] [] desk_join = (Inr certs, st1)"
    by (rule desk_enrolls)
  with join_token_single_use [OF desk_ok desk_join_cells(1) desk_join_record _ run, where ?H' = desk and nodeID' = "''n2''"
      and hosts' = "[]" and csr' = "[]" and ?st2.0 = "consumeJoinToken desk ''join-1'' st1"] desk_ok
  show ?thesis by auto
qed

text \<open>C21 Of two enrollments that race for one join token at most one wins: both have read the same record; once the
  first has burned it, the second is refused and writes nothing, however late its request comes, as
  long as the record is still the burned one. The raft index of the first write is one that the record
  does not carry already.\<close>

theorem join_token_race:
  assumes "handler_ok H" "con_ok H st" "join_record H st token = Some jr" "\<not> jn_Reusable jr"
    and "enroll_lookup H (HashToken token) st = (Inr rec, st)" "enroll_burn H (HashToken token) rec st = (None, st1)"
    and "\<And>i. committed (shd (snd st)) i \<Longrightarrow> i \<noteq> old_version (con_cells H st (join_cell H (HashToken token)))"
    and "handler_ok H'" "co_rt H' = co_rt H" "co_iam H' = co_iam H" "con_ok H' st2"
    and "con_cells H' st2 (join_cell H' (HashToken token)) = con_cells H st1 (join_cell H (HashToken token))"
  shows "fst (enroll_burn H' (HashToken token) rec st2) \<noteq> None
    \<and> con_cells H' (snd (enroll_burn H' (HashToken token) rec st2)) = con_cells H' st2"
proof -
  obtain rec' head' where "enroll_lookup H (HashToken token) st = (Inr rec', st)"
    "decoded (co_iam H) (rec_Value rec') KJoin = Some (IJoin jr)"
    by (rule lookup_join [OF assms(1,3)])
  with assms(5) have dec: "decoded (co_iam H) (rec_Value rec) KJoin = Some (IJoin jr)"
    by simp
  obtain head burned ver cv where w: "rec_Head rec = Some head"
    "hd_Version head = old_version (con_cells H st (join_cell H (HashToken token)))"
    "con_cells H st1 = (con_cells H st)(join_cell H (HashToken token) \<mapsto> fresh_cell ver burned)"
    "ver = next_version cv (hd_Version head)" "cv = 0 \<or> committed (shd (snd st)) cv"
    by (rule burn_writes [OF assms(1,2) dec assms(4,6)])
  have "ver \<noteq> hd_Version head"
    unfolding w(4) using w(2,5) assms(7) by (intro next_version_new) auto
  then have "hd_Version head \<noteq> old_version (con_cells H' st2 (join_cell H' (HashToken token)))"
    unfolding assms(12) by (simp add: w(3) old_version_def)
  from burn_stale [OF assms(8,11) dec [folded assms(10)] assms(4) w(1) this] show ?thesis .
qed

theorem join_token_race_witness:
  "\<exists>rec st1. enroll_lookup desk (HashToken ''join-1'') desk_join = (Inr rec, desk_join)
     \<and> enroll_burn desk (HashToken ''join-1'') rec desk_join = (None, st1)
     \<and> fst (enroll_burn desk (HashToken ''join-1'') rec st1) \<noteq> None"
proof -
  obtain rec st1 where run: "enroll_lookup desk (HashToken ''join-1'') desk_join = (Inr rec, desk_join)"
    "enroll_burn desk (HashToken ''join-1'') rec desk_join = (None, st1)"
    by (rule desk_burns)
  have ver: "i \<noteq> old_version (con_cells desk desk_join (join_cell desk (HashToken ''join-1'')))"
    if "committed (shd (snd desk_join)) i" for i
    unfolding desk_join_cells(2) using that by (auto simp: desk_join_def committed_def commit_at_def old_version_def)
  obtain rec' where "enroll_lookup desk (HashToken ''join-1'') desk_join = (Inr rec', desk_join)"
    "decoded (co_iam desk) (rec_Value rec') KJoin = Some (IJoin \<lparr>jn_ExpiresAt = 0, jn_CreatedBy = ''root'', jn_Reusable = False\<rparr>)"
    by (rule lookup_join [OF desk_ok desk_join_record]) blast
  with run(1) have dec: "decoded (co_iam desk) (rec_Value rec) KJoin = Some (IJoin \<lparr>jn_ExpiresAt = 0, jn_CreatedBy = ''root'', jn_Reusable = False\<rparr>)"
    by simp
  have "con_ok desk st1"
    by (rule burn_writes [OF desk_ok desk_join_cells(1) dec _ run(2)]) simp_all
  from join_token_race [OF desk_ok desk_join_cells(1) desk_join_record _ run ver desk_ok refl refl this refl]
  have "fst (enroll_burn desk (HashToken ''join-1'') rec st1) \<noteq> None" by simp
  with run show ?thesis by blast
qed

lemma minutes_in_range: "sint (n * time_Minute) = 60000000000 * sint n" if "0 < sint n" "sint n \<le> 153722867"
proof -
  have "n * time_Minute = word_of_int (60000000000 * sint n)"
    by (simp add: time_Minute_def time_Second_def)
  then have "sint (n * time_Minute) = signed_take_bit (LENGTH(64) - 1) (60000000000 * sint n)"
    by (simp only: sint_sbintrunc')
  also have "\<dots> = 60000000000 * sint n"
    using that by (intro signed_take_bit_int_eq_self) simp_all
  finally show ?thesis
    using that by simp
qed

lemma minutes_wrap: "sint (n * time_Minute) < 0" if "153722868 \<le> sint n" "sint n \<le> 307445734"
proof -
  have "n * time_Minute = word_of_int (60000000000 * sint n - 2 ^ 64)"
    by (simp add: time_Minute_def time_Second_def)
  then have "sint (n * time_Minute) = signed_take_bit (LENGTH(64) - 1) (60000000000 * sint n - 2 ^ 64)"
    by (simp only: sint_sbintrunc')
  also have "\<dots> = 60000000000 * sint n - 2 ^ 64"
    using that by (intro signed_take_bit_int_eq_self) simp_all
  finally show ?thesis
    using that by simp
qed

text \<open>C40 The lifetime of a minted join token: the record stored for it expires at the time the reply shows. For
  up to 153722867 minutes that is the clock plus the requested minutes. From 153722868 to 307445734 minutes
  the 64-bit duration has wrapped to a negative one, and the token never expires.\<close>

theorem join_ttl_wraps:
  assumes "handler_ok H" "con_ok H st" "0 < sint n"
    and "mintJoinTokenHandler H (Some n) princ st = ((StatusCreated, JJoinToken token ex), st')"
  shows "join_record H st' token = Some \<lparr>jn_ExpiresAt = ex, jn_CreatedBy = princ, jn_Reusable = False\<rparr>
    \<and> (sint n \<le> 153722867 \<longrightarrow> ex = time_Unix (co_clock H + 60000000000 * sint n))
    \<and> (153722868 \<le> sint n \<and> sint n \<le> 307445734 \<longrightarrow> ex = 0)"
proof -
  obtain ca sta hash raw s where run: "ensureCA H st = (Inr ca, sta)" "NewToken (dr_token (co_draws H)) TokenPrefixJoin = Inr (token, hash)"
    "ex = (if sint (n * time_Minute) > 0 then time_Unix (time_Add (co_clock H) (n * time_Minute)) else 0)"
    "iam_Encode (co_iam H) (IJoin \<lparr>jn_ExpiresAt = ex, jn_CreatedBy = princ, jn_Reusable = False\<rparr>) = Inr raw"
    "svc_Put H sta (putRequest (PKIKey (JoinIndexKey hash)) raw) = (Inr s, st')"
    using assms(3,4) by (auto simp: mintJoinTokenHandler_def mintJoinToken_def Let_def split: sum.splits prod.splits)
  have "con_ok H sta"
    using ensureCA_frame [OF assms(1,2) run(1)] by blast
  then obtain ver where "con_cells H st' = (con_cells H sta)(join_cell H (HashToken token) \<mapsto> fresh_cell ver raw)"
    using svc_Put_stored(2) [OF assms(1) _ iam_Key_major(2) run(5)] NewToken_hash [OF run(2)] by blast
  then have stored: "join_record H st' token = Some \<lparr>jn_ExpiresAt = ex, jn_CreatedBy = princ, jn_Reusable = False\<rparr>"
    using decode_encode_iam [OF handler_okD(5) [OF assms(1)] run(4)] handler_okD [OF assms(1)] by (simp add: join_record_def)
  show ?thesis
    using stored run(3) minutes_in_range [OF assms(3)] minutes_wrap [of n] assms(3) by (auto simp: time_Add_def)
qed

theorem join_ttl_wraps_witness:
  "\<exists>token st'. mintJoinTokenHandler desk (Some 153722868) ''root'' desk_start = ((StatusCreated, JJoinToken token 0), st')
     \<and> join_record desk st' token = Some \<lparr>jn_ExpiresAt = 0, jn_CreatedBy = ''root'', jn_Reusable = False\<rparr>"
proof -
  have n: "sint (153722868 :: i64) = 153722868" by simp
  obtain ca sta where ca: "ensureCA desk desk_start = (Inr ca, sta)"
    by (rule desk_ensureCA [OF desk_start_ok(1)]) simp_all
  obtain token hash where tok: "NewToken (Inr [2]) TokenPrefixJoin = Inr (token, hash)"
    by (simp add: NewToken_def Let_def)
  obtain s st' where put: "svc_Put desk sta (putRequest (PKIKey (JoinIndexKey hash)) join_raw) = (Inr s, st')"
    by (rule desk_Put [of "putRequest (PKIKey (JoinIndexKey hash)) join_raw"]) simp_all
  have "\<not> 0 < sint (153722868 * time_Minute)"
    using minutes_wrap [of 153722868] by simp
  then have run: "mintJoinTokenHandler desk (Some 153722868) ''root'' desk_start = ((StatusCreated, JJoinToken token 0), st')"
    using ca tok put join_raw by (simp add: mintJoinTokenHandler_def mintJoinToken_def Let_def)
  with join_ttl_wraps [OF desk_ok desk_start_ok(1) _ run] show ?thesis by auto
qed

end
