(* ===== verification/Spec2Isabelle.thy ===== *)
theory Spec2Isabelle
  imports Key_Props Storage_Props Replica_Props Service_Props Access_Props Quorum_Props Backup_Props Console_Props
begin

text \<open>
  \<^bold>\<open>ConsensusDB: a verification development.\<close>

  ConsensusDB is a replicated key-value store written in Go. Records live under a key of tenant (major key),
  region, minor key and time UUID; every write goes through raft, is folded into a hash chain, and the
  chain heads of the nodes are signed into quorum certificates against which a backup can be audited.
  Identities, roles and bindings are records of a reserved tenant of the same store, managed by an admin console.

  \<^bold>\<open>The program's parts and the theories that model them.\<close> Paths are under src/pkg. A theory has the data
  types of its source file as records and datatypes with the source's field names (prefixed by the
  struct's initials where two structs share one), and one definition per function or method, in the
  order of the file and under the function's name. A method on a receiver takes the receiver as its first state
  argument and returns it updated; an error result is the left side of a sum.

  \<^item> \<open>Prelude\<close>: Go's byte strings, machine integers, errors and panics; big-endian encodings; sorted lists.
  \<^item> \<open>Pb\<close>: pb/cdb.go, the requests and replies.
  \<^item> \<open>Keys\<close>: server/key.go, the storage key codec, translated with its buffer writes, positions and
    unchecked reads. \<open>Key_Props\<close>: round trip, prefix scans match exactly the keys that agree on the prefix,
    and the malformed keys on which decoding panics.
  \<^item> \<open>Engine\<close>: the badger database and the value envelope of the store package, as parameters with contracts.
    \<open>Storage\<close>: server/storage.go and record.go, every reading and writing method of \<open>KeyValueStorageCtx\<close>,
    its iterator loops and watchers included. \<open>Storage_Spec\<close>, \<open>Storage_Reads\<close>, \<open>Storage_Total\<close>: the abstract store, a map
    from entry keys to cells, and that each method refines it; writes as total functions of request,
    commit version and map. \<open>Storage_Props\<close>: outcomes of every branch of a put, atomic batches, reclaim,
    and the invariant of reachable stores under which range reads are exact. \<open>Instances\<close>: an in-memory engine and envelope that
    satisfy the contracts.
  \<^item> \<open>Sha256\<close>, \<open>Hash_Chain\<close>, \<open>Ledger_Head\<close>: crypto/sha256 itself, ledger/hashchain.go and ledger/head.go.
  \<^item> \<open>Command\<close>, \<open>Fsm\<close>: replication/command.go, fsm.go, snapshot.go, the raft log entry codec and the state
    machine. \<open>Refinement\<close>: simulations between state machines. \<open>Replica_Props\<close>: replicas that apply one log
    agree whatever their engines and clocks; versions identify writes; equal chain digests mean equal
    logs; what replays, snapshots, restores and writes on the reserved head key do.
  \<^item> \<open>Service\<close>, \<open>Service_Props\<close>: server/server.go, server/replicator.go, replication/replicator.go and
    reclaimer.go, the write path with and without raft, the not-leader error, and one expiry sweep.
  \<^item> \<open>Iam\<close>, \<open>Password\<close>, \<open>Policy\<close>: iam/iam.go, token.go, password.go, policy.go. \<open>Access\<close>: server/auth.go,
    policy_service.go, authz_guard.go. \<open>Wire\<close>, \<open>Data_Plane\<close>: server/vrpc_data.go and admin.go, every codec and
    every handler of the data plane. \<open>Policy_Sync\<close>: the policy service as a watcher of the store, a step
    relation of writes, notices and decisions. \<open>Access_Props\<close>: a handler acts only for a caller the stored
    policy allows; a decision follows the stored policy once the notices are delivered; enumeration is exact and ordered;
    codecs and password hashes round-trip; two ways around the policy.
  \<^item> \<open>Quorum\<close>, \<open>Quorum_Props\<close>: ledger/bls.go, ca.go, checkpoint.go, verify.go, signer.go and
    replication/ledger_service.go, node certificates and quorum certificates. Two verified certificates never disagree on a height;
    enough attestations always make a certificate that verifies.
  \<^item> \<open>Container\<close>, \<open>Backup_Client\<close>, \<open>Backup_Props\<close>: backup/crypto.go, backup/client.go and verify/backup.go. A dump
    restores the store it was taken from, a tampered one yields at most a leading part, a cut is
    noticed, and the verifier accepts exactly the dumps whose head a certificate attests.
  \<^item> \<open>Ca\<close>: iam/ca.go, the built-in certificate authority. \<open>Console\<close>: console/iam.go and pat.go, users, service
    accounts, tokens, roles, bindings, groups. \<open>Console_Pki\<close>: console/setup.go, pki.go and the token
    handlers of nodes.go. A handler maps the decoded request and the node to a status, a reply and the node; it
    writes through the service, so each write uses up one raft proposal of the stream that comes with the
    node. \<open>Console_Effects\<close>, \<open>Console_Spec\<close>, \<open>Console_Parts\<close>: what a service call does to the cells other than the
    ledger head, what a scan of the IAM region lists, and the compiled policy as the sum of what each
    record contributes. \<open>Console_Deletion\<close>, \<open>Console_Grants\<close>, \<open>Console_Setup\<close>, \<open>Console_Enroll\<close>: the operations over that
    view. \<open>Console_Instances\<close>: a console whose writes succeed, for the concrete runs. \<open>Console_Props\<close>: a deleted identity keeps no
    credential and no grant and nobody else loses one; a binding change changes exactly its scope and role;
    setup succeeds once; issued credentials authenticate until revoked; a join token enrolls one node, races included.

  \<^bold>\<open>How the parts interact.\<close> The data plane and the console authorize a caller by the policy snapshot, which
  is compiled from the IAM records of the local store and marked stale by its watchers. A write reaches the
  service, which resolves the expiry to an absolute time and, with replication on, proposes a command;
  \<open>Apply\<close> folds each committed entry into the chain, persists the head and runs the storage method with the
  raft index as version. Without replication the service calls storage directly. The ledger service signs
  the chain head. Backups stream the database through a container; the verifier loads one and compares
  its stored head with a quorum certificate.

  \<^bold>\<open>Parameters.\<close> Code outside the repository is an argument with a contract, stated as a named predicate and
  proved of a concrete instance: the badger engine and value envelope (\<open>runtime_ok\<close>, \<open>engine_ok\<close>), the value
  package (\<open>value_ok\<close>, \<open>iam_value_ok\<close> and the laws of theory Wire), argon2, the ciphers, the signature schemes (genuine signatures
  verify; where a statement is about who signed, a verifying signature in circulation was made by the key's
  holder), x509. Clocks, randomness, the order in which Go ranges over a map, the fate of a raft
  proposal, cancellation and the answers of other nodes are arguments too, and every theorem holds for all of them.
  Cryptographic hashing is not assumed injective: the theorems about digests name the collision.

  \<^bold>\<open>Contracts between components.\<close> The locales state what a client relies on and are interpreted on the
  model: \<open>simulation\<close> (the state machine over the total storage operations), \<open>head_store\<close> (storage under the
  persisted chain head), \<open>growing_head\<close> (the chain under attestation), \<open>block_sender\<close> (the collecting and the
  channel sender under the scans) and \<open>folding_sender\<close> (the callbacks of the console's scans).

  \<^bold>\<open>Loops and bounds.\<close> Loops over lists and iterators are structural recursions. The container's read
  loop recurses on the bytes left in the source, and every read makes progress, so no fuel is involved. Lengths in keys are
  cut at 65535 as in the code; versions, indices, counters, expiries and durations are 64-bit words and wrap.

  \<^bold>\<open>Not modelled.\<close> Opening and closing files, databases and listeners; bean wiring, adapters and goroutines
  around the raft, serf, HTTP and logging libraries (replication/beans.go, host.go, raftstore.go,
  server/configuration.go); TLS configurations and peer checks (replication/nodetls.go, peercheck.go,
  the TLS functions of iam/ca.go); the object store client (backup/objstore.go); metrics, health and static assets (run);
  the console's job table, host statistics and fan-out to peers (console/jobs.go, stats.go, ledger.go and the
  metrics part of nodes.go); the command line (cmd), which parses flags and calls the modelled services over a
  connection. They are I/O and library calls. Log lines and the arguments formatted into
  error texts are left out of the modelled functions.
\<close>

end
